(* ===== verification/Prelude.thy ===== *)
theory Prelude
  imports "HOL-Library.Word"
begin

text \<open>
  Shared vocabulary of the development.

  \<^item> The Rust scalar types the crate uses as words of their width, byte strings as lists of
    octets, and \<open>Bytes32\<close> as the 256-bit word whose octets, most significant first, are the
    32 bytes of the array.
  \<^item> The result of running a piece of the crate's code: \<open>Ok\<close>, \<open>Err\<close> with an error value, or a
    panic. An operation takes the state and returns a result together with the state it leaves
    behind, so that an early return keeps the effects that happened before it.
  \<^item> The combinators the operations are written with: \<open>tryM\<close> is Rust's \<open>?\<close> followed by the
    rest of the body, \<open>foldM\<close> and \<open>forM\<close> are \<open>for\<close> loops whose body may return early.
  \<^item> The rules by which the component theories reason about them: inversion of a successful run,
    a triple for successful runs, and frame rules that hold for every result.
  \<^item> The half-open and closed height ranges \<open>a..b\<close> and \<open>a..=b\<close>.
\<close>

section \<open>Scalar types\<close>

type_synonym u8 = "8 word"
type_synonym u32 = "32 word"
type_synonym u64 = "64 word"
type_synonym usize = "64 word"
type_synonym bytes = "u8 list"
type_synonym bytes32 = "256 word"

section \<open>Results and operations\<close>

datatype ('e, 'a) outcome =
    Ok 'a
  | Err 'e
  | Panic string

type_synonym ('s, 'e, 'a) operation = "'s \<Rightarrow> ('e, 'a) outcome \<times> 's"

named_theorems run_simps \<open>inversion of successful runs\<close>
named_theorems triple_rules \<open>triples for the combinators\<close>
named_theorems frame_rules \<open>parts of the state that an operation never writes\<close>

definition returnM :: "'a \<Rightarrow> ('s, 'e, 'a) operation" where
  "returnM x = (\<lambda>s. (Ok x, s))"

definition failM :: "'e \<Rightarrow> ('s, 'e, 'a) operation" where
  "failM e = (\<lambda>s. (Err e, s))"

definition panicM :: "string \<Rightarrow> ('s, 'e, 'a) operation" where
  "panicM msg = (\<lambda>s. (Panic msg, s))"

definition liftM :: "('e, 'a) outcome \<Rightarrow> ('s, 'e, 'a) operation" where
  "liftM r = (\<lambda>s. (r, s))"

definition getM :: "('s \<Rightarrow> 'a) \<Rightarrow> ('s, 'e, 'a) operation" where
  "getM f = (\<lambda>s. (Ok (f s), s))"

definition modifyM :: "('s \<Rightarrow> 's) \<Rightarrow> ('s, 'e, unit) operation" where
  "modifyM f = (\<lambda>s. (Ok (), f s))"

definition tryM ::
  "('s, 'e, 'a) operation \<Rightarrow> ('a \<Rightarrow> ('s, 'e, 'b) operation) \<Rightarrow> ('s, 'e, 'b) operation" where
  "tryM m f = (\<lambda>s. case m s of
       (Ok x, s') \<Rightarrow> f x s'
     | (Err e, s') \<Rightarrow> (Err e, s')
     | (Panic p, s') \<Rightarrow> (Panic p, s'))"

fun foldM :: "('acc \<Rightarrow> 'a \<Rightarrow> ('s, 'e, 'acc) operation) \<Rightarrow> 'acc \<Rightarrow> 'a list \<Rightarrow> ('s, 'e, 'acc) operation"
where
  "foldM f acc [] = returnM acc"
| "foldM f acc (x # xs) = tryM (f acc x) (\<lambda>acc'. foldM f acc' xs)"

definition forM :: "'a list \<Rightarrow> ('a \<Rightarrow> ('s, 'e, unit) operation) \<Rightarrow> ('s, 'e, unit) operation" where
  "forM xs body = foldM (\<lambda>_ x. body x) () xs"

text \<open>\<open>Result::ok\<close> on the result of a call.\<close>

definition okM :: "('s, 'e, 'a) operation \<Rightarrow> ('s, 'e, 'a option) operation" where
  "okM m = (\<lambda>s. case m s of
       (Ok x, s') \<Rightarrow> (Ok (Some x), s')
     | (Err e, s') \<Rightarrow> (Ok None, s')
     | (Panic p, s') \<Rightarrow> (Panic p, s'))"

text \<open>\<open>map_err\<close> of Rust's \<open>Result\<close>, and the reading of an error-or-value sum as a result.\<close>

definition of_sum :: "('x \<Rightarrow> 'e) \<Rightarrow> 'x + 'a \<Rightarrow> ('e, 'a) outcome" where
  "of_sum f r = (case r of Inl x \<Rightarrow> Err (f x) | Inr a \<Rightarrow> Ok a)"

definition map_err :: "('e \<Rightarrow> 'f) \<Rightarrow> ('e, 'a) outcome \<Rightarrow> ('f, 'a) outcome" where
  "map_err f r = (case r of Ok a \<Rightarrow> Ok a | Err e \<Rightarrow> Err (f e) | Panic p \<Rightarrow> Panic p)"

text \<open>\<open>Option::ok_or\<close>.\<close>

definition ok_or :: "'e \<Rightarrow> 'a option \<Rightarrow> ('e, 'a) outcome" where
  "ok_or e x = (case x of None \<Rightarrow> Err e | Some a \<Rightarrow> Ok a)"

subsection \<open>Running the combinators\<close>

lemma returnM_run [simp]: "returnM x s = (Ok x, s)"
  by (simp add: returnM_def)

lemma failM_run [simp]: "failM e s = (Err e, s)"
  by (simp add: failM_def)

lemma panicM_run [simp]: "panicM p s = (Panic p, s)"
  by (simp add: panicM_def)

lemma liftM_run [simp]: "liftM r s = (r, s)"
  by (simp add: liftM_def)

lemma getM_run [simp]: "getM f s = (Ok (f s), s)"
  by (simp add: getM_def)

lemma modifyM_run [simp]: "modifyM f s = (Ok (), f s)"
  by (simp add: modifyM_def)

lemma tryM_run:
  "m s = (Ok x, s') \<Longrightarrow> tryM m f s = f x s'"
  "m s = (Err e, s') \<Longrightarrow> tryM m f s = (Err e, s')"
  "m s = (Panic p, s') \<Longrightarrow> tryM m f s = (Panic p, s')"
  by (simp_all add: tryM_def)

lemma tryM_basic [simp]:
  "tryM (returnM x) f = f x"
  "tryM (failM e) f = failM e"
  "tryM (panicM p) f = panicM p"
  by (simp_all add: tryM_def returnM_def failM_def panicM_def)

lemma tryM_getM [simp]: "tryM (getM g) f s = f (g s) s"
  by (simp add: tryM_def)

lemma tryM_modifyM [simp]: "tryM (modifyM g) f s = f () (g s)"
  by (simp add: tryM_def)

lemma tryM_liftM [simp]:
  "tryM (liftM (Ok x)) f s = f x s"
  "tryM (liftM (Err e)) f s = (Err e, s)"
  "tryM (liftM (Panic p)) f s = (Panic p, s)"
  by (simp_all add: tryM_def)

lemma tryM_assoc: "tryM (tryM m f) g = tryM m (\<lambda>x. tryM (f x) g)"
  by (auto simp: tryM_def fun_eq_iff split: prod.splits outcome.splits)

lemma of_sum_simps [simp]:
  "of_sum f (Inl x) = Err (f x)"
  "of_sum f (Inr a) = Ok a"
  by (simp_all add: of_sum_def)

lemma map_err_simps [simp]:
  "map_err f (Ok a) = Ok a"
  "map_err f (Err e) = Err (f e)"
  "map_err f (Panic p) = Panic p"
  by (simp_all add: map_err_def)

lemma ok_or_simps [simp]:
  "ok_or e None = Err e"
  "ok_or e (Some a) = Ok a"
  by (simp_all add: ok_or_def)

lemma of_sum_Ok [run_simps]: "of_sum f r = Ok a \<longleftrightarrow> r = Inr a"
  by (cases r) auto

lemma map_err_Ok [run_simps]: "map_err f r = Ok a \<longleftrightarrow> r = Ok a"
  by (cases r) auto

lemma ok_or_Ok [run_simps]: "ok_or e x = Ok a \<longleftrightarrow> x = Some a"
  by (cases x) auto

lemma forM_simps [simp]:
  "forM [] body = returnM ()"
  "forM (x # xs) body = tryM (body x) (\<lambda>_. forM xs body)"
  by (simp_all add: forM_def)

lemma foldM_append:
  "foldM f acc (xs @ ys) = tryM (foldM f acc xs) (\<lambda>acc'. foldM f acc' ys)"
  by (induction xs arbitrary: acc) (simp_all add: tryM_assoc)

subsection \<open>Inversion of successful runs\<close>

lemma tryM_Ok [run_simps]:
  "tryM m f s = (Ok y, s'') \<longleftrightarrow> (\<exists>x s'. m s = (Ok x, s') \<and> f x s' = (Ok y, s''))"
  by (auto simp: tryM_def split: prod.splits outcome.splits)

lemma liftM_Ok [run_simps]: "liftM r s = (Ok y, s') \<longleftrightarrow> r = Ok y \<and> s' = s"
  by auto

lemma tryM_OkE:
  assumes "tryM m f s = (Ok y, s'')"
  obtains x s' where "m s = (Ok x, s')" and "f x s' = (Ok y, s'')"
  using assms by (auto simp: run_simps)

subsection \<open>Triples for successful runs\<close>

text \<open>
  \<open>triple P m Q\<close>: from a state in \<open>P\<close>, if \<open>m\<close> returns \<open>Ok x\<close> and leaves \<open>s'\<close>, then \<open>Q x s'\<close>.
\<close>

definition triple :: "('s \<Rightarrow> bool) \<Rightarrow> ('s, 'e, 'a) operation \<Rightarrow> ('a \<Rightarrow> 's \<Rightarrow> bool) \<Rightarrow> bool" where
  "triple P m Q \<longleftrightarrow> (\<forall>s x s'. P s \<longrightarrow> m s = (Ok x, s') \<longrightarrow> Q x s')"

abbreviation keeps :: "('s \<Rightarrow> bool) \<Rightarrow> ('s, 'e, 'a) operation \<Rightarrow> bool" where
  "keeps P m \<equiv> triple P m (\<lambda>_. P)"

lemma tripleI: "(\<And>s x s'. P s \<Longrightarrow> m s = (Ok x, s') \<Longrightarrow> Q x s') \<Longrightarrow> triple P m Q"
  by (auto simp: triple_def)

lemma tripleD: "triple P m Q \<Longrightarrow> P s \<Longrightarrow> m s = (Ok x, s') \<Longrightarrow> Q x s'"
  by (auto simp: triple_def)

lemma triple_weaken:
  "triple P m Q \<Longrightarrow> (\<And>s. P' s \<Longrightarrow> P s) \<Longrightarrow> (\<And>x s. Q x s \<Longrightarrow> Q' x s) \<Longrightarrow> triple P' m Q'"
  unfolding triple_def by blast

lemma triple_tryM:
  "triple P m R \<Longrightarrow> (\<And>x. triple (R x) (f x) Q) \<Longrightarrow> triple P (tryM m f) Q"
  by (fastforce simp: triple_def run_simps)

lemma keeps_tryM [triple_rules]:
  "keeps P m \<Longrightarrow> (\<And>x. keeps P (f x)) \<Longrightarrow> keeps P (tryM m f)"
  by (rule triple_tryM)

lemma keeps_basic [triple_rules]:
  "keeps P (returnM x)" "keeps P (failM e)" "keeps P (panicM p)" "keeps P (liftM r)"
  "keeps P (getM g)"
  by (auto simp: triple_def)

lemma triple_foldM:
  assumes step: "\<And>acc x. x \<in> set xs \<Longrightarrow> triple (I acc) (f acc x) I"
  shows "triple (I acc) (foldM f acc xs) I"
  using step
proof (induction xs arbitrary: acc)
  case Nil
  show ?case by (auto simp: triple_def)
next
  case (Cons x xs)
  have "triple (I acc) (f acc x) I" by (rule Cons.prems) simp
  moreover have "triple (I acc') (foldM f acc' xs) I" for acc'
    by (rule Cons.IH) (rule Cons.prems, simp)
  ultimately show ?case by (auto intro: triple_tryM)
qed

lemma keeps_foldM [triple_rules]:
  "(\<And>acc x. x \<in> set xs \<Longrightarrow> keeps P (f acc x)) \<Longrightarrow> keeps P (foldM f acc xs)"
  by (rule triple_foldM [where I = "\<lambda>_. P"])

lemma keeps_forM [triple_rules]:
  "(\<And>x. x \<in> set xs \<Longrightarrow> keeps P (body x)) \<Longrightarrow> keeps P (forM xs body)"
  by (simp add: forM_def keeps_foldM)

subsection \<open>Frames: what an operation leaves alone whatever it returns\<close>

definition unchanged :: "('s \<Rightarrow> 'x) \<Rightarrow> ('s, 'e, 'a) operation \<Rightarrow> bool" where
  "unchanged g m \<longleftrightarrow> (\<forall>s. g (snd (m s)) = g s)"

lemma unchangedD: "unchanged g m \<Longrightarrow> m s = (r, s') \<Longrightarrow> g s' = g s"
  by (metis snd_conv unchanged_def)

lemma unchanged_tryM [frame_rules]:
  "unchanged g m \<Longrightarrow> (\<And>x. unchanged g (f x)) \<Longrightarrow> unchanged g (tryM m f)"
  unfolding unchanged_def tryM_def
  by (auto split: prod.splits outcome.splits) (metis snd_conv)+

lemma unchanged_basic [frame_rules]:
  "unchanged g (returnM x)" "unchanged g (failM e)" "unchanged g (panicM p)"
  "unchanged g (liftM r)" "unchanged g (getM h)"
  by (auto simp: unchanged_def)

lemma unchanged_modifyM [frame_rules]: "(\<And>s. g (h s) = g s) \<Longrightarrow> unchanged g (modifyM h)"
  by (auto simp: unchanged_def)

lemma unchanged_foldM [frame_rules]:
  "(\<And>acc x. unchanged g (f acc x)) \<Longrightarrow> unchanged g (foldM f acc xs)"
  by (induction xs arbitrary: acc) (auto intro: frame_rules)

lemma unchanged_forM [frame_rules]: "(\<And>x. unchanged g (body x)) \<Longrightarrow> unchanged g (forM xs body)"
  by (simp add: forM_def frame_rules)

lemma unchanged_case_option [frame_rules]:
  "(x = None \<Longrightarrow> unchanged g m) \<Longrightarrow> (\<And>a. x = Some a \<Longrightarrow> unchanged g (f a)) \<Longrightarrow>
    unchanged g (case x of None \<Rightarrow> m | Some a \<Rightarrow> f a)"
  by (cases x) auto

lemma unchanged_if [frame_rules]:
  "(b \<Longrightarrow> unchanged g m) \<Longrightarrow> (\<not> b \<Longrightarrow> unchanged g m') \<Longrightarrow> unchanged g (if b then m else m')"
  by auto

lemma unchanged_case_prod [frame_rules]:
  "(\<And>a b. x = (a, b) \<Longrightarrow> unchanged g (f a b)) \<Longrightarrow> unchanged g (case x of (a, b) \<Rightarrow> f a b)"
  by (cases x) auto

lemma unchanged_case_list [frame_rules]:
  "(x = [] \<Longrightarrow> unchanged g m) \<Longrightarrow> (\<And>a as. x = a # as \<Longrightarrow> unchanged g (f a as)) \<Longrightarrow>
    unchanged g (case x of [] \<Rightarrow> m | a # as \<Rightarrow> f a as)"
  by (cases x) auto

lemma unchanged_okM [frame_rules]: "unchanged g m \<Longrightarrow> unchanged g (okM m)"
  by (auto simp: unchanged_def okM_def split: prod.splits outcome.splits) (metis snd_conv)+

lemma unchanged_same: "(\<And>s. snd (m s) = s) \<Longrightarrow> unchanged g m"
  by (simp add: unchanged_def)

lemma unchanged_state: "unchanged (\<lambda>s. s) m \<Longrightarrow> m s = (r, s') \<Longrightarrow> s' = s"
  by (rule unchangedD)

lemma unchanged_pair: "unchanged g m \<Longrightarrow> unchanged h m \<Longrightarrow> unchanged (\<lambda>s. (g s, h s)) m"
  by (simp add: unchanged_def)

subsection \<open>State properties kept whatever the operation returns\<close>

definition preserves :: "('s \<Rightarrow> bool) \<Rightarrow> ('s, 'e, 'a) operation \<Rightarrow> bool" where
  "preserves P m \<longleftrightarrow> (\<forall>s. P s \<longrightarrow> P (snd (m s)))"

named_theorems preserve_rules \<open>preservation by the combinators and the operations\<close>

lemma preservesI: "(\<And>s r s'. P s \<Longrightarrow> m s = (r, s') \<Longrightarrow> P s') \<Longrightarrow> preserves P m"
  unfolding preserves_def by (metis prod.collapse)

lemma preservesD: "preserves P m \<Longrightarrow> P s \<Longrightarrow> m s = (r, s') \<Longrightarrow> P s'"
  by (metis preserves_def snd_conv)

lemma preserves_bind:
  assumes "preserves P m" and "\<And>s x s'. P s \<Longrightarrow> m s = (Ok x, s') \<Longrightarrow> P s' \<Longrightarrow> P (snd (f x s'))"
  shows "preserves P (tryM m f)"
  unfolding preserves_def
proof (intro allI impI)
  fix s assume P: "P s"
  obtain r s' where m: "m s = (r, s')" by force
  from preservesD [OF assms(1) P m] assms(2) [OF P] m show "P (snd (tryM m f s))"
    by (cases r) (simp_all add: tryM_def)
qed

lemma preserves_tryM [preserve_rules]:
  "preserves P m \<Longrightarrow> (\<And>x. preserves P (f x)) \<Longrightarrow> preserves P (tryM m f)"
  by (rule preserves_bind) (auto simp: preserves_def)

lemma preserves_basic [preserve_rules]:
  "preserves P (returnM x)" "preserves P (failM e)" "preserves P (panicM p)"
  "preserves P (liftM r)" "preserves P (getM h)"
  by (auto simp: preserves_def)

lemma preserves_modifyM: "(\<And>s. P s \<Longrightarrow> P (f s)) \<Longrightarrow> preserves P (modifyM f)"
  by (auto simp: preserves_def)

lemma preserves_foldM [preserve_rules]:
  "(\<And>acc x. x \<in> set xs \<Longrightarrow> preserves P (f acc x)) \<Longrightarrow> preserves P (foldM f acc xs)"
  by (induction xs arbitrary: acc) (auto intro: preserve_rules)

lemma preserves_forM [preserve_rules]:
  "(\<And>x. x \<in> set xs \<Longrightarrow> preserves P (body x)) \<Longrightarrow> preserves P (forM xs body)"
  by (simp add: forM_def preserve_rules)

lemma preserves_case_option [preserve_rules]:
  "(x = None \<Longrightarrow> preserves P m) \<Longrightarrow> (\<And>a. x = Some a \<Longrightarrow> preserves P (f a)) \<Longrightarrow>
    preserves P (case x of None \<Rightarrow> m | Some a \<Rightarrow> f a)"
  by (cases x) auto

lemma preserves_if [preserve_rules]:
  "(b \<Longrightarrow> preserves P m) \<Longrightarrow> (\<not> b \<Longrightarrow> preserves P m') \<Longrightarrow> preserves P (if b then m else m')"
  by auto

lemma preserves_case_prod [preserve_rules]:
  "(\<And>a b. x = (a, b) \<Longrightarrow> preserves P (f a b)) \<Longrightarrow> preserves P (case x of (a, b) \<Rightarrow> f a b)"
  by (cases x) auto

lemma preserves_okM [preserve_rules]: "preserves P m \<Longrightarrow> preserves P (okM m)"
  by (auto simp: preserves_def okM_def split: prod.splits outcome.splits)

lemma preserves_unchanged: "unchanged (\<lambda>s. s) m \<Longrightarrow> preserves P m"
  by (auto simp: preserves_def unchanged_def)

subsection \<open>Runs that keep a property and yield a result\<close>

text \<open>
  \<open>yields P m Q\<close>: from a state in \<open>P\<close> the run of \<open>m\<close> ends in \<open>P\<close>, whatever it returns, and a result
  it returns with \<open>Ok\<close> is in \<open>Q\<close>.
\<close>

definition yields :: "('s \<Rightarrow> bool) \<Rightarrow> ('s, 'e, 'a) operation \<Rightarrow> ('a \<Rightarrow> bool) \<Rightarrow> bool" where
  "yields P m Q \<longleftrightarrow> (\<forall>s r s'. P s \<longrightarrow> m s = (r, s') \<longrightarrow> P s' \<and> (\<forall>x. r = Ok x \<longrightarrow> Q x))"

named_theorems yield_rules \<open>rules for runs that keep a property and yield a result\<close>

lemma yieldsI:
  "(\<And>s r s'. P s \<Longrightarrow> m s = (r, s') \<Longrightarrow> P s' \<and> (\<forall>x. r = Ok x \<longrightarrow> Q x)) \<Longrightarrow> yields P m Q"
  by (auto simp: yields_def)

lemma yieldsD: "yields P m Q \<Longrightarrow> P s \<Longrightarrow> m s = (r, s') \<Longrightarrow> P s'"
  by (auto simp: yields_def)

lemma yields_OkD: "yields P m Q \<Longrightarrow> P s \<Longrightarrow> m s = (Ok x, s') \<Longrightarrow> P s' \<and> Q x"
  by (auto simp: yields_def)

lemma yields_weaken: "yields P m Q \<Longrightarrow> (\<And>x. Q x \<Longrightarrow> Q' x) \<Longrightarrow> yields P m Q'"
  by (auto simp: yields_def)

lemma yields_preserves: "yields P m Q \<Longrightarrow> preserves P m"
  by (auto simp: yields_def intro: preservesI)

lemma preserves_yields: "preserves P m \<Longrightarrow> yields P m (\<lambda>_. True)"
  by (auto simp: yields_def dest: preservesD)

lemma yields_bind:
  "yields P m R \<Longrightarrow> (\<And>x. R x \<Longrightarrow> yields P (f x) Q) \<Longrightarrow> yields P (tryM m f) Q"
  unfolding yields_def
proof (intro allI impI)
  fix s r s'
  assume m: "\<forall>s r s'. P s \<longrightarrow> m s = (r, s') \<longrightarrow> P s' \<and> (\<forall>x. r = Ok x \<longrightarrow> R x)"
    and f: "\<And>x. R x \<Longrightarrow> \<forall>s r s'. P s \<longrightarrow> f x s = (r, s') \<longrightarrow> P s' \<and> (\<forall>x. r = Ok x \<longrightarrow> Q x)"
    and s: "P s" and run: "tryM m f s = (r, s')"
  obtain r1 s1 where m1: "m s = (r1, s1)" by force
  with m s have s1: "P s1" and r1: "\<And>x. r1 = Ok x \<Longrightarrow> R x" by blast+
  show "P s' \<and> (\<forall>x. r = Ok x \<longrightarrow> Q x)"
  proof (cases r1)
    case (Ok x)
    with run m1 have "f x s1 = (r, s')" by (simp add: tryM_def)
    with f [OF r1 [OF Ok]] s1 show ?thesis by blast
  qed (use run m1 s1 in \<open>auto simp: tryM_def\<close>)
qed

lemma yields_basic:
  "Q x \<Longrightarrow> yields P (returnM x) Q"
  "yields P (failM e) Q"
  "yields P (panicM p) Q"
  "(\<And>x. r = Ok x \<Longrightarrow> Q x) \<Longrightarrow> yields P (liftM r) Q"
  "(\<And>s. P s \<Longrightarrow> Q (g s)) \<Longrightarrow> yields P (getM g) Q"
  "(\<And>s. P s \<Longrightarrow> P (h s)) \<Longrightarrow> Q' () \<Longrightarrow> yields P (modifyM h) Q'"
  by (auto simp: yields_def)

lemma yields_option:
  "(x = None \<Longrightarrow> yields P m Q) \<Longrightarrow> (\<And>a. x = Some a \<Longrightarrow> yields P (f a) Q) \<Longrightarrow>
    yields P (case x of None \<Rightarrow> m | Some a \<Rightarrow> f a) Q"
  by (cases x) auto

lemma yields_if:
  "(b \<Longrightarrow> yields P m Q) \<Longrightarrow> (\<not> b \<Longrightarrow> yields P m' Q) \<Longrightarrow> yields P (if b then m else m') Q"
  by auto

lemma yields_foldM:
  assumes "\<And>ys x zs acc. xs = ys @ x # zs \<Longrightarrow> I ys acc \<Longrightarrow> yields P (f acc x) (I (ys @ [x]))"
    and "I [] acc"
  shows "yields P (foldM f acc xs) (I xs)"
proof -
  have "yields P (foldM f acc zs) (I xs)" if "xs = ys @ zs" "I ys acc" for ys zs acc
    using that
  proof (induction zs arbitrary: ys acc)
    case Nil
    then have "yields P (returnM acc) (I xs)" by (intro yields_basic(1)) simp
    then show ?case by (simp only: foldM.simps)
  next
    case (Cons z zs)
    show ?case
      using assms(1) [OF Cons.prems] Cons.IH [of "ys @ [z]"] Cons.prems(1)
      by (auto intro: yields_bind)
  qed
  from this [of "[]" xs acc] assms(2) show ?thesis by simp
qed

lemma yields_okM: "yields P m Q \<Longrightarrow> yields P (okM m) (\<lambda>r. case r of None \<Rightarrow> True | Some x \<Rightarrow> Q x)"
  unfolding yields_def okM_def
  by (clarsimp split: prod.splits outcome.splits option.splits)

section \<open>Ranges of heights\<close>

definition range_incl :: "u64 \<Rightarrow> u64 \<Rightarrow> u64 list" where
  "range_incl a b = map of_nat [unat a ..< Suc (unat b)]"

definition range_excl :: "u64 \<Rightarrow> u64 \<Rightarrow> u64 list" where
  "range_excl a b = map of_nat [unat a ..< unat b]"

lemma unat_bound: "unat (w :: 'a::len word) < 2 ^ LENGTH('a)"
  by (rule unsigned_less)

lemma unat_of_nat_below: "n \<le> unat (b :: u64) \<Longrightarrow> unat (of_nat n :: u64) = n"
proof -
  assume "n \<le> unat b"
  also have "unat b < 2 ^ LENGTH(64)" by (rule unsigned_less)
  finally show ?thesis by (simp add: unat_of_nat take_bit_eq_mod)
qed

lemma in_word_image:
  "(x :: u64) \<in> of_nat ` {unat a..<Suc (unat b)} \<longleftrightarrow> a \<le> x \<and> x \<le> b"
proof
  assume "x \<in> of_nat ` {unat a..<Suc (unat b)}"
  then obtain n where "x = of_nat n" "unat a \<le> n" "n \<le> unat b" by auto
  then show "a \<le> x \<and> x \<le> b" by (simp add: word_le_nat_alt unat_of_nat_below)
next
  assume "a \<le> x \<and> x \<le> b"
  then have "unat x \<in> {unat a..<Suc (unat b)}" by (simp add: word_le_nat_alt)
  moreover have "x = of_nat (unat x)" by simp
  ultimately show "x \<in> of_nat ` {unat a..<Suc (unat b)}" by blast
qed

lemma set_range_incl [simp]: "set (range_incl a b) = {a..b}"
proof -
  have "set (range_incl a b) = of_nat ` {unat a..<Suc (unat b)}"
    by (simp add: range_incl_def del: upt_Suc)
  then show ?thesis by (simp only: set_eq_iff in_word_image atLeastAtMost_iff) simp
qed

lemma set_range_excl [simp]: "set (range_excl a b) = {a..<b}"
proof -
  have "x \<in> set (range_excl a b) \<longleftrightarrow> a \<le> x \<and> x < b" for x
  proof
    assume "x \<in> set (range_excl a b)"
    then obtain n where n: "x = of_nat n" "unat a \<le> n" "n < unat b"
      by (auto simp: range_excl_def)
    then have "unat x = n" using unat_of_nat_below [of n b] by simp
    with n show "a \<le> x \<and> x < b" by (simp add: word_le_nat_alt word_less_nat_alt)
  next
    assume "a \<le> x \<and> x < b"
    then have "unat x \<in> {unat a..<unat b}" by (simp add: word_le_nat_alt word_less_nat_alt)
    moreover have "x = of_nat (unat x)" by simp
    ultimately have "x \<in> of_nat ` {unat a..<unat b}" by blast
    then show "x \<in> set (range_excl a b)" by (simp add: range_excl_def)
  qed
  then show ?thesis by (simp only: set_eq_iff atLeastLessThan_iff) simp
qed

lemma sorted_range_incl: "sorted (range_incl a b)" "distinct (range_incl a b)"
proof -
  have inj: "inj_on (of_nat :: nat \<Rightarrow> u64) {unat a..<Suc (unat b)}"
    by (rule inj_onI) (metis atLeastLessThan_iff less_Suc_eq_le unat_of_nat_below)
  show "distinct (range_incl a b)"
    unfolding range_incl_def by (simp add: distinct_map inj del: upt_Suc)
  show "sorted (range_incl a b)"
    unfolding range_incl_def sorted_map
    by (rule sorted_wrt_mono_rel [OF _ sorted_upt])
       (auto simp: word_le_nat_alt unat_of_nat_below [of _ b] simp del: upt_Suc)
qed

end
