(* ===== verification/Errors.thy ===== *)
theory Errors
  imports Prelude
begin

text \<open>
  The error surface of the crate (\<open>src/error.rs\<close>): the enum \<open>BlockStoreError\<close> with its thirteen
  variants, the stable message constants, the \<open>Display\<close> texts and the two explicit conversions.
  An error of RocksDB, bincode, zstd or the file system is carried as its display string.
\<close>

datatype BlockStoreError =
    RocksDb string
  | Serialization string
  | Compression string
  | BlockNotFound bytes32
  | CheckpointNotFound u64
  | BlockNotInStore bytes32
  | RollbackBelowMin (rb_target: u64) (rb_min: u64)
  | RollbackAboveTip (ra_target: u64) (ra_tip: u64)
  | NoTip
  | SchemaMismatch (sm_expected: u32) (sm_found: u32)
  | NotInitialized
  | EmptyReorgChain
  | PipelineClosed

type_synonym 'a result = "(BlockStoreError, 'a) outcome"

definition ERR_OPEN_READONLY_PATH_MISSING_PREFIX :: string where
  "ERR_OPEN_READONLY_PATH_MISSING_PREFIX = ''open_readonly: database path does not exist: ''"

definition ERR_INIT_GENESIS_READ_ONLY :: string where
  "ERR_INIT_GENESIS_READ_ONLY = ''init_genesis: block store is read-only''"

definition ERR_MUTATION_READ_ONLY :: string where
  "ERR_MUTATION_READ_ONLY = ''mutating API invoked on read-only block store''"

definition ERR_INIT_GENESIS_ALREADY_INITIALIZED :: string where
  "ERR_INIT_GENESIS_ALREADY_INITIALIZED = ''init_genesis: block store already initialized''"

definition ERR_UPDATE_STATUS_RECORD_NOT_CACHED_PREFIX :: string where
  "ERR_UPDATE_STATUS_RECORD_NOT_CACHED_PREFIX = ''update_status: no BlockRecord cached for block hash ''"

definition ERR_ASYNC_JOIN_PREFIX :: string where
  "ERR_ASYNC_JOIN_PREFIX = ''async blocking task join failed: ''"

text \<open>Decimal rendering of an unsigned integer, as \<open>format!\<close> writes it.\<close>

fun dec_digits :: "nat \<Rightarrow> string" where
  "dec_digits n =
     (if n < 10 then [char_of (48 + n)] else dec_digits (n div 10) @ [char_of (48 + n mod 10)])"

declare dec_digits.simps [simp del]

definition show_word :: "'a::len word \<Rightarrow> string" where
  "show_word w = dec_digits (unat w)"

text \<open>
  \<open>Display\<close> of an error. \<open>disp\<close> is \<open>Display\<close> of \<open>Bytes32\<close>, which belongs to \<open>chia_protocol\<close>.
\<close>

fun error_display :: "(bytes32 \<Rightarrow> string) \<Rightarrow> BlockStoreError \<Rightarrow> string" where
  "error_display disp (RocksDb m) = ''rocksdb error: '' @ m"
| "error_display disp (Serialization m) = ''serialization error: '' @ m"
| "error_display disp (Compression m) = ''compression error: '' @ m"
| "error_display disp (BlockNotFound h) = ''block not found: '' @ disp h"
| "error_display disp (CheckpointNotFound e) = ''checkpoint not found for epoch '' @ show_word e"
| "error_display disp (BlockNotInStore h) = ''block not in store: '' @ disp h"
| "error_display disp (RollbackBelowMin t m) =
     ''rollback target '' @ show_word t @ '' is below minimum retained height '' @ show_word m"
| "error_display disp (RollbackAboveTip t m) =
     ''rollback target '' @ show_word t @ '' is above current tip '' @ show_word m"
| "error_display disp NoTip = ''no chain tip set''"
| "error_display disp (SchemaMismatch x f) =
     ''schema mismatch: expected '' @ show_word x @ '', found '' @ show_word f"
| "error_display disp NotInitialized = ''store not initialized''"
| "error_display disp EmptyReorgChain =
     ''empty reorg chain: new_chain_hashes must not be empty''"
| "error_display disp PipelineClosed = ''write pipeline closed''"

text \<open>\<open>BlockStoreError::compression_from_io\<close> and \<open>From<bincode::Error>\<close>.\<close>

definition compression_from_io :: "string \<Rightarrow> BlockStoreError" where
  "compression_from_io err = Compression err"

definition from_bincode_error :: "string \<Rightarrow> BlockStoreError" where
  "from_bincode_error err = Serialization err"

end
