(* ===== verification/Encoding.thy ===== *)
theory Encoding
  imports Errors
begin

text \<open>
  Byte encodings: \<open>to_be_bytes\<close> and \<open>to_le_bytes\<close> of the standard library, the octets of
  \<open>Bytes32\<close>, the column-family and metadata names of \<open>src/constants.rs\<close> and the key helpers of
  \<open>src/encoding.rs\<close>. The lemmas are the round trips in both directions, the fixed widths and
  the order-preservation that range scans rest on.
\<close>

section \<open>Fixed-width integers as octets\<close>

fun le_octets :: "nat \<Rightarrow> nat \<Rightarrow> bytes" where
  "le_octets 0 v = []"
| "le_octets (Suc n) v = of_nat v # le_octets n (v div 256)"

fun le_value :: "bytes \<Rightarrow> nat" where
  "le_value [] = 0"
| "le_value (b # bs) = unat b + 256 * le_value bs"

definition to_le_bytes :: "u64 \<Rightarrow> bytes" where
  "to_le_bytes w = le_octets 8 (unat w)"

definition from_le_bytes :: "bytes \<Rightarrow> u64" where
  "from_le_bytes bs = of_nat (le_value bs)"

definition to_be_bytes :: "u64 \<Rightarrow> bytes" where
  "to_be_bytes w = rev (le_octets 8 (unat w))"

definition from_be_bytes :: "bytes \<Rightarrow> u64" where
  "from_be_bytes bs = of_nat (le_value (rev bs))"

definition u32_to_le_bytes :: "u32 \<Rightarrow> bytes" where
  "u32_to_le_bytes w = le_octets 4 (unat w)"

definition u32_from_le_bytes :: "bytes \<Rightarrow> u32" where
  "u32_from_le_bytes bs = of_nat (le_value bs)"

text \<open>The 32 octets of a \<open>Bytes32\<close> (\<open>as_ref\<close>) and \<open>Bytes32::new\<close> of a 32-octet array.\<close>

definition bytes32_octets :: "bytes32 \<Rightarrow> bytes" where
  "bytes32_octets h = rev (le_octets 32 (unat h))"

definition bytes32_new :: "bytes \<Rightarrow> bytes32" where
  "bytes32_new bs = of_nat (le_value (rev bs))"

text \<open>The octets of an ASCII string (\<open>str::as_bytes\<close>).\<close>

definition as_bytes :: "string \<Rightarrow> bytes" where
  "as_bytes s = map of_char s"

subsection \<open>Round trips\<close>

lemma length_le_octets [simp]: "length (le_octets n v) = n"
  by (induction n arbitrary: v) auto

lemma le_value_octets: "le_value (le_octets n v) = v mod 256 ^ n"
proof (induction n arbitrary: v)
  case 0
  show ?case by simp
next
  case (Suc n)
  have "unat (of_nat v :: u8) = v mod 256" by (simp add: unat_of_nat take_bit_eq_mod)
  then show ?case using Suc by (simp add: mod_mult2_eq)
qed

lemma le_value_less: "le_value bs < 256 ^ length bs"
proof (induction bs)
  case Nil
  show ?case by simp
next
  case (Cons b bs)
  have "unat b < 256" using unat_bound [of b] by simp
  with Cons show ?case by simp
qed

lemma le_octets_value: "le_octets (length bs) (le_value bs) = bs"
proof (induction bs)
  case Nil
  show ?case by simp
next
  case (Cons b bs)
  have b: "unat b < 256" using unat_bound [of b] by simp
  have z: "(256 :: u8) = 0" by simp
  have "of_nat (unat b + 256 * le_value bs) = b" by (simp add: z del: word_of_nat_eq_0_iff)
  with b Cons show ?case by simp
qed

lemma word_octets:
  fixes w :: "'a::len word"
  assumes "8 * n = LENGTH('a)"
  shows "of_nat (le_value (le_octets n (unat w))) = w"
proof -
  have "(256::nat) ^ n = 2 ^ LENGTH('a)"
    by (simp flip: assms add: power_mult)
  then have "le_value (le_octets n (unat w)) = unat w"
    using unat_bound [of w] by (simp add: le_value_octets)
  then show ?thesis by simp
qed

lemma octets_word:
  assumes "8 * length bs = LENGTH('a::len)"
  shows "le_octets (length bs) (unat (of_nat (le_value bs) :: 'a word)) = bs"
proof -
  have "(256::nat) ^ length bs = 2 ^ LENGTH('a)"
    by (simp flip: assms add: power_mult)
  then have "unat (of_nat (le_value bs) :: 'a word) = le_value bs"
    using le_value_less [of bs] by (simp add: unat_of_nat take_bit_eq_mod)
  then show ?thesis by (simp add: le_octets_value)
qed

lemma from_le_to_le [simp]: "from_le_bytes (to_le_bytes w) = w"
  by (simp add: from_le_bytes_def to_le_bytes_def word_octets)

lemma from_be_to_be [simp]: "from_be_bytes (to_be_bytes w) = w"
  by (simp add: from_be_bytes_def to_be_bytes_def word_octets)

lemma to_be_from_be: "length bs = 8 \<Longrightarrow> to_be_bytes (from_be_bytes bs) = bs"
  using octets_word [of "rev bs", where 'a = 64] by (simp add: from_be_bytes_def to_be_bytes_def)

lemma to_le_from_le: "length bs = 8 \<Longrightarrow> to_le_bytes (from_le_bytes bs) = bs"
  using octets_word [of bs, where 'a = 64] by (simp add: from_le_bytes_def to_le_bytes_def)

lemma u32_from_to_le [simp]: "u32_from_le_bytes (u32_to_le_bytes w) = w"
  by (simp add: u32_from_le_bytes_def u32_to_le_bytes_def word_octets)

lemma bytes32_new_octets [simp]: "bytes32_new (bytes32_octets h) = h"
  by (simp add: bytes32_new_def bytes32_octets_def word_octets)

lemma bytes32_octets_new: "length bs = 32 \<Longrightarrow> bytes32_octets (bytes32_new bs) = bs"
  using octets_word [of "rev bs", where 'a = 256] by (simp add: bytes32_new_def bytes32_octets_def)

lemma octet_lengths [simp]:
  "length (to_le_bytes w) = 8" "length (to_be_bytes w) = 8"
  "length (bytes32_octets h) = 32" "length (u32_to_le_bytes v) = 4"
  by (simp_all add: to_le_bytes_def to_be_bytes_def bytes32_octets_def u32_to_le_bytes_def)

lemma bytes32_octets_inject [simp]: "bytes32_octets h = bytes32_octets h' \<longleftrightarrow> h = h'"
  by (metis bytes32_new_octets)

lemma to_be_bytes_inject [simp]: "to_be_bytes a = to_be_bytes b \<longleftrightarrow> a = b"
  by (metis from_be_to_be)

section \<open>Lexicographic order of octet strings\<close>

fun bytes_less :: "bytes \<Rightarrow> bytes \<Rightarrow> bool" where
  "bytes_less _ [] = False"
| "bytes_less [] (_ # _) = True"
| "bytes_less (a # as) (b # bs) = (a < b \<or> a = b \<and> bytes_less as bs)"

lemma bytes_less_irrefl [simp]: "\<not> bytes_less a a"
  by (induction a) auto

lemma bytes_less_trans: "bytes_less a b \<Longrightarrow> bytes_less b c \<Longrightarrow> bytes_less a c"
proof (induction a c arbitrary: b rule: bytes_less.induct)
  case (3 x xs z zs)
  then show ?case by (cases b) (auto intro: less_trans)
next
  case (2 x xs)
  then show ?case by (cases b) auto
next
  case (1 x)
  then show ?case by (cases b) auto
qed

lemma bytes_less_linear: "a \<noteq> b \<Longrightarrow> bytes_less a b \<or> bytes_less b a"
  by (induction a b rule: bytes_less.induct) (auto simp: neq_Nil_conv)

lemma bytes_less_append_same_length:
  "length a = length b \<Longrightarrow>
    bytes_less (a @ [x]) (b @ [y]) \<longleftrightarrow> bytes_less a b \<or> a = b \<and> x < y"
  by (induction a b rule: list_induct2) auto

lemma rev_le_octets_Suc:
  "rev (le_octets (Suc n) v) = rev (le_octets n (v div 256)) @ [of_nat v]"
  by simp

lemma split_less:
  fixes a b :: nat
  shows "a < b \<longleftrightarrow> a div 256 < b div 256 \<or> a div 256 = b div 256 \<and> a mod 256 < b mod 256"
proof -
  have digits: "256 * q + r < 256 * q' + r' \<longleftrightarrow> q < q' \<or> q = q' \<and> r < r'"
    if "r < 256" "r' < 256" for q q' r r' :: nat
    using that by linarith
  show ?thesis
    using digits [of "a mod 256" "b mod 256" "a div 256" "b div 256"] by simp
qed

lemma be_octets_mono:
  "a < 256 ^ n \<Longrightarrow> b < 256 ^ n \<Longrightarrow>
    bytes_less (rev (le_octets n a)) (rev (le_octets n b)) \<longleftrightarrow> a < b"
proof (induction n arbitrary: a b)
  case 0
  then show ?case by simp
next
  case (Suc n)
  have lt: "a div 256 < 256 ^ n" "b div 256 < 256 ^ n"
    using Suc.prems by (auto simp: less_mult_imp_div_less mult.commute)
  have low: "(of_nat a :: u8) < of_nat b \<longleftrightarrow> a mod 256 < b mod 256"
    by (simp add: word_less_nat_alt unat_of_nat take_bit_eq_mod)
  have eq: "le_octets n (a div 256) = le_octets n (b div 256) \<longleftrightarrow> a div 256 = b div 256"
    using lt by (metis le_value_octets mod_less)
  have "a < b \<longleftrightarrow> a div 256 < b div 256 \<or> a div 256 = b div 256 \<and> a mod 256 < b mod 256"
    by (rule split_less)
  then show ?case
    by (simp add: bytes_less_append_same_length Suc.IH [OF lt] low eq del: le_octets.simps
        add: rev_le_octets_Suc)
qed

section \<open>Names (constants.rs)\<close>

definition CF_BLOCKS :: string where "CF_BLOCKS = ''blocks''"
definition CF_HEADERS :: string where "CF_HEADERS = ''headers''"
definition CF_ATTESTED :: string where "CF_ATTESTED = ''attested''"
definition CF_CANONICAL :: string where "CF_CANONICAL = ''canonical''"
definition CF_CHECKPOINTS :: string where "CF_CHECKPOINTS = ''checkpoints''"
definition CF_METADATA :: string where "CF_METADATA = ''metadata''"

definition META_TIP :: string where "META_TIP = ''tip''"
definition META_GENESIS_HASH :: string where "META_GENESIS_HASH = ''genesis_hash''"
definition META_MIN_HEIGHT :: string where "META_MIN_HEIGHT = ''min_height''"
definition META_SCHEMA_VERSION :: string where "META_SCHEMA_VERSION = ''schema_version''"
definition META_ZSTD_DICT :: string where "META_ZSTD_DICT = ''zstd_dict''"

definition DICT_TRAINING_THRESHOLD :: u64 where "DICT_TRAINING_THRESHOLD = 1000"
definition DICT_TARGET_SIZE :: usize where "DICT_TARGET_SIZE = 100 * 1024"
definition SCHEMA_VERSION :: u64 where "SCHEMA_VERSION = 1"
definition DEFAULT_WRITE_BUFFER_SIZE :: usize where "DEFAULT_WRITE_BUFFER_SIZE = 67108864"
definition DEFAULT_BLOCK_CACHE_SIZE :: usize where "DEFAULT_BLOCK_CACHE_SIZE = 134217728"
definition DEFAULT_MAX_OPEN_FILES :: int where "DEFAULT_MAX_OPEN_FILES = 1000"
definition DEFAULT_BLOOM_BITS_PER_KEY :: int where "DEFAULT_BLOOM_BITS_PER_KEY = 10"
definition DEFAULT_BLOCK_CACHE_CAPACITY :: usize where "DEFAULT_BLOCK_CACHE_CAPACITY = 1000"
definition DEFAULT_HEADER_CACHE_CAPACITY :: usize where "DEFAULT_HEADER_CACHE_CAPACITY = 2000"
definition ZSTD_COMPRESSION_LEVEL :: int where "ZSTD_COMPRESSION_LEVEL = 3"
definition DEFAULT_MAX_DECOMPRESSED_BLOCK_BYTES :: usize where
  "DEFAULT_MAX_DECOMPRESSED_BLOCK_BYTES = 128 * 1024 * 1024"

definition ALL_COLUMN_FAMILIES :: "string list" where
  "ALL_COLUMN_FAMILIES =
     [CF_BLOCKS, CF_HEADERS, CF_ATTESTED, CF_CANONICAL, CF_CHECKPOINTS, CF_METADATA]"

lemmas cf_names =
  CF_BLOCKS_def CF_HEADERS_def CF_ATTESTED_def CF_CANONICAL_def CF_CHECKPOINTS_def CF_METADATA_def

lemma cf_distinct [simp]:
  "CF_BLOCKS \<noteq> CF_HEADERS" "CF_BLOCKS \<noteq> CF_ATTESTED" "CF_BLOCKS \<noteq> CF_CANONICAL"
  "CF_BLOCKS \<noteq> CF_CHECKPOINTS" "CF_BLOCKS \<noteq> CF_METADATA" "CF_HEADERS \<noteq> CF_ATTESTED"
  "CF_HEADERS \<noteq> CF_CANONICAL" "CF_HEADERS \<noteq> CF_CHECKPOINTS" "CF_HEADERS \<noteq> CF_METADATA"
  "CF_ATTESTED \<noteq> CF_CANONICAL" "CF_ATTESTED \<noteq> CF_CHECKPOINTS" "CF_ATTESTED \<noteq> CF_METADATA"
  "CF_CANONICAL \<noteq> CF_CHECKPOINTS" "CF_CANONICAL \<noteq> CF_METADATA" "CF_CHECKPOINTS \<noteq> CF_METADATA"
  by (simp_all add: cf_names)

lemmas cf_distinct_sym [simp] = cf_distinct [symmetric]

section \<open>Keys (encoding.rs)\<close>

definition hash_key :: "bytes32 \<Rightarrow> bytes" where
  "hash_key hash = bytes32_octets hash"

definition height_key :: "u64 \<Rightarrow> bytes" where
  "height_key height = to_be_bytes height"

definition decode_height_key :: "bytes \<Rightarrow> u64" where
  "decode_height_key key = from_be_bytes key"

definition epoch_key :: "u64 \<Rightarrow> bytes" where
  "epoch_key epoch = to_be_bytes epoch"

definition decode_epoch_key :: "bytes \<Rightarrow> u64" where
  "decode_epoch_key key = from_be_bytes key"

definition metadata_key :: "string \<Rightarrow> bytes" where
  "metadata_key name = as_bytes name"

lemma key_lengths [simp]:
  "length (hash_key h) = 32" "length (height_key n) = 8" "length (epoch_key e) = 8"
  by (simp_all add: hash_key_def height_key_def epoch_key_def)

lemma key_inject [simp]:
  "hash_key h = hash_key h' \<longleftrightarrow> h = h'"
  "height_key n = height_key n' \<longleftrightarrow> n = n'"
  "epoch_key e = epoch_key e' \<longleftrightarrow> e = e'"
  by (simp_all add: hash_key_def height_key_def epoch_key_def)

lemma decode_keys [simp]:
  "decode_height_key (height_key n) = n"
  "decode_epoch_key (epoch_key e) = e"
  "bytes32_new (hash_key h) = h"
  by (simp_all add: decode_height_key_def height_key_def decode_epoch_key_def epoch_key_def hash_key_def)

lemma keys_of_decode:
  "length k = 8 \<Longrightarrow> height_key (decode_height_key k) = k"
  "length k = 8 \<Longrightarrow> epoch_key (decode_epoch_key k) = k"
  "length k = 32 \<Longrightarrow> hash_key (bytes32_new k) = k"
  by (simp_all add: height_key_def decode_height_key_def epoch_key_def decode_epoch_key_def
      hash_key_def to_be_from_be bytes32_octets_new)

lemma to_be_bytes_mono: "bytes_less (to_be_bytes a) (to_be_bytes b) \<longleftrightarrow> a < b"
proof -
  have "unat x < 256 ^ 8" for x :: u64 using unat_bound [of x] by simp
  then show ?thesis by (simp only: to_be_bytes_def be_octets_mono word_less_nat_alt)
qed

lemma metadata_keys_distinct [simp]:
  "metadata_key META_TIP \<noteq> metadata_key META_GENESIS_HASH"
  "metadata_key META_TIP \<noteq> metadata_key META_MIN_HEIGHT"
  "metadata_key META_TIP \<noteq> metadata_key META_ZSTD_DICT"
  "metadata_key META_GENESIS_HASH \<noteq> metadata_key META_MIN_HEIGHT"
  "metadata_key META_GENESIS_HASH \<noteq> metadata_key META_ZSTD_DICT"
  "metadata_key META_MIN_HEIGHT \<noteq> metadata_key META_ZSTD_DICT"
  by (simp_all add: metadata_key_def as_bytes_def META_TIP_def META_GENESIS_HASH_def
      META_MIN_HEIGHT_def META_ZSTD_DICT_def)

lemmas metadata_keys_distinct_sym [simp] = metadata_keys_distinct [symmetric]

text \<open>
  The height keys are a faithful, order-preserving image of the heights. Decoding an encoded
  height gives it back, every 8-byte string is the key of the height it decodes to, and the
  bytewise order of two keys, which is the order RocksDB iterates in, is the numeric order of the
  heights over the whole 64-bit range.
\<close>

theorem height_key_faithful:
  "decode_height_key (height_key a) = a \<and> length (height_key a) = 8 \<and>
   (length k = 8 \<longrightarrow> height_key (decode_height_key k) = k) \<and>
   (bytes_less (height_key a) (height_key b) \<longleftrightarrow> a < b)"
  by (simp add: keys_of_decode) (simp add: height_key_def to_be_bytes_mono)

theorem height_key_faithful_witness:
  "length [0, 0, 0, 0, 0, 0, 1, (2::u8)] = 8 \<and>
   height_key (decode_height_key [0, 0, 0, 0, 0, 0, 1, 2]) = [0, 0, 0, 0, 0, 0, 1, 2] \<and>
   bytes_less (height_key 255) (height_key 256)"
  using height_key_faithful [of 255 "[0, 0, 0, 0, 0, 0, 1, 2]" 256] by simp

end
