(* ===== verification/Types.thy ===== *)
theory Types
  imports Encoding
begin

text \<open>
  The storage-facing data types (\<open>src/types/*.rs\<close>, \<open>src/config.rs\<close>, the manifest of
  \<open>src/snapshot.rs\<close>).

  The block types belong to the \<open>dig_block\<close> crate. The model keeps, as a record, the header
  fields this crate reads; the fields it never looks at travel as one opaque byte string, and
  the functions of \<open>dig_block\<close> on these types (hashes, \<open>height()\<close>, \<open>is_canonical\<close>) are
  parameters wherever they are used.
\<close>

section \<open>Types of dig-block that this crate reads\<close>

datatype BlockStatus = Pending | Validated | SoftFinalized | HardFinalized | Orphaned | Rejected

record L2BlockHeader =
  hd_height :: u64
  hd_epoch :: u64
  hd_parent_hash :: bytes32
  hd_timestamp :: u64
  hd_proposer_index :: u32
  hd_spend_bundle_count :: u32
  hd_total_cost :: u64
  hd_total_fees :: u64
  hd_additions_count :: u32
  hd_removals_count :: u32
  hd_l1_height :: u32
  hd_l1_hash :: bytes32
  hd_state_root :: bytes32
  hd_rest :: bytes

record L2Block =
  blk_header :: L2BlockHeader
  blk_rest :: bytes

text \<open>\<open>AttestedBlock\<close> of \<open>dig_block\<close>: the block and, unread, its attestation.\<close>

record AttestedBlock =
  ab_block :: L2Block
  ab_rest :: bytes

section \<open>BlockRecord\<close>

record BlockRecord =
  br_hash :: bytes32
  br_height :: u64
  br_epoch :: u64
  br_parent_hash :: bytes32
  in_canonical_chain :: bool
  br_status :: BlockStatus
  br_timestamp :: u64
  br_proposer_index :: u32
  br_spend_bundle_count :: u32
  br_total_cost :: u64
  br_total_fees :: u64
  br_additions_count :: u32
  br_removals_count :: u32
  br_block_size :: u64
  br_l1_height :: u32
  br_l1_hash :: bytes32
  br_state_root :: bytes32

text \<open>
  \<open>BlockRecord::from_header\<close>. \<open>hdr_hash\<close> is \<open>L2BlockHeader::hash\<close> and \<open>is_canon\<close> is
  \<open>BlockStatus::is_canonical\<close>, both of \<open>dig_block\<close>.
\<close>

definition from_header ::
  "(L2BlockHeader \<Rightarrow> bytes32) \<Rightarrow> (BlockStatus \<Rightarrow> bool) \<Rightarrow> L2BlockHeader \<Rightarrow> BlockStatus \<Rightarrow> BlockRecord"
where
  "from_header hdr_hash is_canon header status =
     \<lparr> br_hash = hdr_hash header,
       br_height = hd_height header,
       br_epoch = hd_epoch header,
       br_parent_hash = hd_parent_hash header,
       in_canonical_chain = is_canon status,
       br_status = status,
       br_timestamp = hd_timestamp header,
       br_proposer_index = hd_proposer_index header,
       br_spend_bundle_count = hd_spend_bundle_count header,
       br_total_cost = hd_total_cost header,
       br_total_fees = hd_total_fees header,
       br_additions_count = hd_additions_count header,
       br_removals_count = hd_removals_count header,
       br_block_size = 0,
       br_l1_height = hd_l1_height header,
       br_l1_hash = hd_l1_hash header,
       br_state_root = hd_state_root header \<rparr>"

lemma from_header_fields [simp]:
  "br_hash (from_header hh ic h st) = hh h"
  "br_height (from_header hh ic h st) = hd_height h"
  "br_parent_hash (from_header hh ic h st) = hd_parent_hash h"
  "in_canonical_chain (from_header hh ic h st) = ic st"
  "br_status (from_header hh ic h st) = st"
  by (simp_all add: from_header_def)

section \<open>ChainTip\<close>

record ChainTip =
  tip_hash :: bytes32
  tip_height :: u64

definition tip_to_bytes :: "ChainTip \<Rightarrow> bytes" where
  "tip_to_bytes t = bytes32_octets (tip_hash t) @ to_le_bytes (tip_height t)"

definition tip_from_bytes :: "bytes \<Rightarrow> ChainTip result" where
  "tip_from_bytes bytes =
     (if length bytes \<noteq> 40
      then Err (Serialization (''ChainTip requires 40 bytes, got '' @ dec_digits (length bytes)))
      else Ok \<lparr> tip_hash = bytes32_new (take 32 bytes),
                tip_height = from_le_bytes (drop 32 bytes) \<rparr>)"

lemma length_tip_to_bytes [simp]: "length (tip_to_bytes t) = 40"
  by (simp add: tip_to_bytes_def)

lemma tip_from_to [simp]: "tip_from_bytes (tip_to_bytes t) = Ok t"
  by (simp add: tip_from_bytes_def tip_to_bytes_def)

lemma tip_to_from: "tip_from_bytes bs = Ok t \<Longrightarrow> tip_to_bytes t = bs"
  by (auto simp: tip_from_bytes_def tip_to_bytes_def bytes32_octets_new to_le_from_le
      split: if_splits)

lemma tip_from_bytes_Err: "(\<exists>m. tip_from_bytes bs = Err (Serialization m)) \<longleftrightarrow> length bs \<noteq> 40"
  by (simp add: tip_from_bytes_def)

section \<open>Results and statistics\<close>

record ReorgResult =
  rr_reverted :: "bytes32 list"
  rr_applied :: "bytes32 list"
  rr_new_tip :: ChainTip

record StorageStats =
  st_block_count :: u64
  st_canonical_block_count :: u64
  st_header_count :: u64
  st_checkpoint_count :: u64
  st_attested_count :: u64
  st_tip_height :: "u64 option"
  st_min_height :: "u64 option"
  st_total_size_bytes :: u64

section \<open>StoredCheckpoint\<close>

text \<open>
  \<open>Checkpoint\<close> and \<open>SignerBitmap\<close> are types of \<open>dig_block\<close> and the signature and key are of
  \<open>chia_bls\<close>. Of these only \<open>checkpoint.epoch\<close> is read; the rest is opaque.
\<close>

record Checkpoint =
  ck_epoch :: u64
  ck_rest :: bytes

record StoredCheckpoint =
  sc_checkpoint :: Checkpoint
  sc_signer_bitmap :: bytes
  sc_aggregate_signature :: bytes
  sc_aggregate_pubkey :: bytes
  sc_score :: u64
  sc_submitter :: u32
  sc_l1_height :: "u32 option"
  sc_l1_coin_id :: "bytes32 option"
  sc_stored_at :: u64

section \<open>SnapshotManifest\<close>

record SnapshotManifest =
  sm_version :: u32
  sm_start_height :: u64
  sm_end_height :: u64
  sm_block_count :: u64
  sm_state_root :: bytes32
  sm_checksum :: bytes32

definition SNAPSHOT_VERSION :: u32 where "SNAPSHOT_VERSION = 1"

section \<open>BlockStoreConfig\<close>

record BlockStoreConfig =
  cfg_path :: string
  cfg_block_cache_capacity :: usize
  cfg_header_cache_capacity :: usize
  cfg_cache_shards :: usize
  cfg_warm_cache_on_open :: bool
  cfg_warm_cache_depth :: u64
  cfg_write_buffer_size :: usize
  cfg_block_cache_size :: usize
  cfg_max_open_files :: int
  cfg_enable_blob_db :: bool
  cfg_compress_blocks :: bool
  cfg_compression_level :: int
  cfg_use_compression_dict :: bool
  cfg_max_decompressed_block_bytes :: usize
  cfg_zstd_dictionary_override :: "bytes option"
  cfg_write_pipeline_batch_size :: usize
  cfg_write_pipeline_flush_ms :: u64
  cfg_write_pipeline_channel_capacity :: usize
  cfg_sync_writes :: bool
  cfg_readahead_size :: usize
  cfg_canonical_height_cache_capacity :: usize
  cfg_hash_to_height_cache_capacity :: usize
  cfg_enable_compaction_pruning :: bool
  cfg_min_retained_height :: "u64 option"

definition default_config :: BlockStoreConfig where
  "default_config =
     \<lparr> cfg_path = ''data/blockstore'',
       cfg_block_cache_capacity = DEFAULT_BLOCK_CACHE_CAPACITY,
       cfg_header_cache_capacity = DEFAULT_HEADER_CACHE_CAPACITY,
       cfg_cache_shards = 16,
       cfg_warm_cache_on_open = True,
       cfg_warm_cache_depth = 64,
       cfg_write_buffer_size = DEFAULT_WRITE_BUFFER_SIZE,
       cfg_block_cache_size = DEFAULT_BLOCK_CACHE_SIZE,
       cfg_max_open_files = DEFAULT_MAX_OPEN_FILES,
       cfg_enable_blob_db = True,
       cfg_compress_blocks = True,
       cfg_compression_level = ZSTD_COMPRESSION_LEVEL,
       cfg_use_compression_dict = True,
       cfg_max_decompressed_block_bytes = DEFAULT_MAX_DECOMPRESSED_BLOCK_BYTES,
       cfg_zstd_dictionary_override = None,
       cfg_write_pipeline_batch_size = 64,
       cfg_write_pipeline_flush_ms = 100,
       cfg_write_pipeline_channel_capacity = 256,
       cfg_sync_writes = False,
       cfg_readahead_size = 2097152,
       cfg_canonical_height_cache_capacity = 10000,
       cfg_hash_to_height_cache_capacity = 10000,
       cfg_enable_compaction_pruning = False,
       cfg_min_retained_height = None \<rparr>"

text \<open>
  The 40-byte tip record stored under \<open>META_TIP\<close>. Encoding then decoding gives the tip back,
  every byte string that decodes is the encoding of its result, and a byte string decodes exactly
  when it is 40 bytes long; any other length is reported as a serialization error.
\<close>

theorem chain_tip_roundtrip:
  "tip_from_bytes (tip_to_bytes t) = Ok t \<and>
   (tip_from_bytes bs = Ok t \<longleftrightarrow> bs = tip_to_bytes t) \<and>
   ((\<exists>m. tip_from_bytes bs = Err (Serialization m)) \<longleftrightarrow> length bs \<noteq> 40)"
  using tip_to_from [of bs t] tip_from_to [of t] tip_from_bytes_Err [of bs] by metis

end
