(* ===== verification/Ordered_Map.thy ===== *)
theory Ordered_Map
  imports Prelude
begin

text \<open>
  \<open>BTreeMap<u64, V>\<close> of the standard library, as the strictly sorted list of its entries: the
  operations the crate uses (\<open>insert\<close>, \<open>remove\<close>, \<open>get\<close>, \<open>len\<close>, the lowest key, the keys
  below a bound) with the map each list stands for.
\<close>

type_synonym 'v btree = "(u64 \<times> 'v) list"

fun bt_insert :: "u64 \<Rightarrow> 'v \<Rightarrow> 'v btree \<Rightarrow> 'v btree" where
  "bt_insert k v [] = [(k, v)]"
| "bt_insert k v ((a, b) # t) =
     (if k < a then (k, v) # (a, b) # t
      else if k = a then (k, v) # t
      else (a, b) # bt_insert k v t)"

definition bt_remove :: "u64 \<Rightarrow> 'v btree \<Rightarrow> 'v btree" where
  "bt_remove k t = filter (\<lambda>(a, _). a \<noteq> k) t"

definition bt_get :: "'v btree \<Rightarrow> u64 \<Rightarrow> 'v option" where
  "bt_get t k = map_of t k"

definition bt_keys_below :: "u64 \<Rightarrow> 'v btree \<Rightarrow> u64 list" where
  "bt_keys_below b t = map fst (filter (\<lambda>(a, _). a < b) t)"

definition bt_wf :: "'v btree \<Rightarrow> bool" where
  "bt_wf t \<longleftrightarrow> sorted_wrt (<) (map fst t)"

text \<open>The contract a client of an ordered map relies on.\<close>

locale ordered_map =
  fixes empty :: "'m"
    and insert :: "u64 \<Rightarrow> 'v \<Rightarrow> 'm \<Rightarrow> 'm"
    and remove :: "u64 \<Rightarrow> 'm \<Rightarrow> 'm"
    and get :: "'m \<Rightarrow> u64 \<Rightarrow> 'v option"
    and invar :: "'m \<Rightarrow> bool"
  assumes get_empty: "get empty k = None"
    and get_insert: "get (insert k v m) k' = (if k' = k then Some v else get m k')"
    and get_remove: "get (remove k m) k' = (if k' = k then None else get m k')"
    and invar_empty: "invar empty"
    and invar_insert: "invar m \<Longrightarrow> invar (insert k v m)"
    and invar_remove: "invar m \<Longrightarrow> invar (remove k m)"
begin

lemma get_fold_insert:
  "get (fold (\<lambda>(k, v). insert k v) kvs m) k =
     (case map_of (rev kvs) k of None \<Rightarrow> get m k | Some v \<Rightarrow> Some v)"
  by (induction kvs rule: rev_induct) (auto simp: get_insert split: option.splits)

lemma get_fold_remove:
  "get (fold remove ks m) k = (if k \<in> set ks then None else get m k)"
  by (induction ks rule: rev_induct) (auto simp: get_remove)

lemma invar_fold_insert: "invar m \<Longrightarrow> invar (fold (\<lambda>(k, v). insert k v) kvs m)"
  by (induction kvs arbitrary: m) (auto simp: invar_insert)

lemma invar_fold_remove: "invar m \<Longrightarrow> invar (fold remove ks m)"
  by (induction ks arbitrary: m) (auto simp: invar_remove)

end

lemma fst_set_bt_insert: "fst ` set (bt_insert k v t) = Set.insert k (fst ` set t)"
  by (induction k v t rule: bt_insert.induct) auto

lemma bt_wf_insert: "bt_wf t \<Longrightarrow> bt_wf (bt_insert k v t)"
proof (induction k v t rule: bt_insert.induct)
  case (1 k v)
  show ?case by (simp add: bt_wf_def)
next
  case (2 k v a b t)
  have less: "\<forall>x \<in> fst ` set t. a < x" and wf: "bt_wf t"
    using 2(2) by (auto simp: bt_wf_def)
  show ?case
  proof (cases k a rule: linorder_cases)
    case less
    then show ?thesis using 2(2) by (auto simp: bt_wf_def)
  next
    case equal
    then show ?thesis using 2(2) by (simp add: bt_wf_def)
  next
    case greater
    then have ih: "bt_wf (bt_insert k v t)" using 2(1) wf by auto
    have "\<forall>x \<in> fst ` set (bt_insert k v t). a < x"
      unfolding fst_set_bt_insert using less greater by blast
    moreover have "\<not> k < a" "k \<noteq> a" using greater by auto
    ultimately show ?thesis using ih by (simp add: bt_wf_def)
  qed
qed

lemma bt_wf_remove: "bt_wf t \<Longrightarrow> bt_wf (bt_remove k t)"
  unfolding bt_wf_def bt_remove_def
  by (induction t) (auto simp: sorted_wrt_append)

lemma bt_wf_tl: "bt_wf t \<Longrightarrow> bt_wf (tl t)"
  by (cases t) (auto simp: bt_wf_def)

lemma bt_get_insert: "bt_get (bt_insert k v t) k' = (if k' = k then Some v else bt_get t k')"
  by (induction k v t rule: bt_insert.induct) (auto simp: bt_get_def)

lemma bt_get_remove: "bt_get (bt_remove k t) k' = (if k' = k then None else bt_get t k')"
  unfolding bt_get_def bt_remove_def by (induction t) auto

interpretation btree: ordered_map "[]" bt_insert bt_remove bt_get bt_wf
  by unfold_locales
     (simp_all add: bt_get_insert bt_get_remove bt_wf_insert bt_wf_remove,
      simp_all add: bt_get_def bt_wf_def)

lemma bt_get_tl: "bt_wf t \<Longrightarrow> bt_get (tl t) k = Some v \<Longrightarrow> bt_get t k = Some v"
  by (cases t) (auto simp: bt_wf_def bt_get_def dest!: map_of_SomeD)

lemma bt_get_drop: "bt_wf t \<Longrightarrow> bt_get (drop n t) k = Some v \<Longrightarrow> bt_get t k = Some v"
proof (induction n arbitrary: t)
  case (Suc n)
  then show ?case by (metis bt_get_tl bt_wf_tl drop_Suc)
qed simp

lemma bt_get_Some_iff: "bt_get t k \<noteq> None \<longleftrightarrow> k \<in> fst ` set t"
  unfolding bt_get_def by (metis map_of_eq_None_iff)

lemma bt_keys_below_set: "set (bt_keys_below b t) = {k \<in> fst ` set t. k < b}"
  by (auto simp: bt_keys_below_def)

lemma length_bt_insert: "length (bt_insert k v t) \<le> Suc (length t)"
  by (induction k v t rule: bt_insert.induct) auto

lemma length_bt_remove: "length (bt_remove k t) \<le> length t"
  by (simp add: bt_remove_def)

end
