(* ===== verification/Rocks.thy ===== *)
theory Rocks
  imports Encoding
begin

text \<open>
  The interface to RocksDB. The database engine is not part of this crate, so it is a parameter:
  a record of the calls the crate makes, over a database type of its own. Every call may fail
  with an error message. What the crate relies on is stated as laws over the logical content of
  a database, a map from column family and key to value:
  \<^item> \<open>rocksdb_laws\<close>: a call that succeeds does what its documentation says (a read returns the
    current content, a batch is applied as a whole, an iterator lists the rows in bytewise key
    order up to the point where it fails). Nothing is assumed about calls that fail, except
    that they return no new database.
  \<^item> \<open>rocksdb_live\<close>: in addition, the calls succeed.
\<close>

datatype batch_op =
    PutCf string bytes bytes
  | DeleteCf string bytes

type_synonym write_batch = "batch_op list"

datatype iter_mode = IterStart | IterEnd | IterFrom bytes

record 'd rocksdb =
  rk_cf_handle :: "'d \<Rightarrow> string \<Rightarrow> bool"
  rk_get_cf :: "'d \<Rightarrow> string \<Rightarrow> bytes \<Rightarrow> string + bytes option"
  rk_get_cf_opt :: "'d \<Rightarrow> string \<Rightarrow> bytes \<Rightarrow> usize \<Rightarrow> string + bytes option"
  rk_multi_get_cf :: "'d \<Rightarrow> (string \<times> bytes) list \<Rightarrow> (string + bytes option) list"
  rk_put_cf :: "'d \<Rightarrow> string \<Rightarrow> bytes \<Rightarrow> bytes \<Rightarrow> string + 'd"
  rk_write :: "'d \<Rightarrow> write_batch \<Rightarrow> string + 'd"
  rk_iterator_cf :: "'d \<Rightarrow> string \<Rightarrow> iter_mode \<Rightarrow> (string + bytes \<times> bytes) list"
  rk_iterator_cf_opt :: "'d \<Rightarrow> string \<Rightarrow> bytes \<Rightarrow> bytes option \<Rightarrow> bytes \<Rightarrow> (string + bytes \<times> bytes) list"
  rk_property_int_cf :: "'d \<Rightarrow> string \<Rightarrow> string \<Rightarrow> string + u64 option"
  rk_flush_wal :: "'d \<Rightarrow> string + 'd"
  rk_flush :: "'d \<Rightarrow> string + 'd"
  rk_compact_range_cf :: "'d \<Rightarrow> string \<Rightarrow> (bytes \<Rightarrow> bytes \<Rightarrow> bool) \<Rightarrow> 'd"

text \<open>
  \<open>rk_get_cf_opt d cf k readahead\<close> is \<open>get_cf_opt\<close> with that readahead size in its read options.
  \<open>rk_iterator_cf_opt d cf lo hi from\<close> iterates forward from a key between the read options'
  lower bound (inclusive) and upper bound (exclusive). \<open>rk_compact_range_cf d cf f\<close> compacts a
  column family, where \<open>f\<close> says which rows the installed compaction filter wants removed.
\<close>

section \<open>Logical content\<close>

type_synonym db_content = "string \<Rightarrow> bytes \<Rightarrow> bytes option"

fun apply_op :: "batch_op \<Rightarrow> db_content \<Rightarrow> db_content" where
  "apply_op (PutCf cf k v) c = c(cf := (c cf)(k \<mapsto> v))"
| "apply_op (DeleteCf cf k) c = c(cf := (c cf)(k := None))"

definition apply_batch :: "write_batch \<Rightarrow> db_content \<Rightarrow> db_content" where
  "apply_batch b c = fold apply_op b c"

lemma apply_batch_simps [simp]:
  "apply_batch [] c = c"
  "apply_batch (x # b) c = apply_batch b (apply_op x c)"
  "apply_batch (b @ b') c = apply_batch b' (apply_batch b c)"
  by (simp_all add: apply_batch_def)

text \<open>Rows a batch of puts, respectively deletes, leaves in one family.\<close>

lemma apply_puts:
  "apply_batch (map (\<lambda>(k, v). PutCf cf k v) kvs) c cf k =
     (case map_of (rev kvs) k of None \<Rightarrow> c cf k | Some v \<Rightarrow> Some v)"
  by (induction kvs arbitrary: c) (auto simp: map_add_def split: option.splits)

lemma apply_puts_other:
  "cf' \<noteq> cf \<Longrightarrow> apply_batch (map (\<lambda>x. PutCf cf (f x) (g x)) xs) c cf' = c cf'"
  by (induction xs arbitrary: c) auto

lemma apply_deletes:
  "apply_batch (map (\<lambda>x. DeleteCf cf (f x)) xs) c cf k = (if k \<in> f ` set xs then None else c cf k)"
  by (induction xs arbitrary: c) auto

lemma apply_deletes_other:
  "cf' \<noteq> cf \<Longrightarrow> apply_batch (map (\<lambda>x. DeleteCf cf (f x)) xs) c cf' = c cf'"
  by (induction xs arbitrary: c) auto

text \<open>The sorted listing of a family: its rows in bytewise key order.\<close>

definition is_listing :: "(bytes \<Rightarrow> bytes option) \<Rightarrow> (bytes \<times> bytes) list \<Rightarrow> bool" where
  "is_listing m xs \<longleftrightarrow> sorted_wrt bytes_less (map fst xs) \<and> map_of xs = m"

lemma is_listing_distinct: "is_listing m xs \<Longrightarrow> distinct (map fst xs)"
  unfolding is_listing_def
  by (auto simp: sorted_wrt_iff_nth_less distinct_conv_nth)
     (metis bytes_less_irrefl nat_neq_iff)

lemma is_listing_mem: "is_listing m xs \<Longrightarrow> (k, v) \<in> set xs \<longleftrightarrow> m k = Some v"
  using is_listing_distinct unfolding is_listing_def by fastforce

lemma is_listing_set: "is_listing m xs \<Longrightarrow> set xs = {(k, v). m k = Some v}"
  using is_listing_mem by fastforce

section \<open>The laws\<close>

text \<open>What an iterator may return: its listing, or a prefix of it followed by one error.\<close>

definition iterates :: "(string + 'a) list \<Rightarrow> 'a list \<Rightarrow> bool" where
  "iterates it xs \<longleftrightarrow> it = map Inr xs \<or> (\<exists>n e. it = map Inr (take n xs) @ [Inl e])"

locale rocksdb_laws =
  fixes R :: "'d rocksdb"
    and content :: "'d \<Rightarrow> db_content"
  assumes get_sound: "rk_get_cf R d cf k = Inr r \<Longrightarrow> r = content d cf k"
    and get_opt_sound: "rk_get_cf_opt R d cf k ra = Inr r \<Longrightarrow> r = content d cf k"
    and multi_get_length: "length (rk_multi_get_cf R d keys) = length keys"
    and multi_get_sound: "i < length keys \<Longrightarrow> keys ! i = (cf, k) \<Longrightarrow>
          rk_multi_get_cf R d keys ! i = Inr r \<Longrightarrow> r = content d cf k"
    and put_sound: "rk_put_cf R d cf k v = Inr d' \<Longrightarrow>
          content d' = (content d)(cf := (content d cf)(k \<mapsto> v))"
    and write_sound: "rk_write R d b = Inr d' \<Longrightarrow> content d' = apply_batch b (content d)"
    and iter_start: "\<exists>xs. is_listing (content d cf) xs \<and> iterates (rk_iterator_cf R d cf IterStart) xs"
    and iter_end: "\<exists>xs. is_listing (content d cf) xs \<and>
          iterates (rk_iterator_cf R d cf IterEnd) (rev xs)"
    and iter_from: "\<exists>xs. is_listing (content d cf) xs \<and>
          iterates (rk_iterator_cf R d cf (IterFrom k)) (filter (\<lambda>(k', _). \<not> bytes_less k' k) xs)"
    and iter_bounded: "\<exists>xs. is_listing (content d cf) xs \<and>
          iterates (rk_iterator_cf_opt R d cf lo hi k)
            (filter (\<lambda>(k', _). \<not> bytes_less k' k \<and> \<not> bytes_less k' lo \<and>
               (case hi of None \<Rightarrow> True | Some u \<Rightarrow> bytes_less k' u)) xs)"
    and compact_other: "cf' \<noteq> cf \<Longrightarrow> content (rk_compact_range_cf R d cf f) cf' = content d cf'"
    and compact_row: "content (rk_compact_range_cf R d cf f) cf k = content d cf k \<or>
          content (rk_compact_range_cf R d cf f) cf k = None \<and>
            (\<exists>v. content d cf k = Some v \<and> f k v)"
    and flush_wal_sound: "rk_flush_wal R d = Inr d' \<Longrightarrow> content d' = content d"
    and flush_sound: "rk_flush R d = Inr d' \<Longrightarrow> content d' = content d"

locale rocksdb_live = rocksdb_laws +
  assumes cf_live: "cf \<in> set ALL_COLUMN_FAMILIES \<Longrightarrow> rk_cf_handle R d cf"
    and get_live: "\<exists>r. rk_get_cf R d cf k = Inr r"
    and get_opt_live: "\<exists>r. rk_get_cf_opt R d cf k ra = Inr r"
    and multi_get_live: "i < length keys \<Longrightarrow> \<exists>r. rk_multi_get_cf R d keys ! i = Inr r"
    and put_live: "\<exists>d'. rk_put_cf R d cf k v = Inr d'"
    and write_live: "\<exists>d'. rk_write R d b = Inr d'"
    and iter_live: "Inl e \<notin> set (rk_iterator_cf R d cf mode)"
    and iter_bounded_live: "Inl e \<notin> set (rk_iterator_cf_opt R d cf lo hi k)"
    and property_live: "\<exists>r. rk_property_int_cf R d cf p = Inr r"
    and flush_wal_live: "\<exists>d'. rk_flush_wal R d = Inr d'"
    and flush_live: "\<exists>d'. rk_flush R d = Inr d'"
begin

lemma get_eq: "rk_get_cf R d cf k = Inr (content d cf k)"
  using get_live get_sound by blast

lemma cf_handles [simp]:
  "rk_cf_handle R d CF_BLOCKS" "rk_cf_handle R d CF_HEADERS" "rk_cf_handle R d CF_ATTESTED"
  "rk_cf_handle R d CF_CANONICAL" "rk_cf_handle R d CF_CHECKPOINTS" "rk_cf_handle R d CF_METADATA"
  by (auto intro: cf_live simp: ALL_COLUMN_FAMILIES_def)

lemma iter_start_eq:
  "\<exists>xs. is_listing (content d cf) xs \<and> rk_iterator_cf R d cf IterStart = map Inr xs"
  using iter_start [of d cf] iter_live [of _ d cf IterStart] by (fastforce simp: iterates_def)

end

end
