(* ===== verification/Sharded_Cache.thy ===== *)
theory Sharded_Cache
  imports Encoding
begin

unbundle bit_operations_syntax

text \<open>
  The sharded LRU cache of \<open>src/cache/sharded.rs\<close>, over the \<open>LruCache\<close> of the \<open>lru\<close> crate.
  \<open>LruCache\<close> is a parameter (a record of its calls, over a cache type of its own); the laws the
  crate relies on are the locale \<open>lru_laws\<close>: a lookup does not change which entries are
  present, an inserted entry is present, an insertion may drop other entries but never alters
  them, a removed key is absent.

  The lemmas lift these laws to the sharded cache: the shard index is always in range, so no
  access to the shard vector can panic, and the whole behaves as one cache over all keys.
\<close>

record ('l, 'v) lru_ops =
  lru_new :: "nat \<Rightarrow> 'l"
  lru_get :: "'l \<Rightarrow> bytes32 \<Rightarrow> 'v option \<times> 'l"
  lru_put :: "'l \<Rightarrow> bytes32 \<Rightarrow> 'v \<Rightarrow> 'l"
  lru_peek :: "'l \<Rightarrow> bytes32 \<Rightarrow> 'v option"
  lru_pop :: "'l \<Rightarrow> bytes32 \<Rightarrow> 'l"

record 'l ShardedLruCache =
  shards :: "'l list"
  num_shards :: usize

text \<open>\<open>usize::is_power_of_two\<close>: the value is \<open>2 ^ k\<close> for some bit position \<open>k\<close>.\<close>

definition is_power_of_two :: "usize \<Rightarrow> bool" where
  "is_power_of_two n \<longleftrightarrow> list_ex (\<lambda>k. n = push_bit k 1) [0..<64]"

definition sharded_new :: "('l, 'v) lru_ops \<Rightarrow> usize \<Rightarrow> usize \<Rightarrow> 'l ShardedLruCache" where
  "sharded_new L total_capacity n0 =
     (let n = max n0 1;
          per_shard = max (total_capacity div n) 1
      in \<lparr> shards = replicate (unat n) (lru_new L (unat per_shard)), num_shards = n \<rparr>)"

definition shard_index :: "'l ShardedLruCache \<Rightarrow> bytes32 \<Rightarrow> usize" where
  "shard_index c key =
     (let b = ucast (bytes32_octets key ! 0) :: usize
      in if is_power_of_two (num_shards c) then b AND (num_shards c - 1) else b mod num_shards c)"

definition get_clone ::
  "('l, 'v) lru_ops \<Rightarrow> 'l ShardedLruCache \<Rightarrow> bytes32 \<Rightarrow> 'v option \<times> 'l ShardedLruCache" where
  "get_clone L c key =
     (let i = unat (shard_index c key); (v, l) = lru_get L (shards c ! i) key
      in (v, c\<lparr>shards := (shards c)[i := l]\<rparr>))"

definition cache_insert ::
  "('l, 'v) lru_ops \<Rightarrow> 'l ShardedLruCache \<Rightarrow> bytes32 \<Rightarrow> 'v \<Rightarrow> 'l ShardedLruCache" where
  "cache_insert L c key value =
     (let i = unat (shard_index c key)
      in c\<lparr>shards := (shards c)[i := lru_put L (shards c ! i) key value]\<rparr>)"

definition cache_contains :: "('l, 'v) lru_ops \<Rightarrow> 'l ShardedLruCache \<Rightarrow> bytes32 \<Rightarrow> bool" where
  "cache_contains L c key = (lru_peek L (shards c ! unat (shard_index c key)) key \<noteq> None)"

definition cache_remove ::
  "('l, 'v) lru_ops \<Rightarrow> 'l ShardedLruCache \<Rightarrow> bytes32 \<Rightarrow> 'l ShardedLruCache" where
  "cache_remove L c key =
     (let i = unat (shard_index c key)
      in c\<lparr>shards := (shards c)[i := lru_pop L (shards c ! i) key]\<rparr>)"

section \<open>Well-formed caches\<close>

definition cache_wf :: "'l ShardedLruCache \<Rightarrow> bool" where
  "cache_wf c \<longleftrightarrow> 0 < unat (num_shards c) \<and> length (shards c) = unat (num_shards c)"

text \<open>The entry a cache holds for a key, read without touching recency.\<close>

definition cache_peek :: "('l, 'v) lru_ops \<Rightarrow> 'l ShardedLruCache \<Rightarrow> bytes32 \<Rightarrow> 'v option" where
  "cache_peek L c key = lru_peek L (shards c ! unat (shard_index c key)) key"

lemma power_of_two_mask:
  fixes b n :: usize
  assumes "is_power_of_two n"
  shows "b AND (n - 1) = b mod n"
proof -
  obtain k where "n = push_bit k 1" using assms by (auto simp: is_power_of_two_def list_ex_iff)
  then have n: "n = 2 ^ k" by simp
  have "n - 1 = mask k" by (simp add: n mask_eq_exp_minus_1)
  then show ?thesis by (simp add: n flip: take_bit_eq_mask take_bit_eq_mod)
qed

lemma shard_index_mod:
  "shard_index c key = ucast (bytes32_octets key ! 0) mod num_shards c"
  by (simp add: shard_index_def Let_def power_of_two_mask)

lemma shard_index_less: "cache_wf c \<Longrightarrow> unat (shard_index c key) < length (shards c)"
  by (simp add: shard_index_mod cache_wf_def unat_mod)

lemma cache_wf_new: "cache_wf (sharded_new L cap n)"
proof -
  have "(1 :: usize) \<le> max n 1" by simp
  then have "0 < unat (max n 1)" by (simp add: word_le_nat_alt)
  then show ?thesis by (simp add: sharded_new_def cache_wf_def Let_def)
qed

lemma cache_wf_ops [simp]:
  "cache_wf (cache_insert L c k v) = cache_wf c"
  "cache_wf (cache_remove L c k) = cache_wf c"
  "cache_wf (snd (get_clone L c k)) = cache_wf c"
  by (simp_all add: cache_wf_def cache_insert_def cache_remove_def get_clone_def Let_def
      split: prod.splits)

lemma shard_index_ops [simp]:
  "shard_index (c\<lparr>shards := x\<rparr>) k = shard_index c k"
  by (simp add: shard_index_mod)

lemma cache_contains_peek: "cache_contains L c key \<longleftrightarrow> cache_peek L c key \<noteq> None"
  by (simp add: cache_contains_def cache_peek_def)

section \<open>The contract of a cache keyed by block hash\<close>

locale hash_cache =
  fixes get :: "'c \<Rightarrow> bytes32 \<Rightarrow> 'v option \<times> 'c"
    and insert :: "'c \<Rightarrow> bytes32 \<Rightarrow> 'v \<Rightarrow> 'c"
    and remove :: "'c \<Rightarrow> bytes32 \<Rightarrow> 'c"
    and peek :: "'c \<Rightarrow> bytes32 \<Rightarrow> 'v option"
    and wf :: "'c \<Rightarrow> bool"
  assumes get_val: "wf c \<Longrightarrow> fst (get c k) = peek c k"
    and get_keeps: "wf c \<Longrightarrow> peek (snd (get c k)) k' = peek c k'"
    and insert_same: "wf c \<Longrightarrow> peek (insert c k v) k = Some v"
    and insert_other: "wf c \<Longrightarrow> k' \<noteq> k \<Longrightarrow> peek (insert c k v) k' = Some w \<Longrightarrow> peek c k' = Some w"
    and remove_peek: "wf c \<Longrightarrow> peek (remove c k) k' = (if k' = k then None else peek c k')"
    and get_wf: "wf c \<Longrightarrow> wf (snd (get c k))"
    and insert_wf: "wf c \<Longrightarrow> wf (insert c k v)"
    and remove_wf: "wf c \<Longrightarrow> wf (remove c k)"
begin

lemma insert_peek_cases:
  "wf c \<Longrightarrow> peek (insert c k v) k' = Some w \<Longrightarrow> k' = k \<and> w = v \<or> peek c k' = Some w"
  by (cases "k' = k") (auto simp: insert_same dest: insert_other)

lemma fold_remove_wf: "wf c \<Longrightarrow> wf (fold (\<lambda>k c. remove c k) ks c)"
  by (induction ks arbitrary: c) (auto simp: remove_wf)

lemma fold_remove_peek:
  "wf c \<Longrightarrow> peek (fold (\<lambda>k c. remove c k) ks c) k' = (if k' \<in> set ks then None else peek c k')"
  by (induction ks arbitrary: c) (auto simp: remove_wf remove_peek)

end

locale lru_laws =
  fixes L :: "('l, 'v) lru_ops"
  assumes new_peek: "lru_peek L (lru_new L cap) k = None"
    and lru_get_val: "fst (lru_get L l k) = lru_peek L l k"
    and lru_get_keeps: "lru_peek L (snd (lru_get L l k)) k' = lru_peek L l k'"
    and put_same: "lru_peek L (lru_put L l k v) k = Some v"
    and put_other: "k' \<noteq> k \<Longrightarrow> lru_peek L (lru_put L l k v) k' = Some w \<Longrightarrow> lru_peek L l k' = Some w"
    and pop_peek: "lru_peek L (lru_pop L l k) k' = (if k' = k then None else lru_peek L l k')"

lemma peek_update:
  "cache_wf c \<Longrightarrow>
   cache_peek L (c\<lparr>shards := (shards c)[unat (shard_index c k) := l]\<rparr>) k' =
     (if shard_index c k' = shard_index c k then lru_peek L l k' else cache_peek L c k')"
  using shard_index_less [of c k] by (auto simp: cache_peek_def nth_list_update dest: unsigned_word_eqI)

sublocale lru_laws \<subseteq> sharded: hash_cache "get_clone L" "cache_insert L" "cache_remove L" "cache_peek L" cache_wf
proof unfold_locales
  fix c :: "'l ShardedLruCache" and k assume "cache_wf c"
  show "fst (get_clone L c k) = cache_peek L c k"
    by (simp add: get_clone_def cache_peek_def Let_def split_beta lru_get_val)
next
  fix c :: "'l ShardedLruCache" and k k' assume "cache_wf c"
  then show "cache_peek L (snd (get_clone L c k)) k' = cache_peek L c k'"
    by (simp add: get_clone_def Let_def split_beta peek_update lru_get_keeps)
       (simp add: cache_peek_def)
next
  fix c :: "'l ShardedLruCache" and k v assume "cache_wf c"
  then show "cache_peek L (cache_insert L c k v) k = Some v"
    by (simp add: cache_insert_def Let_def peek_update put_same)
next
  fix c :: "'l ShardedLruCache" and k' k v w
  assume "cache_wf c" and ne: "k' \<noteq> k" and "cache_peek L (cache_insert L c k v) k' = Some w"
  then have w: "(if shard_index c k' = shard_index c k
      then lru_peek L (lru_put L (shards c ! unat (shard_index c k)) k v) k'
      else cache_peek L c k') = Some w"
    by (simp add: cache_insert_def Let_def peek_update)
  show "cache_peek L c k' = Some w"
  proof (cases "shard_index c k' = shard_index c k")
    case True
    with w have "lru_peek L (lru_put L (shards c ! unat (shard_index c k)) k v) k' = Some w" by simp
    from put_other [OF ne this] True show ?thesis by (simp add: cache_peek_def)
  next
    case False
    with w show ?thesis by simp
  qed
next
  fix c :: "'l ShardedLruCache" and k k' assume "cache_wf c"
  then show "cache_peek L (cache_remove L c k) k' = (if k' = k then None else cache_peek L c k')"
    by (simp add: cache_remove_def Let_def peek_update pop_peek)
       (simp add: cache_peek_def)
qed simp_all

context lru_laws
begin

lemma peek_new: "cache_peek L (sharded_new L cap n) k = None"
  using shard_index_less [OF cache_wf_new [of L cap n], of k]
  by (simp add: cache_peek_def) (simp add: sharded_new_def Let_def new_peek)

end

end
