(* ===== verification/Rust_Arith.thy ===== *)
theory Rust_Arith
  imports Errors
begin

text \<open>
  Unsigned 64-bit arithmetic of Rust (\<open>u64\<close>, and \<open>usize\<close> on a 64-bit target): the checked and
  saturating forms, and the plain operators, whose overflow panics when the build has overflow
  checks (\<open>oc\<close>) and wraps otherwise. \<open>tryR\<close> and \<open>foldR\<close> are \<open>?\<close> and \<open>for\<close> in code that
  touches no state.
\<close>

definition checked_add :: "u64 \<Rightarrow> u64 \<Rightarrow> u64 option" where
  "checked_add a b = (if unat a + unat b < 2 ^ 64 then Some (a + b) else None)"

definition checked_mul :: "u64 \<Rightarrow> u64 \<Rightarrow> u64 option" where
  "checked_mul a b = (if unat a * unat b < 2 ^ 64 then Some (a * b) else None)"

definition saturating_add :: "u64 \<Rightarrow> u64 \<Rightarrow> u64" where
  "saturating_add a b = (if unat a + unat b < 2 ^ 64 then a + b else - 1)"

definition saturating_sub :: "u64 \<Rightarrow> u64 \<Rightarrow> u64" where
  "saturating_sub a b = (if a < b then 0 else a - b)"

definition saturating_mul :: "u64 \<Rightarrow> u64 \<Rightarrow> u64" where
  "saturating_mul a b = (if unat a * unat b < 2 ^ 64 then a * b else - 1)"

definition plain_add :: "bool \<Rightarrow> u64 \<Rightarrow> u64 \<Rightarrow> ('e, u64) outcome" where
  "plain_add oc a b =
     (if oc \<and> 2 ^ 64 \<le> unat a + unat b then Panic ''attempt to add with overflow'' else Ok (a + b))"

definition plain_mul :: "bool \<Rightarrow> u64 \<Rightarrow> u64 \<Rightarrow> ('e, u64) outcome" where
  "plain_mul oc a b =
     (if oc \<and> 2 ^ 64 \<le> unat a * unat b then Panic ''attempt to multiply with overflow'' else Ok (a * b))"

text \<open>
  \<open>Vec::with_capacity (n)\<close> for elements of \<open>sz\<close> bytes: a request above \<open>isize::MAX\<close> bytes
  panics.
\<close>

definition vec_with_capacity :: "nat \<Rightarrow> u64 \<Rightarrow> ('e, unit) outcome" where
  "vec_with_capacity sz n = (if 2 ^ 63 \<le> unat n * sz then Panic ''capacity overflow'' else Ok ())"

definition tryR :: "('e, 'a) outcome \<Rightarrow> ('a \<Rightarrow> ('e, 'b) outcome) \<Rightarrow> ('e, 'b) outcome" where
  "tryR r f = (case r of Ok x \<Rightarrow> f x | Err e \<Rightarrow> Err e | Panic p \<Rightarrow> Panic p)"

fun foldR :: "('acc \<Rightarrow> 'a \<Rightarrow> ('e, 'acc) outcome) \<Rightarrow> 'acc \<Rightarrow> 'a list \<Rightarrow> ('e, 'acc) outcome" where
  "foldR f acc [] = Ok acc"
| "foldR f acc (x # xs) = tryR (f acc x) (\<lambda>acc'. foldR f acc' xs)"

lemma tryR_simps [simp]:
  "tryR (Ok x) f = f x" "tryR (Err e) f = Err e" "tryR (Panic p) f = Panic p"
  by (simp_all add: tryR_def)

lemma tryR_Ok [run_simps]: "tryR r f = Ok y \<longleftrightarrow> (\<exists>x. r = Ok x \<and> f x = Ok y)"
  by (cases r) auto

lemma plain_add_Ok [run_simps]:
  "plain_add oc a b = Ok c \<longleftrightarrow> c = a + b \<and> (oc \<longrightarrow> unat a + unat b < 2 ^ 64)"
  by (auto simp: plain_add_def)

lemma plain_mul_Ok [run_simps]:
  "plain_mul oc a b = Ok c \<longleftrightarrow> c = a * b \<and> (oc \<longrightarrow> unat a * unat b < 2 ^ 64)"
  by (auto simp: plain_mul_def)

lemma unat_add_below: "unat (a :: u64) + unat b < 2 ^ 64 \<Longrightarrow> unat (a + b) = unat a + unat b"
  by (simp add: unat_word_ariths)

lemma unat_mul_below: "unat (a :: u64) * unat b < 2 ^ 64 \<Longrightarrow> unat (a * b) = unat a * unat b"
  by (simp add: unat_word_ariths)

lemma unat_add_overflow:
  "2 ^ 64 \<le> unat (a :: u64) + unat b \<Longrightarrow> unat (a + b) = unat a + unat b - 2 ^ 64"
proof -
  assume over: "2 ^ 64 \<le> unat a + unat b"
  have "unat a + unat b < 2 ^ 64 + 2 ^ 64" using unat_bound [of a] unat_bound [of b] by simp
  with over show ?thesis by (simp add: unat_word_ariths le_mod_geq)
qed

lemma checked_add_Some: "checked_add a b = Some c \<longleftrightarrow> unat a + unat b < 2 ^ 64 \<and> c = a + b"
  by (auto simp: checked_add_def)

lemma checked_mul_Some: "checked_mul a b = Some c \<longleftrightarrow> unat a * unat b < 2 ^ 64 \<and> c = a * b"
  by (auto simp: checked_mul_def)

end
