(* ===== verification/Canonical_Bin.thy ===== *)
theory Canonical_Bin
  imports Rust_Arith Rocks
begin

text \<open>
  The memory-mapped \<open>canonical.bin\<close> sidecar (\<open>src/canonical/mmap.rs\<close>): a dense file with the
  32-byte hash of height \<open>h\<close> at offset \<open>32 * h\<close>.

  A \<open>CanonicalDenseFile\<close> is the content of the file, which the shared mapping aliases, and
  whether a mapping is installed; the code drops the mapping while it resizes the file, and a
  failure in between leaves none. Calls to the operating system and to \<open>memmap2\<close> succeed or
  fail as the parameter \<open>io_env\<close> says.

  The lemmas read a file as a partial map from heights to hashes (\<open>bin_slot\<close>, an all-zero slot
  is a gap) and show what each operation does to that map; the locale \<open>height_index\<close> is the
  contract the canonical index relies on.
\<close>

section \<open>The operating system\<close>

datatype io_call =
    CreateDbDir | CreateParent | OpenRw | Metadata | MapMut nat | SetLen nat
  | ReadFile | OpenRebuild | WriteAll | FlushFile | TouchEmpty | OpenRo | MapRo nat

text \<open>
  \<open>io_err\<close> gives the error of a failing call; \<open>io_partial\<close> is how many bytes a failing
  \<open>write_all\<close> had written.
\<close>

record io_env =
  io_err :: "io_call \<Rightarrow> string option"
  io_partial :: nat

definition io_try :: "io_env \<Rightarrow> io_call \<Rightarrow> string \<Rightarrow> ('s, BlockStoreError, unit) operation" where
  "io_try io call msg =
     (case io_err io call of None \<Rightarrow> returnM () | Some e \<Rightarrow> failM (Serialization (msg @ e)))"

text \<open>The path of the sidecar next to the database (\<open>Path::join\<close>), and \<open>Path::parent\<close>.\<close>

definition CANONICAL_BIN_FILE :: string where
  "CANONICAL_BIN_FILE = ''canonical.bin''"

definition canonical_bin_path :: "string \<Rightarrow> string" where
  "canonical_bin_path db_dir =
     (if db_dir = [] \<or> last db_dir = CHR ''/'' then db_dir else db_dir @ ''/'') @ CANONICAL_BIN_FILE"

definition path_parent :: "string \<Rightarrow> string" where
  "path_parent path =
     (let dir = dropWhile (\<lambda>c. c \<noteq> CHR ''/'') (rev path);
          parent = rev (dropWhile (\<lambda>c. c = CHR ''/'') dir)
      in if parent = [] \<and> dir \<noteq> [] then ''/'' else parent)"

section \<open>CanonicalDenseFile\<close>

record CanonicalDenseFile =
  df_bytes :: bytes
  df_mapped :: bool

definition file_set_len :: "nat \<Rightarrow> bytes \<Rightarrow> bytes" where
  "file_set_len n bs = take n bs @ replicate (n - length bs) 0"

definition write_at :: "nat \<Rightarrow> bytes \<Rightarrow> bytes \<Rightarrow> bytes" where
  "write_at off xs bs = take off bs @ xs @ drop (off + length xs) bs"

definition mmap_missing :: string where
  "mmap_missing = ''canonical.bin: mmap must be installed after open/remap''"

definition mmap_active :: "(CanonicalDenseFile, BlockStoreError, bytes) operation" where
  "mmap_active =
     (\<lambda>f. if df_mapped f then (Ok (df_bytes f), f) else (Panic mmap_missing, f))"

text \<open>\<open>mmap.take()\<close>, \<open>set_len\<close>, remap: shared by the growth path and by \<open>truncate\<close>.\<close>

definition resize_remap ::
  "io_env \<Rightarrow> string \<Rightarrow> string \<Rightarrow> nat \<Rightarrow> (CanonicalDenseFile, BlockStoreError, unit) operation" where
  "resize_remap io msg_len msg_map n =
     tryM (modifyM (\<lambda>f. f\<lparr>df_mapped := False\<rparr>)) (\<lambda>_.
     tryM (io_try io (SetLen n) msg_len) (\<lambda>_.
     tryM (modifyM (\<lambda>f. f\<lparr>df_bytes := file_set_len n (df_bytes f)\<rparr>)) (\<lambda>_.
     tryM (io_try io (MapMut n) msg_map) (\<lambda>_.
     modifyM (\<lambda>f. f\<lparr>df_mapped := True\<rparr>)))))"

definition len_bytes :: "(CanonicalDenseFile, BlockStoreError, nat) operation" where
  "len_bytes = tryM mmap_active (\<lambda>m. returnM (length m))"

text \<open>
  \<open>read_slice_nonzero\<close>. The end offset \<open>off + 32\<close> is plain \<open>usize\<close> arithmetic; a slice whose
  end lies before its start panics.
\<close>

definition read_slice_nonzero :: "bool \<Rightarrow> bytes \<Rightarrow> usize \<Rightarrow> bytes option result" where
  "read_slice_nonzero oc mmap off =
     tryR (plain_add oc off 32) (\<lambda>e.
       if length mmap < unat e then Ok None
       else if e < off then Panic ''slice index starts at the offset but ends before it''
       else let s = take 32 (drop (unat off) mmap)
            in if list_all (\<lambda>b. b = 0) s then Ok None else Ok (Some s))"

definition read_hash :: "bool \<Rightarrow> CanonicalDenseFile \<Rightarrow> u64 \<Rightarrow> bytes32 option result" where
  "read_hash oc f height =
     (case checked_mul height 32 of
        None \<Rightarrow> Err (Serialization ''canonical.bin read: height overflow'')
      | Some offset \<Rightarrow>
          tryR (plain_add oc offset 32) (\<lambda>e.
            if \<not> df_mapped f then Panic mmap_missing
            else if length (df_bytes f) < unat e then Ok None
            else if e < offset then Panic ''slice index starts at the offset but ends before it''
            else Ok (Some (bytes32_new (take 32 (drop (unat offset) (df_bytes f)))))))"

definition read_slot_nonzero_bytes :: "bool \<Rightarrow> CanonicalDenseFile \<Rightarrow> u64 \<Rightarrow> bytes option result" where
  "read_slot_nonzero_bytes oc f height =
     (case checked_mul height 32 of
        None \<Rightarrow> Ok None
      | Some off \<Rightarrow>
          if \<not> df_mapped f then Panic mmap_missing else read_slice_nonzero oc (df_bytes f) off)"

definition checked_len :: "u64 \<Rightarrow> usize option" where
  "checked_len height =
     (case checked_add height 1 of None \<Rightarrow> None | Some n \<Rightarrow> checked_mul n 32)"

definition write_hash ::
  "io_env \<Rightarrow> u64 \<Rightarrow> bytes32 \<Rightarrow> (CanonicalDenseFile, BlockStoreError, unit) operation" where
  "write_hash io height hash =
     (case checked_len height of
        None \<Rightarrow> failM (Serialization ''canonical.bin write: height overflow'')
      | Some need \<Rightarrow>
          tryM mmap_active (\<lambda>m.
          tryM (if length m < unat need
                then resize_remap io ''canonical.bin set_len: ''
                       ''canonical.bin remap after extend: '' (unat need)
                else returnM ()) (\<lambda>_.
          tryM mmap_active (\<lambda>_.
          modifyM (\<lambda>f. f\<lparr>df_bytes :=
            write_at (unat height * 32) (bytes32_octets hash) (df_bytes f)\<rparr>)))))"

definition truncate :: "io_env \<Rightarrow> u64 \<Rightarrow> (CanonicalDenseFile, BlockStoreError, unit) operation" where
  "truncate io max_height =
     (case checked_len max_height of
        None \<Rightarrow> failM (Serialization ''canonical.bin truncate: height overflow'')
      | Some new_len \<Rightarrow>
          resize_remap io ''canonical.bin truncate set_len: '' ''canonical.bin truncate remap: ''
            (unat new_len))"

section \<open>Rebuilding from CF\_CANONICAL\<close>

fun canonical_rows ::
  "(string + bytes \<times> bytes) list \<Rightarrow> (u64 \<times> bytes32) list \<Rightarrow> (u64 \<times> bytes32) list result" where
  "canonical_rows [] heights = Ok heights"
| "canonical_rows (Inl e # items) heights = Err (RocksDb e)"
| "canonical_rows (Inr (k, v) # items) heights =
     (if length k \<noteq> 8
      then Err (Serialization ''canonical.bin rebuild: CF_CANONICAL key must be exactly 8 bytes'')
      else if length v \<noteq> 32
      then Err (Serialization ''canonical.bin rebuild: CF_CANONICAL value must be exactly 32 bytes'')
      else canonical_rows items (heights @ [(decode_height_key k, bytes32_new v)]))"

definition place_hash :: "bool \<Rightarrow> bytes \<Rightarrow> u64 \<times> bytes32 \<Rightarrow> bytes result" where
  "place_hash oc buf row =
     (case row of (h, hash) \<Rightarrow>
        let off = saturating_mul h 32
        in tryR (plain_add oc off 32) (\<lambda>e.
             if length buf < unat e
             then Err (Serialization
                    ''canonical.bin rebuild: height exceeds dense buffer (internal error)'')
             else if e < off then Panic ''slice index starts at the offset but ends before it''
             else Ok (write_at (unat off) (bytes32_octets hash) buf)))"

definition dense_bytes_from_cf :: "bool \<Rightarrow> (string + bytes \<times> bytes) list \<Rightarrow> bytes result" where
  "dense_bytes_from_cf oc items =
     tryR (canonical_rows items []) (\<lambda>heights.
       if heights = [] then Ok []
       else let max_h = fold max (map fst heights) 0
            in tryR (plain_add oc max_h 1) (\<lambda>n.
               tryR (plain_mul oc n 32) (\<lambda>len.
               tryR (vec_with_capacity 1 len) (\<lambda>_.
               foldR (place_hash oc) (replicate (unat len) 0) heights))))"

section \<open>CanonicalBin\<close>

datatype CanonicalBin = Rw CanonicalDenseFile | Ro bytes | Disabled

definition map_existing ::
  "io_env \<Rightarrow> string \<Rightarrow> (bytes option, BlockStoreError, CanonicalDenseFile) operation" where
  "map_existing io path =
     tryM (io_try io Metadata (''canonical.bin metadata '' @ path @ '': '')) (\<lambda>_.
     tryM (getM the) (\<lambda>bs.
     tryM (io_try io (MapMut (length bs)) (''canonical.bin mmap_mut '' @ path @ '': '')) (\<lambda>_.
     returnM \<lparr>df_bytes = bs, df_mapped = True\<rparr>)))"

definition open_read_write ::
  "io_env \<Rightarrow> string \<Rightarrow> (bytes option, BlockStoreError, CanonicalDenseFile) operation" where
  "open_read_write io path =
     tryM (io_try io CreateParent (''canonical.bin create parent '' @ path_parent path @ '': '')) (\<lambda>_.
     tryM (io_try io OpenRw (''canonical.bin open rw '' @ path @ '': '')) (\<lambda>_.
     tryM (modifyM (\<lambda>disk. Some (case disk of None \<Rightarrow> [] | Some bs \<Rightarrow> bs))) (\<lambda>_.
     map_existing io path)))"

definition map_file ::
  "io_env \<Rightarrow> string \<Rightarrow> bool \<Rightarrow> (bytes option, BlockStoreError, CanonicalBin) operation" where
  "map_file io path writable =
     (if writable
      then tryM (open_read_write io path) (\<lambda>d. returnM (Rw d))
      else tryM (io_try io OpenRo (''canonical.bin ro open '' @ path @ '': '')) (\<lambda>_.
           tryM (getM the) (\<lambda>bs.
           tryM (io_try io (MapRo (length bs)) (''canonical.bin mmap '' @ path @ '': '')) (\<lambda>_.
           returnM (Ro bs)))))"

text \<open>
  \<open>open_synced\<close>: the state is the file on disk (\<open>None\<close> while it does not exist), \<open>items\<close> what the
  iterator over \<open>CF_CANONICAL\<close> returns.
\<close>

definition open_synced ::
  "io_env \<Rightarrow> bool \<Rightarrow> bool \<Rightarrow> (string + bytes \<times> bytes) list \<Rightarrow> string \<Rightarrow> bool \<Rightarrow>
    (bytes option, BlockStoreError, CanonicalBin) operation" where
  "open_synced io oc has_cf items path writable =
     (if \<not> has_cf
      then failM (Serialization
             (''open_synced canonical.bin: missing column family '' @ CF_CANONICAL))
      else
     tryM (liftM (dense_bytes_from_cf oc items)) (\<lambda>expected.
     tryM (getM id) (\<lambda>disk.
     tryM (if disk \<noteq> None then io_try io ReadFile (''canonical.bin read '' @ path @ '': '')
           else returnM ()) (\<lambda>_.
     let on_disk = (case disk of None \<Rightarrow> [] | Some bs \<Rightarrow> bs)
     in if on_disk \<noteq> expected then
          (if \<not> writable then returnM Disabled
           else
            tryM (io_try io CreateParent (''canonical.bin create parent '' @ path_parent path @ '': '')) (\<lambda>_.
            tryM (io_try io OpenRebuild (''canonical.bin open '' @ path @ '' for rebuild: '')) (\<lambda>_.
            tryM (modifyM (\<lambda>_. Some (case io_err io WriteAll of
                                        None \<Rightarrow> expected
                                      | Some _ \<Rightarrow> take (io_partial io) expected))) (\<lambda>_.
            tryM (io_try io WriteAll (''canonical.bin write '' @ path @ '': '')) (\<lambda>_.
            tryM (io_try io FlushFile (''canonical.bin flush '' @ path @ '': '')) (\<lambda>_.
            map_file io path writable))))))
        else if expected = [] \<and> disk = None then
          (if writable then
            tryM (io_try io CreateParent (''canonical.bin create parent '' @ path_parent path @ '': '')) (\<lambda>_.
            tryM (io_try io TouchEmpty (''canonical.bin touch empty '' @ path @ '': '')) (\<lambda>_.
            tryM (modifyM (\<lambda>_. Some [])) (\<lambda>_.
            map_file io path writable)))
           else returnM Disabled)
        else map_file io path writable))))"

definition read_hash_bytes :: "bool \<Rightarrow> CanonicalBin \<Rightarrow> u64 \<Rightarrow> bytes option result" where
  "read_hash_bytes oc bin height =
     (case bin of
        Rw d \<Rightarrow> read_slot_nonzero_bytes oc d height
      | Ro mmap \<Rightarrow>
          (case checked_mul height 32 of
             None \<Rightarrow> Ok None
           | Some off \<Rightarrow> read_slice_nonzero oc mmap off)
      | Disabled \<Rightarrow> Ok None)"

text \<open>An operation on the dense file, run inside the \<open>Rw\<close> variant.\<close>

definition in_rw ::
  "(CanonicalDenseFile, BlockStoreError, unit) operation \<Rightarrow>
    (CanonicalBin, BlockStoreError, unit) operation" where
  "in_rw m = (\<lambda>bin. case bin of Rw d \<Rightarrow> (case m d of (r, d') \<Rightarrow> (r, Rw d')) | _ \<Rightarrow> (Ok (), bin))"

definition extend_write ::
  "io_env \<Rightarrow> u64 \<Rightarrow> bytes32 \<Rightarrow> (CanonicalBin, BlockStoreError, unit) operation" where
  "extend_write io height hash = in_rw (write_hash io height hash)"

definition truncate_to_height ::
  "io_env \<Rightarrow> u64 \<Rightarrow> (CanonicalBin, BlockStoreError, unit) operation" where
  "truncate_to_height io max_height = in_rw (truncate io max_height)"

definition disable :: "CanonicalBin \<Rightarrow> CanonicalBin" where
  "disable _ = Disabled"

section \<open>The file as a map from heights to hashes\<close>

definition slot_of :: "bytes \<Rightarrow> nat \<Rightarrow> bytes32 option" where
  "slot_of bs h =
     (if 32 * Suc h \<le> length bs \<and> bytes32_new (take 32 (drop (32 * h) bs)) \<noteq> 0
      then Some (bytes32_new (take 32 (drop (32 * h) bs))) else None)"

definition dense_wf :: "bytes \<Rightarrow> bool" where
  "dense_wf bs \<longleftrightarrow> 32 dvd length bs"

fun bin_bytes :: "CanonicalBin \<Rightarrow> bytes" where
  "bin_bytes (Rw d) = df_bytes d"
| "bin_bytes (Ro m) = m"
| "bin_bytes Disabled = []"

definition bin_slot :: "CanonicalBin \<Rightarrow> u64 \<Rightarrow> bytes32 option" where
  "bin_slot bin h = slot_of (bin_bytes bin) (unat h)"

definition bin_ok :: "CanonicalBin \<Rightarrow> bool" where
  "bin_ok bin \<longleftrightarrow> dense_wf (bin_bytes bin) \<and> length (bin_bytes bin) < 2 ^ 64"

fun bin_writable :: "CanonicalBin \<Rightarrow> bool" where
  "bin_writable (Ro m) = False"
| "bin_writable _ = True"

lemma le_value_zero: "le_value bs = 0 \<longleftrightarrow> list_all (\<lambda>b. b = 0) bs"
  by (induction bs) (auto simp: unsigned_eq_0_iff)

lemma bytes32_new_zero: "length bs = 32 \<Longrightarrow> bytes32_new bs = 0 \<longleftrightarrow> list_all (\<lambda>b. b = 0) bs"
proof -
  assume len: "length bs = 32"
  have "le_value (rev bs) < 2 ^ 256" using le_value_less [of "rev bs"] len by simp
  then have "unat (bytes32_new bs) = le_value (rev bs)"
    by (simp add: bytes32_new_def unat_of_nat take_bit_eq_mod)
  then have "bytes32_new bs = 0 \<longleftrightarrow> le_value (rev bs) = 0"
    by (metis unsigned_eq_0_iff)
  also have "\<dots> \<longleftrightarrow> list_all (\<lambda>b. b = 0) bs" by (simp add: le_value_zero)
  finally show ?thesis .
qed

lemma length_file_set_len [simp]: "length (file_set_len n bs) = n"
  by (simp add: file_set_len_def min_def)

lemma slot_of_set_len:
  assumes "dense_wf bs" and "n = 32 * m"
  shows "slot_of (file_set_len n bs) h = (if h < m then slot_of bs h else None)"
proof (cases "h < m")
  case False
  then show ?thesis using assms(2) by (auto simp: slot_of_def file_set_len_def)
next
  case True
  then have fits: "32 * Suc h \<le> n" using assms(2) by simp
  show ?thesis
  proof (cases "32 * Suc h \<le> length bs")
    case True
    then have "take 32 (drop (32 * h) (file_set_len n bs)) = take 32 (drop (32 * h) bs)"
      using fits by (simp add: file_set_len_def drop_take min_def)
    with True fits \<open>h < m\<close> show ?thesis by (simp add: slot_of_def)
  next
    case False
    obtain q where q: "length bs = 32 * q" using assms(1) by (auto simp: dense_wf_def)
    with False have "q \<le> h" by auto
    then have "take 32 (drop (32 * h) (file_set_len n bs)) = replicate 32 0"
      using fits q by (simp add: file_set_len_def min_def)
    then have "bytes32_new (take 32 (drop (32 * h) (file_set_len n bs))) = 0"
      by (simp add: bytes32_new_zero list_all_iff)
    with False \<open>h < m\<close> show ?thesis by (simp add: slot_of_def)
  qed
qed

lemma length_write_at: "off + length xs \<le> length bs \<Longrightarrow> length (write_at off xs bs) = length bs"
  by (simp add: write_at_def)

lemma slot_of_write_at:
  assumes "32 * Suc h \<le> length bs"
  shows "slot_of (write_at (32 * h) (bytes32_octets x) bs) h' =
     (if h' = h then (if x = 0 then None else Some x) else slot_of bs h')"
proof -
  have len: "length (write_at (32 * h) (bytes32_octets x) bs) = length bs"
    using assms by (simp add: length_write_at)
  consider (eq) "h' = h" | (lt) "h' < h" | (gt) "h < h'" by linarith
  then show ?thesis
  proof cases
    case eq
    then show ?thesis using assms len by (simp add: slot_of_def write_at_def)
  next
    case lt
    then have "32 * Suc h' \<le> 32 * h" "32 \<le> 32 * h - 32 * h'" by simp_all
    then have "take 32 (drop (32 * h') (write_at (32 * h) (bytes32_octets x) bs)) = take 32 (drop (32 * h') bs)"
      using assms by (simp add: write_at_def drop_take min_def)
    with lt len show ?thesis by (simp add: slot_of_def)
  next
    case gt
    then have "32 * Suc h \<le> 32 * h'" by simp
    then have "drop (32 * h') (write_at (32 * h) (bytes32_octets x) bs) = drop (32 * h') bs"
      using assms by (simp add: write_at_def min_def)
    with gt len show ?thesis by (simp add: slot_of_def)
  qed
qed

section \<open>What the file operations do\<close>

lemma io_try_Ok [run_simps]: "io_try io c m s = (Ok u, s') \<longleftrightarrow> io_err io c = None \<and> s' = s"
  by (auto simp: io_try_def split: option.splits)

lemma mmap_active_Ok [run_simps]:
  "mmap_active f = (Ok m, f') \<longleftrightarrow> df_mapped f \<and> m = df_bytes f \<and> f' = f"
  by (auto simp: mmap_active_def)

lemma modifyM_Ok [run_simps]: "modifyM g s = (Ok u, s') \<longleftrightarrow> s' = g s"
  by auto

lemma checked_len_Some:
  assumes "checked_len h = Some n"
  shows "unat n = 32 * Suc (unat h)" and "32 * Suc (unat h) < 2 ^ 64"
proof -
  obtain k where k: "checked_add h 1 = Some k" "checked_mul k 32 = Some n"
    using assms by (auto simp: checked_len_def split: option.splits)
  have uk: "unat k = Suc (unat h)" using k(1) unat_add_below [of h 1] by (simp add: checked_add_Some)
  have b: "unat k * unat (32 :: u64) < 2 ^ 64" and n: "n = k * 32"
    using k(2) by (simp_all only: checked_mul_Some)
  have "unat n = unat k * unat (32 :: u64)" unfolding n by (rule unat_mul_below [OF b])
  then show "unat n = 32 * Suc (unat h)" by (simp add: uk)
  show "32 * Suc (unat h) < 2 ^ 64" using b by (simp add: uk)
qed

lemma resize_remap_Ok [run_simps]:
  "resize_remap io ml mm n f = (Ok u, f') \<longleftrightarrow>
     io_err io (SetLen n) = None \<and> io_err io (MapMut n) = None \<and>
     f' = f\<lparr>df_bytes := file_set_len n (df_bytes f), df_mapped := True\<rparr>"
  by (auto simp: resize_remap_def run_simps)

lemma truncate_Ok:
  assumes "truncate io m f = (Ok u, f')" and "dense_wf (df_bytes f)"
  shows "dense_wf (df_bytes f')" and "df_mapped f'"
    and "slot_of (df_bytes f') h = (if h \<le> unat m then slot_of (df_bytes f) h else None)"
proof -
  obtain n where n: "checked_len m = Some n"
    and f': "f' = f\<lparr>df_bytes := file_set_len (unat n) (df_bytes f), df_mapped := True\<rparr>"
    using assms(1) by (auto simp: truncate_def run_simps split: option.splits)
  from n have len: "unat n = 32 * Suc (unat m)" by (rule checked_len_Some)
  show "dense_wf (df_bytes f')" by (simp add: f' dense_wf_def len)
  show "df_mapped f'" by (simp add: f')
  show "slot_of (df_bytes f') h = (if h \<le> unat m then slot_of (df_bytes f) h else None)"
    by (simp add: f' slot_of_set_len [OF assms(2) len] less_Suc_eq_le)
qed

lemma write_hash_Ok:
  assumes "write_hash io h x f = (Ok u, f')" and wf: "dense_wf (df_bytes f)"
  shows "dense_wf (df_bytes f')" and "df_mapped f'"
    and "length (df_bytes f') = max (length (df_bytes f)) (32 * Suc (unat h))"
    and "slot_of (df_bytes f') n =
      (if n = unat h then (if x = 0 then None else Some x) else slot_of (df_bytes f) n)"
proof -
  obtain need f1 where need: "checked_len h = Some need" and mapped: "df_mapped f1"
    and step: "(if length (df_bytes f) < unat need
        then resize_remap io ''canonical.bin set_len: '' ''canonical.bin remap after extend: '' (unat need)
        else returnM ()) f = (Ok (), f1)"
    and f': "f' = f1\<lparr>df_bytes := write_at (unat h * 32) (bytes32_octets x) (df_bytes f1)\<rparr>"
    using assms(1) by (auto simp: write_hash_def run_simps split: option.splits)
  then have grow: "if length (df_bytes f) < unat need
        then f1 = f\<lparr>df_bytes := file_set_len (unat need) (df_bytes f), df_mapped := True\<rparr>
        else f1 = f"
    by (auto simp: run_simps split: if_splits)
  from need have len: "unat need = 32 * Suc (unat h)" by (rule checked_len_Some)
  have l1: "length (df_bytes f1) = max (length (df_bytes f)) (32 * Suc (unat h))"
    and wf1: "dense_wf (df_bytes f1)"
    and s1: "m \<noteq> unat h \<Longrightarrow> slot_of (df_bytes f1) m = slot_of (df_bytes f) m" for m
  proof -
    show "length (df_bytes f1) = max (length (df_bytes f)) (32 * Suc (unat h))"
      using grow len by (auto split: if_splits)
    show "dense_wf (df_bytes f1)"
      using grow len wf by (auto simp: dense_wf_def split: if_splits)
    show "m \<noteq> unat h \<Longrightarrow> slot_of (df_bytes f1) m = slot_of (df_bytes f) m"
      using grow len slot_of_set_len [OF wf len]
      by (auto simp: slot_of_def [of "df_bytes f"] split: if_splits)
  qed
  have fits: "32 * Suc (unat h) \<le> length (df_bytes f1)" by (simp add: l1)
  have w: "df_bytes f' = write_at (32 * unat h) (bytes32_octets x) (df_bytes f1)"
    by (simp add: f' mult.commute)
  have l': "length (df_bytes f') = length (df_bytes f1)"
    using fits by (simp add: w length_write_at)
  show "dense_wf (df_bytes f')" using wf1 l' by (simp add: dense_wf_def)
  show "df_mapped f'" using mapped by (simp add: f')
  show "length (df_bytes f') = max (length (df_bytes f)) (32 * Suc (unat h))" by (simp add: l' l1)
  show "slot_of (df_bytes f') n =
      (if n = unat h then (if x = 0 then None else Some x) else slot_of (df_bytes f) n)"
    by (simp add: w slot_of_write_at [OF fits] s1)
qed

lemma read_slice_nonzero_slot:
  assumes "read_slice_nonzero oc bs off = Ok r" and "unat off = 32 * h" and "length bs < 2 ^ 64"
  shows "map_option bytes32_new r = slot_of bs h"
proof (cases "unat off + 32 < 2 ^ 64")
  case True
  then have e: "unat (off + 32) = 32 * Suc h" using unat_add_below [of off 32] assms(2) by simp
  show ?thesis
  proof (cases "32 * Suc h \<le> length bs")
    case True
    then have len: "length (take 32 (drop (32 * h) bs)) = 32" by simp
    from True assms(1) e show ?thesis
      by (auto simp: read_slice_nonzero_def run_simps slot_of_def Let_def assms(2)
          bytes32_new_zero [OF len] split: if_splits)
  next
    case False
    with assms(1) e show ?thesis by (auto simp: read_slice_nonzero_def run_simps slot_of_def)
  qed
next
  case False
  then have over: "2 ^ 64 \<le> unat off + unat (32 :: u64)" by simp
  have "unat (off + 32) < unat off"
    unfolding unat_add_overflow [OF over] using unat_bound [of off] over by simp
  then have "off + 32 < off" by (simp add: word_less_nat_alt)
  moreover have "\<not> 32 * Suc h \<le> length bs" using over assms(2,3) by simp
  ultimately show ?thesis
    using assms(1) by (auto simp: read_slice_nonzero_def run_simps slot_of_def split: if_splits)
qed

section \<open>The contract of a height index\<close>

text \<open>
  What the canonical index needs of its hot layer: a read returns the slot, a write changes one
  slot, a truncation only removes slots. A slot may always be missing, so the laws bound what
  is present.
\<close>

locale height_index =
  fixes rd :: "'f \<Rightarrow> u64 \<Rightarrow> bytes option result"
    and wr :: "u64 \<Rightarrow> bytes32 \<Rightarrow> ('f, BlockStoreError, unit) operation"
    and tr :: "u64 \<Rightarrow> ('f, BlockStoreError, unit) operation"
    and slot :: "'f \<Rightarrow> u64 \<Rightarrow> bytes32 option"
    and ok :: "'f \<Rightarrow> bool"
    and writable :: "'f \<Rightarrow> bool"
  assumes rd_slot: "ok f \<Longrightarrow> rd f h = Ok r \<Longrightarrow> map_option bytes32_new r = slot f h"
    and wr_ok: "ok f \<Longrightarrow> wr h x f = (Ok u, f') \<Longrightarrow> ok f' \<and> writable f' = writable f"
    and wr_slot: "ok f \<Longrightarrow> writable f \<Longrightarrow> wr h x f = (Ok u, f') \<Longrightarrow> slot f' n = Some y \<Longrightarrow>
          (if n = h then y = x else slot f n = Some y)"
    and tr_ok: "ok f \<Longrightarrow> tr m f = (Ok u, f') \<Longrightarrow> ok f' \<and> writable f' = writable f"
    and tr_slot: "ok f \<Longrightarrow> writable f \<Longrightarrow> tr m f = (Ok u, f') \<Longrightarrow> slot f' n = Some y \<Longrightarrow>
          n \<le> m \<and> slot f n = Some y"
begin

lemma wr_all:
  assumes "ok f" and "writable f" and "forM rows (\<lambda>(x, h). wr h x) f = (Ok u, f')"
  shows "ok f' \<and> writable f' \<and>
    (\<forall>n y. slot f' n = Some y \<longrightarrow>
       (case map_of (rev (map prod.swap rows)) n of Some x \<Rightarrow> y = x | None \<Rightarrow> slot f n = Some y))"
  using assms
proof (induction rows arbitrary: f)
  case Nil
  then show ?case by simp
next
  case (Cons row rows)
  obtain x h where row: "row = (x, h)" by force
  from Cons.prems(3) obtain f1 where w: "wr h x f = (Ok (), f1)"
    and rest: "forM rows (\<lambda>(x, h). wr h x) f1 = (Ok u, f')"
    by (auto simp: row run_simps)
  have f1: "ok f1" "writable f1" using wr_ok [OF Cons.prems(1) w] Cons.prems(2) by auto
  have ih: "ok f' \<and> writable f' \<and> (\<forall>n y. slot f' n = Some y \<longrightarrow>
       (case map_of (rev (map prod.swap rows)) n of Some x \<Rightarrow> y = x | None \<Rightarrow> slot f1 n = Some y))"
    by (rule Cons.IH [OF f1 rest])
  have "case map_of (rev (map prod.swap (row # rows))) n of Some x \<Rightarrow> y = x | None \<Rightarrow> slot f n = Some y"
    if "slot f' n = Some y" for n y
  proof (cases "map_of (rev (map prod.swap rows)) n")
    case None
    have "case map_of (rev (map prod.swap rows)) n of Some x \<Rightarrow> y = x | None \<Rightarrow> slot f1 n = Some y"
      using ih that by blast
    with None have "slot f1 n = Some y" by simp
    from wr_slot [OF Cons.prems(1,2) w this] None show ?thesis
      by (auto simp: row map_add_def split: if_splits)
  next
    case (Some z)
    have "case map_of (rev (map prod.swap rows)) n of Some x \<Rightarrow> y = x | None \<Rightarrow> slot f1 n = Some y"
      using ih that by blast
    with Some show ?thesis by (simp add: row map_add_def)
  qed
  with ih show ?case by blast
qed

end

lemma bin_read_slot:
  assumes "bin_ok bin" and "read_hash_bytes oc bin h = Ok r"
  shows "map_option bytes32_new r = bin_slot bin h"
proof -
  have beyond: "slot_of bs (unat h) = None" if "checked_mul h 32 = None" "length bs < 2 ^ 64" for bs
    using that by (auto simp: checked_mul_def slot_of_def split: if_splits)
  have off: "unat off = 32 * unat h" if "checked_mul h 32 = Some off" for off
    using that unat_mul_below [of h 32] by (simp add: checked_mul_Some)
  show ?thesis
  proof (cases bin)
    case (Rw d)
    with assms show ?thesis
      by (auto simp: read_hash_bytes_def read_slot_nonzero_bytes_def bin_slot_def bin_ok_def beyond
          split: option.splits if_splits dest: off intro!: read_slice_nonzero_slot)
  next
    case (Ro m)
    with assms show ?thesis
      by (auto simp: read_hash_bytes_def bin_slot_def bin_ok_def beyond
          split: option.splits dest: off intro!: read_slice_nonzero_slot)
  next
    case Disabled
    with assms show ?thesis by (simp add: read_hash_bytes_def bin_slot_def slot_of_def)
  qed
qed

lemma in_rw_Ok:
  "in_rw m bin = (Ok u, bin') \<longleftrightarrow>
     (case bin of Rw d \<Rightarrow> (\<exists>d'. m d = (Ok u, d') \<and> bin' = Rw d') | _ \<Rightarrow> bin' = bin)"
  by (cases bin) (auto simp: in_rw_def split: prod.splits)

lemma write_hash_bounded: "write_hash io h x f = (Ok u, f') \<Longrightarrow> 32 * Suc (unat h) < 2 ^ 64"
  by (auto simp: write_hash_def split: option.splits dest: checked_len_Some(2))

lemma truncate_length: "truncate io m f = (Ok u, f') \<Longrightarrow> length (df_bytes f') < 2 ^ 64"
  by (auto simp: truncate_def run_simps split: option.splits intro: unat_bound [where 'a = 64, simplified])

lemma extend_write_ok:
  assumes "bin_ok bin" and "extend_write io h x bin = (Ok u, bin')"
  shows "bin_ok bin' \<and> bin_writable bin' = bin_writable bin"
proof (cases bin)
  case (Rw d)
  with assms(2) obtain d' where w: "write_hash io h x d = (Ok u, d')" and bin': "bin' = Rw d'"
    by (auto simp: extend_write_def in_rw_Ok)
  have wf: "dense_wf (df_bytes d)" "length (df_bytes d) < 2 ^ 64"
    using assms(1) Rw by (auto simp: bin_ok_def)
  have "length (df_bytes d') < 2 ^ 64"
    unfolding write_hash_Ok(3) [OF w wf(1)] using wf(2) write_hash_bounded [OF w] by (simp only: max_less_iff_conj)
  with write_hash_Ok(1) [OF w wf(1)] Rw bin' show ?thesis by (simp add: bin_ok_def)
next
  case (Ro m)
  with assms show ?thesis by (simp add: extend_write_def in_rw_Ok)
next
  case Disabled
  with assms show ?thesis by (simp add: extend_write_def in_rw_Ok)
qed

interpretation bin: height_index "read_hash_bytes oc" "extend_write io" "truncate_to_height io" bin_slot bin_ok bin_writable
proof unfold_locales
  fix f h r assume "bin_ok f" "read_hash_bytes oc f h = Ok r"
  then show "map_option bytes32_new r = bin_slot f h" by (rule bin_read_slot)
next
  fix f h x u f' assume "bin_ok f" "extend_write io h x f = (Ok u, f')"
  then show "bin_ok f' \<and> bin_writable f' = bin_writable f" by (rule extend_write_ok)
next
  fix f h x u f' n y
  assume "bin_ok f" "bin_writable f" "extend_write io h x f = (Ok u, f')" "bin_slot f' n = Some y"
  then show "if n = h then y = x else bin_slot f n = Some y"
    by (auto simp: extend_write_def in_rw_Ok bin_ok_def bin_slot_def write_hash_Ok slot_of_def [of "[]"]
        split: CanonicalBin.splits if_splits dest: unsigned_word_eqI)
next
  fix f m u f' assume "bin_ok f" "truncate_to_height io m f = (Ok u, f')"
  then show "bin_ok f' \<and> bin_writable f' = bin_writable f"
    by (auto simp: truncate_to_height_def in_rw_Ok bin_ok_def truncate_Ok split: CanonicalBin.splits
        dest: truncate_length)
next
  fix f m u f' n y
  assume "bin_ok f" "bin_writable f" "truncate_to_height io m f = (Ok u, f')" "bin_slot f' n = Some y"
  then show "n \<le> m \<and> bin_slot f n = Some y"
    by (auto simp: truncate_to_height_def in_rw_Ok bin_ok_def bin_slot_def truncate_Ok word_le_nat_alt
        slot_of_def [of "[]"] split: CanonicalBin.splits if_splits)
qed

section \<open>Startup recovery\<close>

lemma map_of_rev_distinct: "distinct (map fst xs) \<Longrightarrow> map_of (rev xs) = map_of xs"
  by (simp add: map_of_inject_set rev_map [symmetric])

lemma canonical_rows_Ok:
  "canonical_rows items acc = Ok rows \<Longrightarrow>
    \<exists>xs. items = map Inr xs \<and> (\<forall>(k, v) \<in> set xs. length k = 8 \<and> length v = 32) \<and>
      rows = acc @ map (\<lambda>(k, v). (decode_height_key k, bytes32_new v)) xs"
proof (induction items acc rule: canonical_rows.induct)
  case (1 heights)
  then show ?case by (intro exI [of _ "[]"]) simp
next
  case (2 e items heights)
  then show ?case by simp
next
  case (3 k v items heights)
  then have w: "length k = 8" "length v = 32"
    and "canonical_rows items (heights @ [(decode_height_key k, bytes32_new v)]) = Ok rows"
    by (auto split: if_splits)
  then obtain xs where "items = map Inr xs" "\<forall>(k, v) \<in> set xs. length k = 8 \<and> length v = 32"
    "rows = (heights @ [(decode_height_key k, bytes32_new v)]) @ map (\<lambda>(k, v). (decode_height_key k, bytes32_new v)) xs"
    using 3 by auto
  with w show ?case by (intro exI [of _ "(k, v) # xs"]) auto
qed

lemma canonical_rows_listing:
  assumes "canonical_rows items [] = Ok rows" and it: "iterates items xs"
  shows "\<forall>(k, v) \<in> set xs. length k = 8 \<and> length v = 32"
    and "rows = map (\<lambda>(k, v). (decode_height_key k, bytes32_new v)) xs"
proof -
  obtain ys where ys: "items = map Inr ys" "\<forall>(k, v) \<in> set ys. length k = 8 \<and> length v = 32"
      "rows = map (\<lambda>(k, v). (decode_height_key k, bytes32_new v)) ys"
    using canonical_rows_Ok [OF assms(1)] by auto
  have no_err: "items \<noteq> zs @ [Inl e]" for zs e
  proof
    assume "items = zs @ [Inl e]"
    then have "Inl e \<in> set (map Inr ys)" by (simp flip: ys(1))
    then show False by auto
  qed
  from it no_err have "items = map Inr xs" by (auto simp: iterates_def)
  with ys(1) have "ys = xs" by (simp add: inj_map_eq_map inj_Inr)
  with ys show "\<forall>(k, v) \<in> set xs. length k = 8 \<and> length v = 32"
    "rows = map (\<lambda>(k, v). (decode_height_key k, bytes32_new v)) xs" by auto
qed

lemma place_hash_Ok:
  assumes "place_hash oc buf (h, x) = Ok buf'" and "length buf < 2 ^ 64"
  shows "32 * Suc (unat h) \<le> length buf \<and> buf' = write_at (32 * unat h) (bytes32_octets x) buf"
proof -
  let ?off = "saturating_mul h 32"
  have e: "unat (?off + 32) \<le> length buf" "\<not> ?off + 32 < ?off"
    and buf': "buf' = write_at (unat ?off) (bytes32_octets x) buf"
    using assms(1) by (auto simp: place_hash_def run_simps Let_def split: if_splits)
  have no_over: "unat ?off + unat (32 :: u64) < 2 ^ 64"
  proof (rule ccontr)
    assume "\<not> unat ?off + unat (32 :: u64) < 2 ^ 64"
    then have over: "2 ^ 64 \<le> unat ?off + unat (32 :: u64)" by simp
    then have "unat (?off + 32) < unat ?off"
      unfolding unat_add_overflow [OF over] using unat_bound [of ?off] by simp
    with e(2) show False by (simp add: word_less_nat_alt)
  qed
  have fits: "unat h * unat (32 :: u64) < 2 ^ 64"
  proof (rule ccontr)
    assume "\<not> unat h * unat (32 :: u64) < 2 ^ 64"
    then have "?off = - 1" by (simp add: saturating_mul_def)
    moreover have "unat (- 1 :: u64) = 2 ^ 64 - 1" by (simp add: unsigned_minus_1_eq_mask mask_eq_exp_minus_1)
    ultimately show False using no_over by simp
  qed
  then have "?off = h * 32" by (simp add: saturating_mul_def)
  then have "unat ?off = 32 * unat h" using unat_mul_below [OF fits] by simp
  with e(1) buf' unat_add_below [OF no_over] show ?thesis by simp
qed

lemma place_all_Ok:
  assumes "foldR (place_hash oc) buf rows = Ok buf'" and "length buf < 2 ^ 64"
  shows "length buf' = length buf \<and>
    slot_of buf' (unat n) =
      (case map_of (rev rows) n of Some x \<Rightarrow> if x = 0 then None else Some x
       | None \<Rightarrow> slot_of buf (unat n))"
  using assms
proof (induction rows arbitrary: buf)
  case Nil
  then show ?case by simp
next
  case (Cons row rows)
  obtain h x where row: "row = (h, x)" by force
  from Cons.prems(1) obtain b1 where b1: "place_hash oc buf (h, x) = Ok b1"
    and rest: "foldR (place_hash oc) b1 rows = Ok buf'"
    by (auto simp: row run_simps)
  from place_hash_Ok [OF b1 Cons.prems(2)] have fits: "32 * Suc (unat h) \<le> length buf"
    and eq: "b1 = write_at (32 * unat h) (bytes32_octets x) buf" by auto
  have len: "length b1 = length buf" using fits by (simp add: eq length_write_at)
  have s1: "slot_of b1 (unat n) = (if n = h then (if x = 0 then None else Some x) else slot_of buf (unat n))"
    unfolding eq slot_of_write_at [OF fits] by (auto dest: unsigned_word_eqI)
  show ?case
    using Cons.IH [OF rest] Cons.prems(2) len s1
    by (auto simp: row map_add_def split: option.splits)
qed

lemma dense_bytes_slots:
  assumes dense: "dense_bytes_from_cf oc items = Ok buf"
    and listing: "is_listing m xs" and it: "iterates items xs"
  shows "dense_wf buf" and "length buf < 2 ^ 64"
    and "slot_of buf (unat h) =
      (case m (height_key h) of None \<Rightarrow> None
       | Some v \<Rightarrow> if bytes32_new v = 0 then None else Some (bytes32_new v))"
proof -
  obtain rows where rows: "canonical_rows items [] = Ok rows"
    using dense by (auto simp: dense_bytes_from_cf_def run_simps)
  note widths = canonical_rows_listing(1) [OF rows it]
    and rows_eq = canonical_rows_listing(2) [OF rows it]
  have dist: "distinct (map fst rows)"
  proof -
    have "inj_on decode_height_key (fst ` set xs)"
      using widths by (intro inj_onI) (metis (mono_tags, lifting) case_prodD imageE keys_of_decode(1) prod.collapse)
    then show ?thesis
      using is_listing_distinct [OF listing] unfolding rows_eq
      by (simp add: distinct_map comp_def split_beta inj_on_def)
  qed
  have lookup: "map_of (rev rows) h = map_option bytes32_new (m (height_key h))"
  proof (cases "m (height_key h)")
    case None
    have "h \<notin> fst ` set rows"
    proof
      assume "h \<in> fst ` set rows"
      then obtain k v where kv: "(k, v) \<in> set xs" "h = decode_height_key k" by (auto simp: rows_eq)
      with widths have "height_key h = k" by (auto simp: keys_of_decode)
      with kv(1) None is_listing_mem [OF listing] show False by auto
    qed
    then show ?thesis using None by (simp add: map_of_rev_distinct [OF dist] map_of_eq_None_iff)
  next
    case (Some v)
    then have "(height_key h, v) \<in> set xs" using is_listing_mem [OF listing] by auto
    then have "(h, bytes32_new v) \<in> set rows" by (force simp: rows_eq)
    with Some show ?thesis by (simp add: map_of_rev_distinct [OF dist] dist)
  qed
  have "dense_wf buf \<and> length buf < 2 ^ 64 \<and>
    slot_of buf (unat h) = (case map_of (rev rows) h of None \<Rightarrow> None
       | Some x \<Rightarrow> if x = 0 then None else Some x)"
  proof (cases "rows = []")
    case True
    then show ?thesis using dense rows by (simp add: dense_bytes_from_cf_def dense_wf_def slot_of_def)
  next
    case False
    then have "\<exists>n :: u64. foldR (place_hash oc) (replicate (unat (n * 32)) 0) rows = Ok buf"
      using dense by (auto simp: dense_bytes_from_cf_def rows tryR_Ok plain_mul_Ok Let_def)
    then obtain n len :: u64 where fold: "foldR (place_hash oc) (replicate (unat len) 0) rows = Ok buf"
      and len: "len = n * 32" by blast
    have b: "length (replicate (unat len) (0 :: u8)) < 2 ^ 64"
      using unat_bound [of len] by simp
    have d: "32 dvd unat len" by (simp add: len unat_word_ariths dvd_mod)
    have z: "slot_of (replicate k 0) j = None" for k j
      by (auto simp: slot_of_def bytes32_new_zero list_all_iff)
    from place_all_Ok [OF fold b, of h] b d show ?thesis by (simp add: dense_wf_def z split: option.splits)
  qed
  with lookup show "dense_wf buf" "length buf < 2 ^ 64"
    "slot_of buf (unat h) =
      (case m (height_key h) of None \<Rightarrow> None
       | Some v \<Rightarrow> if bytes32_new v = 0 then None else Some (bytes32_new v))"
    by (auto split: option.splits)
qed

lemma map_file_Ok:
  assumes "map_file io path w (Some bs) = (Ok bin, disk')"
  shows "disk' = Some bs \<and> bin = (if w then Rw \<lparr>df_bytes = bs, df_mapped = True\<rparr> else Ro bs)"
  using assms by (auto simp: map_file_def open_read_write_def map_existing_def run_simps split: if_splits)

lemma open_synced_Ok:
  assumes run: "open_synced io oc has_cf items path w disk = (Ok bin, disk')"
  obtains expected where "dense_bytes_from_cf oc items = Ok expected"
    and "w \<Longrightarrow> bin = Rw \<lparr>df_bytes = expected, df_mapped = True\<rparr> \<and> disk' = Some expected"
    and "\<not> w \<Longrightarrow> disk' = disk \<and> (if disk = Some expected then bin = Ro expected else bin = Disabled)"
proof -
  obtain expected where e: "dense_bytes_from_cf oc items = Ok expected"
    using run by (auto simp: open_synced_def run_simps split: if_splits)
  moreover have "bin = Rw \<lparr>df_bytes = expected, df_mapped = True\<rparr> \<and> disk' = Some expected" if w
    using run e that
    by (auto simp: open_synced_def run_simps split: if_splits option.splits dest!: map_file_Ok)
  moreover have "disk' = disk \<and> (if disk = Some expected then bin = Ro expected else bin = Disabled)" if "\<not> w"
    using run e that
    by (auto simp: open_synced_def run_simps split: if_splits option.splits dest!: map_file_Ok)
  ultimately show ?thesis by (rule that)
qed

text \<open>What a successful opening maps.\<close>

lemma open_synced_slots:
  assumes "open_synced io oc True items path writable disk = (Ok bin, disk')"
    and "is_listing rows xs" and "iterates items xs"
  shows "bin_ok bin \<and>
     (\<forall>h x. bin_slot bin h = Some x \<longrightarrow> (\<exists>v. rows (height_key h) = Some v \<and> x = bytes32_new v)) \<and>
     (writable \<longrightarrow> disk' = Some (bin_bytes bin) \<and>
        (\<forall>h v. rows (height_key h) = Some v \<longrightarrow> bytes32_new v \<noteq> 0 \<longrightarrow> bin_slot bin h = Some (bytes32_new v))) \<and>
     (\<not> writable \<longrightarrow> disk' = disk)"
proof -
  obtain expected where e: "dense_bytes_from_cf oc items = Ok expected"
    and rw: "writable \<Longrightarrow> bin = Rw \<lparr>df_bytes = expected, df_mapped = True\<rparr> \<and> disk' = Some expected"
    and ro: "\<not> writable \<Longrightarrow> disk' = disk \<and> (if disk = Some expected then bin = Ro expected else bin = Disabled)"
    using open_synced_Ok [OF assms(1)] by blast
  note slots = dense_bytes_slots [OF e assms(2,3)]
  have "bin_bytes bin = expected \<or> bin = Disabled"
    using rw ro by (cases writable) (auto split: if_splits)
  then have ok: "bin_ok bin" and some: "bin_slot bin h = Some x \<Longrightarrow> \<exists>v. rows (height_key h) = Some v \<and> x = bytes32_new v"
    for h x
    using slots by (auto simp: bin_ok_def bin_slot_def dense_wf_def slot_of_def [of "[]"] split: option.splits if_splits)
  from ok some rw ro slots(3) show ?thesis by (auto simp: bin_slot_def)
qed



text \<open>
  C40: reading the sidecar at height \<open>2^59 - 1\<close>. The byte offset \<open>32 * height\<close> still fits in
  \<open>usize\<close>, so the checked multiplication succeeds, but the end offset \<open>offset + 32\<close> does not: with
  overflow checks the addition panics, without them the wrapped end is before the start and the
  slice panics. At every other height a read of a mapped file returns.
\<close>

theorem read_hash_bytes_panics:
  assumes "df_mapped d"
  shows "(\<exists>p. read_hash_bytes oc (Rw d) h = Panic p) \<longleftrightarrow> unat h = 2 ^ 59 - 1"
proof (cases "unat h < 2 ^ 59")
  case False
  then have "checked_mul h 32 = None" by (simp add: checked_mul_def)
  with False show ?thesis by (simp add: read_hash_bytes_def read_slot_nonzero_bytes_def)
next
  case True
  then have mul: "unat h * unat (32 :: u64) < 2 ^ 64" by simp
  then have c: "checked_mul h 32 = Some (h * 32)" by (simp add: checked_mul_def)
  have off: "unat (h * 32) = 32 * unat h" using unat_mul_below [OF mul] by simp
  show ?thesis
  proof (cases "unat h = 2 ^ 59 - 1")
    case True
    then have over: "2 ^ 64 \<le> unat (h * 32) + unat (32 :: u64)" by (simp add: off)
    then have "unat (h * 32 + 32) < unat (h * 32)" "unat (h * 32 + 32) = 0"
      unfolding unat_add_overflow [OF over] using True by (simp_all add: off)
    with over True c assms show ?thesis
      by (simp add: read_hash_bytes_def read_slot_nonzero_bytes_def read_slice_nonzero_def
          plain_add_def word_less_nat_alt)
  next
    case False
    with \<open>unat h < 2 ^ 59\<close> have b: "unat (h * 32) + unat (32 :: u64) < 2 ^ 64" by (simp add: off)
    from b have "\<not> h * 32 + 32 < h * 32" by (simp add: word_less_nat_alt unat_add_below [OF b] off)
    with b False c assms show ?thesis
      by (auto simp: read_hash_bytes_def read_slot_nonzero_bytes_def read_slice_nonzero_def
          plain_add_def Let_def)
  qed
qed

theorem read_hash_bytes_panics_witness:
  "\<exists>p. read_hash_bytes False (Rw \<lparr>df_bytes = [], df_mapped = True\<rparr>) 0x7FFFFFFFFFFFFFF = Panic p"
  using read_hash_bytes_panics [where d = "\<lparr>df_bytes = [], df_mapped = True\<rparr>"]
  by simp

end
