(* ===== verification/Store_State.thy ===== *)
theory Store_State
  imports Types Ordered_Map Rocks Sharded_Cache Canonical_Bin
begin

text \<open>
  The state of a block store (\<open>BlockStoreInner\<close> of \<open>src/store.rs\<close>), the third-party code it
  calls, and the small steps the operations are made of: handles of column families, database
  calls with their error conversion, accesses to the caches, counters.

  Locks and atomics guard single accesses and no operation holds one across another call, so an
  operation of one thread is the sequence of its accesses. \<open>Arc\<close> sharing does not show.
\<close>

section \<open>Third-party code\<close>

text \<open>
  RocksDB, the three LRU caches, the operating system, and of \<open>dig_block\<close>, \<open>dig_epoch\<close>,
  \<open>bincode\<close>, \<open>zstd\<close>, \<open>rand\<close> and \<open>tokio\<close> the functions the crate calls. \<open>dp_oc\<close> tells whether
  the build has overflow checks; \<open>dp_block_size\<close> and \<open>dp_record_size\<close> are \<open>size_of\<close> of the element
  types of two vectors. The errors of the calls are their messages.
\<close>

record ('d, 'b, 'h, 'g) deps =
  dp_rocks :: "'d rocksdb"
  dp_block_lru :: "('b, L2Block) lru_ops"
  dp_header_lru :: "('h, L2BlockHeader) lru_ops"
  dp_height_lru :: "('g, u64) lru_ops"
  dp_io :: io_env
  dp_oc :: bool
  dp_header_hash :: "L2BlockHeader \<Rightarrow> bytes32"
  dp_block_hash :: "L2Block \<Rightarrow> bytes32"
  dp_block_height :: "L2Block \<Rightarrow> u64"
  dp_is_canonical :: "BlockStatus \<Rightarrow> bool"
  dp_show_hash :: "bytes32 \<Rightarrow> string"
  dp_ser_block :: "L2Block \<Rightarrow> string + bytes"
  dp_de_block :: "bytes \<Rightarrow> string + L2Block"
  dp_ser_header :: "L2BlockHeader \<Rightarrow> string + bytes"
  dp_de_header :: "bytes \<Rightarrow> string + L2BlockHeader"
  dp_encode_all :: "bytes \<Rightarrow> int \<Rightarrow> string + bytes"
  dp_decode_all :: "bytes \<Rightarrow> string + bytes"
  dp_compressor :: "int \<Rightarrow> bytes \<Rightarrow> string + unit"
  dp_compress :: "int \<Rightarrow> bytes \<Rightarrow> bytes \<Rightarrow> string + bytes"
  dp_decompressor :: "bytes \<Rightarrow> string + unit"
  dp_decompress :: "bytes \<Rightarrow> bytes \<Rightarrow> usize \<Rightarrow> string + bytes"
  dp_shuffle :: "bytes list \<Rightarrow> bytes list"
  dp_from_samples :: "bytes list \<Rightarrow> usize \<Rightarrow> string + bytes"
  dp_block_size :: nat
  dp_record_size :: nat
  dp_first_height_in_epoch :: "u64 \<Rightarrow> u64"
  dp_epoch_checkpoint_height :: "u64 \<Rightarrow> u64"
  dp_show_join :: "string \<Rightarrow> string"
  dp_ser_attested :: "AttestedBlock \<Rightarrow> string + bytes"
  dp_de_attested :: "bytes \<Rightarrow> string + AttestedBlock"
  dp_ser_checkpoint :: "StoredCheckpoint \<Rightarrow> string + bytes"
  dp_de_checkpoint :: "bytes \<Rightarrow> string + StoredCheckpoint"
  dp_ser_manifest :: "SnapshotManifest \<Rightarrow> string + bytes"
  dp_de_manifest :: "bytes \<Rightarrow> string + SnapshotManifest \<times> bytes"
  dp_sha256 :: "bytes \<Rightarrow> bytes32"
  dp_stream_block :: "L2Block \<Rightarrow> string + bytes"
  dp_parse_block :: "bytes \<Rightarrow> string + L2Block"

section \<open>BlockStoreInner\<close>

text \<open>
  One field per field of the struct. \<open>compaction_filters\<close> records whether the database handle was
  opened with the pruning filters of \<open>cf_options.rs\<close>, which in the code is a property of \<open>db\<close>.
\<close>

record ('d, 'b, 'h, 'g) store =
  db :: 'd
  compaction_filters :: bool
  read_only :: bool
  tip :: "ChainTip option"
  warm_blocks_loaded :: usize
  compression_level :: int
  use_compression_dict :: bool
  max_decompressed_block_bytes :: usize
  zstd_dict :: "bytes option"
  record_cache :: "bytes32 \<Rightarrow> BlockRecord option"
  block_cache :: "'b ShardedLruCache"
  cf_blocks_physical_gets :: usize
  cf_blocks_multi_get_batches :: usize
  cf_blocks_stream_physical_gets :: usize
  readahead_size :: usize
  header_cache :: "'h ShardedLruCache"
  cf_headers_physical_gets :: usize
  pipeline_batch_size :: usize
  pipeline_flush_ms :: u64
  pipeline_channel_capacity :: usize
  pipeline_write_batches :: usize
  canonical_bin :: CanonicalBin
  min_retained_height_cached :: u64
  canonical_height_cache :: "bytes32 btree"
  canonical_height_cache_capacity :: usize
  hash_to_height_cache :: "'g ShardedLruCache"

type_synonym ('d, 'b, 'h, 'g, 'a) store_op =
  "(('d, 'b, 'h, 'g) store, BlockStoreError, 'a) operation"

section \<open>Database access\<close>

definition cf_handle :: "('d, 'b, 'h, 'g) deps \<Rightarrow> string \<Rightarrow> ('d, 'b, 'h, 'g, unit) store_op" where
  "cf_handle D name =
     (\<lambda>s. if rk_cf_handle (dp_rocks D) (db s) name then (Ok (), s)
          else (Err (Serialization (''missing column family '' @ name)), s))"

definition db_get ::
  "('d, 'b, 'h, 'g) deps \<Rightarrow> string \<Rightarrow> bytes \<Rightarrow> ('d, 'b, 'h, 'g, bytes option) store_op" where
  "db_get D cf k = (\<lambda>s. (of_sum RocksDb (rk_get_cf (dp_rocks D) (db s) cf k), s))"

definition db_put ::
  "('d, 'b, 'h, 'g) deps \<Rightarrow> string \<Rightarrow> bytes \<Rightarrow> bytes \<Rightarrow> ('d, 'b, 'h, 'g, unit) store_op" where
  "db_put D cf k v =
     (\<lambda>s. case rk_put_cf (dp_rocks D) (db s) cf k v of
            Inl e \<Rightarrow> (Err (RocksDb e), s)
          | Inr d \<Rightarrow> (Ok (), s\<lparr>db := d\<rparr>))"

definition db_write ::
  "('d, 'b, 'h, 'g) deps \<Rightarrow> write_batch \<Rightarrow> ('d, 'b, 'h, 'g, unit) store_op" where
  "db_write D batch =
     (\<lambda>s. case rk_write (dp_rocks D) (db s) batch of
            Inl e \<Rightarrow> (Err (RocksDb e), s)
          | Inr d \<Rightarrow> (Ok (), s\<lparr>db := d\<rparr>))"

definition db_iter ::
  "('d, 'b, 'h, 'g) deps \<Rightarrow> string \<Rightarrow> iter_mode \<Rightarrow>
    ('d, 'b, 'h, 'g, (string + bytes \<times> bytes) list) store_op" where
  "db_iter D cf mode = getM (\<lambda>s. rk_iterator_cf (dp_rocks D) (db s) cf mode)"

text \<open>\<open>item?\<close> on an item of an iterator.\<close>

definition next_item :: "string + 'a \<Rightarrow> ('s, BlockStoreError, 'a) operation" where
  "next_item item = liftM (of_sum RocksDb item)"

section \<open>Caches and sidecar\<close>

definition block_cache_get ::
  "('d, 'b, 'h, 'g) deps \<Rightarrow> bytes32 \<Rightarrow> ('d, 'b, 'h, 'g, L2Block option) store_op" where
  "block_cache_get D h =
     (\<lambda>s. case get_clone (dp_block_lru D) (block_cache s) h of (v, c) \<Rightarrow> (Ok v, s\<lparr>block_cache := c\<rparr>))"

definition header_cache_get ::
  "('d, 'b, 'h, 'g) deps \<Rightarrow> bytes32 \<Rightarrow> ('d, 'b, 'h, 'g, L2BlockHeader option) store_op" where
  "header_cache_get D h =
     (\<lambda>s. case get_clone (dp_header_lru D) (header_cache s) h of (v, c) \<Rightarrow> (Ok v, s\<lparr>header_cache := c\<rparr>))"

definition block_cache_insert ::
  "('d, 'b, 'h, 'g) deps \<Rightarrow> bytes32 \<Rightarrow> L2Block \<Rightarrow> ('d, 'b, 'h, 'g, unit) store_op" where
  "block_cache_insert D h b =
     modifyM (\<lambda>s. s\<lparr>block_cache := cache_insert (dp_block_lru D) (block_cache s) h b\<rparr>)"

definition header_cache_insert ::
  "('d, 'b, 'h, 'g) deps \<Rightarrow> bytes32 \<Rightarrow> L2BlockHeader \<Rightarrow> ('d, 'b, 'h, 'g, unit) store_op" where
  "header_cache_insert D h hdr =
     modifyM (\<lambda>s. s\<lparr>header_cache := cache_insert (dp_header_lru D) (header_cache s) h hdr\<rparr>)"

definition hash_to_height_insert ::
  "('d, 'b, 'h, 'g) deps \<Rightarrow> bytes32 \<Rightarrow> u64 \<Rightarrow> ('d, 'b, 'h, 'g, unit) store_op" where
  "hash_to_height_insert D h n =
     modifyM (\<lambda>s. s\<lparr>hash_to_height_cache := cache_insert (dp_height_lru D) (hash_to_height_cache s) h n\<rparr>)"

definition record_cache_insert :: "bytes32 \<Rightarrow> BlockRecord \<Rightarrow> ('d, 'b, 'h, 'g, unit) store_op" where
  "record_cache_insert h r = modifyM (\<lambda>s. s\<lparr>record_cache := (record_cache s)(h \<mapsto> r)\<rparr>)"

text \<open>\<open>BlockRecord::from_header(header, BlockStatus::Validated)\<close>.\<close>

definition record_of_header :: "('d, 'b, 'h, 'g) deps \<Rightarrow> L2BlockHeader \<Rightarrow> BlockRecord" where
  "record_of_header D hdr = from_header (dp_header_hash D) (dp_is_canonical D) hdr Validated"

text \<open>A step on \<open>canonical_bin\<close> under its lock.\<close>

definition with_bin ::
  "(CanonicalBin, BlockStoreError, unit) operation \<Rightarrow> ('d, 'b, 'h, 'g, unit) store_op" where
  "with_bin m = (\<lambda>s. case m (canonical_bin s) of (r, bin) \<Rightarrow> (r, s\<lparr>canonical_bin := bin\<rparr>))"

text \<open>
  \<open>insert_canonical_height_cache\<close> (\<open>src/canonical/index.rs\<close>): insert, then drop lowest heights
  while the map is over capacity.
\<close>

function evict_lowest :: "nat \<Rightarrow> bytes32 btree \<Rightarrow> bytes32 btree" where
  "evict_lowest cap [] = []"
| "evict_lowest cap ((k, v) # t) =
     (if cap < length ((k, v) # t) then evict_lowest cap (bt_remove k ((k, v) # t)) else (k, v) # t)"
  by pat_completeness auto
termination
  by (relation "measure (\<lambda>(_, t). length t)") (auto simp: bt_remove_def le_imp_less_Suc)

declare evict_lowest.simps [simp del]

definition insert_canonical_height_cache :: "u64 \<Rightarrow> bytes32 \<Rightarrow> ('d, 'b, 'h, 'g, unit) store_op" where
  "insert_canonical_height_cache height hash =
     modifyM (\<lambda>s. if canonical_height_cache_capacity s = 0 then s
        else s\<lparr>canonical_height_cache :=
               evict_lowest (unat (canonical_height_cache_capacity s))
                 (bt_insert height hash (canonical_height_cache s))\<rparr>)"

section \<open>Plain accessors\<close>

definition chain_height :: "('d, 'b, 'h, 'g) store \<Rightarrow> u64 option" where
  "chain_height s = map_option tip_height (tip s)"

definition min_retained_height :: "('d, 'b, 'h, 'g, u64) store_op" where
  "min_retained_height = getM min_retained_height_cached"

definition disable_canonical_bin_acceleration :: "('d, 'b, 'h, 'g, unit) store_op" where
  "disable_canonical_bin_acceleration = modifyM (\<lambda>s. s\<lparr>canonical_bin := disable (canonical_bin s)\<rparr>)"

definition invalidate_block_cache_entry ::
  "('d, 'b, 'h, 'g) deps \<Rightarrow> bytes32 \<Rightarrow> ('d, 'b, 'h, 'g, unit) store_op" where
  "invalidate_block_cache_entry D hash =
     modifyM (\<lambda>s. s\<lparr>block_cache := cache_remove (dp_block_lru D) (block_cache s) hash\<rparr>)"

definition invalidate_header_cache_entry ::
  "('d, 'b, 'h, 'g) deps \<Rightarrow> bytes32 \<Rightarrow> ('d, 'b, 'h, 'g, unit) store_op" where
  "invalidate_header_cache_entry D hash =
     modifyM (\<lambda>s. s\<lparr>header_cache := cache_remove (dp_header_lru D) (header_cache s) hash\<rparr>)"

definition invalidate_record_cache_entry :: "bytes32 \<Rightarrow> ('d, 'b, 'h, 'g, unit) store_op" where
  "invalidate_record_cache_entry hash =
     modifyM (\<lambda>s. s\<lparr>record_cache := (record_cache s)(hash := None)\<rparr>)"

text \<open>The refusal of every mutating operation on a read-only store.\<close>

definition require_writable :: "('d, 'b, 'h, 'g, unit) store_op" where
  "require_writable =
     (\<lambda>s. if read_only s then (Err (Serialization ERR_MUTATION_READ_ONLY), s) else (Ok (), s))"

text \<open>An operation on the store next to other state (a stream, a log of answers).\<close>

definition on_store ::
  "('d, 'b, 'h, 'g, 'a) store_op \<Rightarrow> (('d, 'b, 'h, 'g) store \<times> 'x, BlockStoreError, 'a) operation" where
  "on_store m = (\<lambda>(s, x). case m s of (r, s') \<Rightarrow> (r, (s', x)))"

section \<open>Inversion and frames of the small steps\<close>

lemma small_steps_Ok [run_simps]:
  "cf_handle D name s = (Ok u, s') \<longleftrightarrow> rk_cf_handle (dp_rocks D) (db s) name \<and> s' = s"
  "db_get D cf k s = (Ok r, s') \<longleftrightarrow> rk_get_cf (dp_rocks D) (db s) cf k = Inr r \<and> s' = s"
  "db_put D cf k v s = (Ok u, s') \<longleftrightarrow> (\<exists>d. rk_put_cf (dp_rocks D) (db s) cf k v = Inr d \<and> s' = s\<lparr>db := d\<rparr>)"
  "db_write D b s = (Ok u, s') \<longleftrightarrow> (\<exists>d. rk_write (dp_rocks D) (db s) b = Inr d \<and> s' = s\<lparr>db := d\<rparr>)"
  "db_iter D cf mode s = (Ok it, s') \<longleftrightarrow> it = rk_iterator_cf (dp_rocks D) (db s) cf mode \<and> s' = s"
  "next_item item t = (Ok x, t') \<longleftrightarrow> item = Inr x \<and> t' = t"
  "require_writable s = (Ok u, s') \<longleftrightarrow> \<not> read_only s \<and> s' = s"
  "block_cache_get D h s = (Ok y, s') \<longleftrightarrow>
     y = fst (get_clone (dp_block_lru D) (block_cache s) h) \<and>
     s' = s\<lparr>block_cache := snd (get_clone (dp_block_lru D) (block_cache s) h)\<rparr>"
  "header_cache_get D h s = (Ok w, s') \<longleftrightarrow>
     w = fst (get_clone (dp_header_lru D) (header_cache s) h) \<and>
     s' = s\<lparr>header_cache := snd (get_clone (dp_header_lru D) (header_cache s) h)\<rparr>"
  "with_bin m s = (Ok u, s') \<longleftrightarrow> (\<exists>bin. m (canonical_bin s) = (Ok u, bin) \<and> s' = s\<lparr>canonical_bin := bin\<rparr>)"
  by (auto simp: cf_handle_def db_get_def db_put_def db_write_def db_iter_def next_item_def
      require_writable_def block_cache_get_def header_cache_get_def with_bin_def run_simps
      split: sum.splits prod.splits)

lemma unchanged_reads [frame_rules]:
  "unchanged g (cf_handle D name)" "unchanged g (db_get D cf k)" "unchanged g (db_iter D cf mode)"
  "unchanged g (next_item item)" "unchanged g require_writable" "unchanged g min_retained_height"
  by (auto intro!: unchanged_same simp: cf_handle_def db_get_def db_iter_def next_item_def
      require_writable_def min_retained_height_def)

lemma unchanged_steps [frame_rules]:
  "(\<And>s x. g (s\<lparr>db := x\<rparr>) = g s) \<Longrightarrow> unchanged g (db_put D cf k v)"
  "(\<And>s x. g (s\<lparr>db := x\<rparr>) = g s) \<Longrightarrow> unchanged g (db_write D batch)"
  "(\<And>s x. g (s\<lparr>block_cache := x\<rparr>) = g s) \<Longrightarrow> unchanged g (block_cache_get D h)"
  "(\<And>s x. g (s\<lparr>header_cache := x\<rparr>) = g s) \<Longrightarrow> unchanged g (header_cache_get D h)"
  "(\<And>s x. g (s\<lparr>block_cache := x\<rparr>) = g s) \<Longrightarrow> unchanged g (block_cache_insert D h blk)"
  "(\<And>s x. g (s\<lparr>header_cache := x\<rparr>) = g s) \<Longrightarrow> unchanged g (header_cache_insert D h hdr)"
  "(\<And>s x. g (s\<lparr>hash_to_height_cache := x\<rparr>) = g s) \<Longrightarrow> unchanged g (hash_to_height_insert D h n)"
  "(\<And>s x. g (s\<lparr>record_cache := x\<rparr>) = g s) \<Longrightarrow> unchanged g (record_cache_insert h r)"
  "(\<And>s x. g (s\<lparr>canonical_height_cache := x\<rparr>) = g s) \<Longrightarrow> unchanged g (insert_canonical_height_cache n h)"
  "(\<And>s x. g (s\<lparr>canonical_bin := x\<rparr>) = g s) \<Longrightarrow> unchanged g (with_bin m)"
  by (auto simp: unchanged_def db_put_def db_write_def block_cache_get_def header_cache_get_def
      block_cache_insert_def header_cache_insert_def hash_to_height_insert_def record_cache_insert_def
      insert_canonical_height_cache_def with_bin_def split: sum.splits prod.splits)

lemmas cache_step_defs = block_cache_insert_def header_cache_insert_def hash_to_height_insert_def
  record_cache_insert_def insert_canonical_height_cache_def

end
