(* ===== verification/Compression.thy ===== *)
theory Compression
  imports Store_State
begin

text \<open>
  Serialization of blocks and headers and the life of the zstd dictionary
  (\<open>src/compression.rs\<close>).

  The lemmas show that a payload written by \<open>serialize_block\<close> reads back as the same block, also
  after a dictionary has been trained in between, and that training changes nothing but the
  dictionary slot and its metadata row.
\<close>

section \<open>Operations\<close>

definition serialize_header :: "('d, 'b, 'h, 'g) deps \<Rightarrow> L2BlockHeader \<Rightarrow> bytes result" where
  "serialize_header D hdr = of_sum Serialization (dp_ser_header D hdr)"

definition deserialize_header :: "('d, 'b, 'h, 'g) deps \<Rightarrow> bytes \<Rightarrow> L2BlockHeader result" where
  "deserialize_header D bs = of_sum Serialization (dp_de_header D bs)"

definition serialize_block ::
  "('d, 'b, 'h, 'g) deps \<Rightarrow> L2Block \<Rightarrow> ('d, 'b, 'h, 'g, bytes) store_op" where
  "serialize_block D block =
     tryM (liftM (of_sum from_bincode_error (dp_ser_block D block))) (\<lambda>raw.
     tryM (getM id) (\<lambda>s.
     let plain = liftM (of_sum compression_from_io (dp_encode_all D raw (compression_level s)))
     in if use_compression_dict s then
          (case zstd_dict s of
             Some dict \<Rightarrow>
               tryM (liftM (of_sum Compression (dp_compressor D (compression_level s) dict))) (\<lambda>_.
               liftM (of_sum compression_from_io (dp_compress D (compression_level s) dict raw)))
           | None \<Rightarrow> plain)
        else plain))"

definition decompress_block_payload ::
  "('d, 'b, 'h, 'g) deps \<Rightarrow> ('d, 'b, 'h, 'g) store \<Rightarrow> bytes \<Rightarrow> string + bytes" where
  "decompress_block_payload D s compressed =
     (if use_compression_dict s then
        (case zstd_dict s of
           Some dict \<Rightarrow>
             (case dp_decompressor D dict of
                Inl e \<Rightarrow> Inl e
              | Inr _ \<Rightarrow>
                  (case dp_decompress D dict compressed (max_decompressed_block_bytes s) of
                     Inr bs \<Rightarrow> Inr bs
                   | Inl _ \<Rightarrow> dp_decode_all D compressed))
         | None \<Rightarrow> dp_decode_all D compressed)
      else dp_decode_all D compressed)"

definition deserialize_block ::
  "('d, 'b, 'h, 'g) deps \<Rightarrow> bytes \<Rightarrow> ('d, 'b, 'h, 'g, L2Block) store_op" where
  "deserialize_block D compressed =
     tryM (\<lambda>s. (of_sum (\<lambda>e. Serialization (''deserialize_block: decompress failed: '' @ e))
                  (decompress_block_payload D s compressed), s)) (\<lambda>raw.
     liftM (of_sum Serialization (dp_de_block D raw)))"

definition block_count :: "('d, 'b, 'h, 'g) deps \<Rightarrow> ('d, 'b, 'h, 'g, u64) store_op" where
  "block_count D =
     tryM (cf_handle D CF_BLOCKS) (\<lambda>_.
     tryM (db_iter D CF_BLOCKS IterStart) (\<lambda>items.
     foldM (\<lambda>n item. tryM (next_item item) (\<lambda>_. returnM (saturating_add n 1))) 0 items))"

definition load_zstd_dict_from_db ::
  "('d, 'b, 'h, 'g) deps \<Rightarrow> 'd \<Rightarrow> bool \<Rightarrow> bytes option result" where
  "load_zstd_dict_from_db D d use_dict =
     (if \<not> use_dict then Ok None
      else if \<not> rk_cf_handle (dp_rocks D) d CF_METADATA
      then Err (Serialization ''missing CF_METADATA'')
      else tryR (of_sum RocksDb (rk_get_cf (dp_rocks D) d CF_METADATA (as_bytes META_ZSTD_DICT)))
             (\<lambda>r. case r of None \<Rightarrow> Ok None
                | Some blob \<Rightarrow> if blob = [] then Ok None else Ok (Some blob)))"

definition resolve_zstd_dictionary ::
  "('d, 'b, 'h, 'g) deps \<Rightarrow> 'd \<Rightarrow> bool \<Rightarrow> bytes option \<Rightarrow> bytes option result" where
  "resolve_zstd_dictionary D d use_dict override =
     (case override of
        Some bs \<Rightarrow> if bs = [] then Ok None else Ok (Some bs)
      | None \<Rightarrow> load_zstd_dict_from_db D d use_dict)"

definition init_dictionary :: "('d, 'b, 'h, 'g) deps \<Rightarrow> ('d, 'b, 'h, 'g, unit) store_op" where
  "init_dictionary D =
     tryM (\<lambda>s. (load_zstd_dict_from_db D (db s) (use_compression_dict s), s)) (\<lambda>loaded.
     modifyM (\<lambda>s. s\<lparr>zstd_dict := loaded\<rparr>))"

definition sample_block_bodies ::
  "('d, 'b, 'h, 'g) deps \<Rightarrow> usize \<Rightarrow> ('d, 'b, 'h, 'g, bytes list) store_op" where
  "sample_block_bodies D sample_count =
     tryM (cf_handle D CF_BLOCKS) (\<lambda>_.
     tryM (db_iter D CF_BLOCKS IterStart) (\<lambda>items.
     tryM (foldM (\<lambda>blobs item. tryM (next_item item) (\<lambda>(k, v). returnM (blobs @ [v]))) [] items) (\<lambda>blobs.
     if length blobs < unat sample_count
     then failM (Serialization (''dictionary training: need at least '' @ show_word sample_count @
            '' blocks in '' @ CF_BLOCKS @ '', have '' @ dec_digits (length blobs)))
     else
       tryM (liftM (vec_with_capacity 24 sample_count)) (\<lambda>_.
       foldM (\<lambda>samples compressed.
           tryM (\<lambda>s. (of_sum (\<lambda>e. Serialization (''dictionary training sample decompress: '' @ e))
                        (decompress_block_payload D s compressed), s)) (\<lambda>raw.
           returnM (samples @ [raw]))) []
         (take (unat sample_count) (dp_shuffle D blobs))))))"

definition train_dictionary :: "('d, 'b, 'h, 'g) deps \<Rightarrow> ('d, 'b, 'h, 'g, bytes) store_op" where
  "train_dictionary D =
     tryM (cf_handle D CF_METADATA) (\<lambda>_.
     tryM (db_get D CF_METADATA (as_bytes META_ZSTD_DICT)) (\<lambda>r.
     case r of
       Some (x # xs) \<Rightarrow> returnM (x # xs)
     | _ \<Rightarrow>
       tryM (sample_block_bodies D DICT_TRAINING_THRESHOLD) (\<lambda>samples.
       tryM (liftM (of_sum (\<lambda>e. Serialization (''dictionary training failed: '' @ e))
                     (dp_from_samples D samples DICT_TARGET_SIZE))) (\<lambda>dict.
       tryM (db_put D CF_METADATA (as_bytes META_ZSTD_DICT) dict) (\<lambda>_.
       returnM dict)))))"

definition maybe_train_dictionary :: "('d, 'b, 'h, 'g) deps \<Rightarrow> ('d, 'b, 'h, 'g, unit) store_op" where
  "maybe_train_dictionary D =
     tryM (getM id) (\<lambda>s.
     if \<not> use_compression_dict s then returnM ()
     else if zstd_dict s \<noteq> None then returnM ()
     else
       tryM (cf_handle D CF_METADATA) (\<lambda>_.
       tryM (db_get D CF_METADATA (as_bytes META_ZSTD_DICT)) (\<lambda>r.
       if r \<noteq> None \<and> r \<noteq> Some [] then init_dictionary D
       else
         tryM (block_count D) (\<lambda>n.
         if n < DICT_TRAINING_THRESHOLD then returnM ()
         else
           tryM (train_dictionary D) (\<lambda>dict.
           modifyM (\<lambda>s. s\<lparr>zstd_dict := Some dict\<rparr>))))))"

section \<open>The laws of the codecs\<close>

text \<open>
  \<open>dig_block\<close>: the hash and the height of a block are those of its header. \<open>bincode\<close>: what was
  serialized reads back. \<open>zstd\<close>: a plain frame decodes to its input; a dictionary frame decodes
  under its dictionary whenever the output fits the given bound; a decoder never returns
  anything but the input of the frame (it fails instead).
\<close>

locale codec_laws =
  fixes D :: "('d, 'b, 'h, 'g) deps"
  assumes block_hash_header: "dp_block_hash D b = dp_header_hash D (blk_header b)"
    and block_height_header: "dp_block_height D b = hd_height (blk_header b)"
    and de_ser_block: "dp_ser_block D b = Inr raw \<Longrightarrow> dp_de_block D raw = Inr b"
    and de_ser_header: "dp_ser_header D hdr = Inr raw \<Longrightarrow> dp_de_header D raw = Inr hdr"
    and plain_frame: "dp_encode_all D raw lvl = Inr c \<Longrightarrow> dp_decode_all D c = Inr raw"
    and plain_under_dict: "dp_encode_all D raw lvl = Inr c \<Longrightarrow> dp_decompress D dict c cap = Inr r \<Longrightarrow> r = raw"
    and dict_frame: "dp_compress D lvl dict raw = Inr c \<Longrightarrow> dp_decompress D dict c cap = Inr r \<Longrightarrow> r = raw"
    and dict_frame_fits: "dp_compress D lvl dict raw = Inr c \<Longrightarrow> length raw \<le> unat cap \<Longrightarrow>
          dp_decompress D dict c cap = Inr raw"
    and dict_without: "dp_compress D lvl dict raw = Inr c \<Longrightarrow> dp_decode_all D c = Inr r \<Longrightarrow> r = raw"
    and de_ser_attested: "dp_ser_attested D a = Inr raw \<Longrightarrow> dp_de_attested D raw = Inr a"
    and de_ser_checkpoint: "dp_ser_checkpoint D ck = Inr raw \<Longrightarrow> dp_de_checkpoint D raw = Inr ck"
    and de_ser_manifest: "dp_ser_manifest D m = Inr raw \<Longrightarrow> dp_de_manifest D (raw @ rest) = Inr (m, rest)"
    and parse_stream_block: "dp_stream_block D b = Inr raw \<Longrightarrow> dp_parse_block D raw = Inr b"

definition active_dict :: "('d, 'b, 'h, 'g) store \<Rightarrow> bytes option" where
  "active_dict s = (if use_compression_dict s then zstd_dict s else None)"

text \<open>\<open>c\<close> is a frame of \<open>raw\<close>, plain or under the dictionary \<open>dict\<close>.\<close>

definition frame_of :: "('d, 'b, 'h, 'g) deps \<Rightarrow> bytes option \<Rightarrow> bytes \<Rightarrow> bytes \<Rightarrow> bool" where
  "frame_of D dict raw c \<longleftrightarrow>
     (\<exists>lvl. dp_encode_all D raw lvl = Inr c) \<or>
     (\<exists>d lvl. dict = Some d \<and> dp_compress D lvl d raw = Inr c)"

definition block_frame :: "('d, 'b, 'h, 'g) deps \<Rightarrow> bytes option \<Rightarrow> L2Block \<Rightarrow> bytes \<Rightarrow> bool" where
  "block_frame D dict b c \<longleftrightarrow> (\<exists>raw. dp_ser_block D b = Inr raw \<and> frame_of D dict raw c)"

lemma block_frame_mono: "block_frame D None b c \<Longrightarrow> block_frame D dict b c"
  by (auto simp: block_frame_def frame_of_def)

lemma decompress_active:
  "decompress_block_payload D s c =
     (case active_dict s of None \<Rightarrow> dp_decode_all D c
      | Some dict \<Rightarrow>
          (case dp_decompressor D dict of Inl e \<Rightarrow> Inl e
           | Inr _ \<Rightarrow>
               (case dp_decompress D dict c (max_decompressed_block_bytes s) of
                  Inr bs \<Rightarrow> Inr bs | Inl _ \<Rightarrow> dp_decode_all D c)))"
  by (simp add: decompress_block_payload_def active_dict_def)

lemma serialize_block_Ok:
  assumes "serialize_block D b s = (Ok c, s')"
  shows "s' = s \<and> block_frame D (active_dict s) b c"
  using assms
  by (auto simp: serialize_block_def run_simps block_frame_def frame_of_def active_dict_def Let_def
      split: if_splits option.splits)

lemma serialize_header_Ok [run_simps]: "serialize_header D hdr = Ok bs \<longleftrightarrow> dp_ser_header D hdr = Inr bs"
  by (simp add: serialize_header_def run_simps)

lemma deserialize_header_Ok [run_simps]: "deserialize_header D bs = Ok hdr \<longleftrightarrow> dp_de_header D bs = Inr hdr"
  by (simp add: deserialize_header_def run_simps)

lemma deserialize_block_Ok:
  "deserialize_block D c s = (Ok b, s') \<longleftrightarrow>
     s' = s \<and> (\<exists>raw. decompress_block_payload D s c = Inr raw \<and> dp_de_block D raw = Inr b)"
  by (auto simp: deserialize_block_def run_simps)

context codec_laws
begin

lemma frame_decode_all: "frame_of D dict raw c \<Longrightarrow> dp_decode_all D c = Inr r \<Longrightarrow> r = raw"
  by (auto simp: frame_of_def plain_frame dest: dict_without)

lemma decompress_frame:
  "frame_of D (active_dict s) raw c \<Longrightarrow> decompress_block_payload D s c = Inr r \<Longrightarrow> r = raw"
  by (auto simp: decompress_active frame_of_def plain_frame split: option.splits sum.splits
      dest: plain_under_dict dict_frame dict_without)

lemma deserialize_block_sound:
  assumes "block_frame D (active_dict s) b c" and "deserialize_block D c s = (Ok b', s')"
  shows "b' = b"
  using assms decompress_frame de_ser_block
  by (fastforce simp: block_frame_def deserialize_block_Ok)

lemma deserialize_block_complete:
  assumes "block_frame D (active_dict s) b c"
    and "\<And>raw. dp_ser_block D b = Inr raw \<Longrightarrow> length raw \<le> unat (max_decompressed_block_bytes s)"
    and "\<And>d. active_dict s = Some d \<Longrightarrow> dp_decompressor D d = Inr ()"
  shows "deserialize_block D c s = (Ok b, s)"
proof -
  obtain raw where raw: "dp_ser_block D b = Inr raw" and fr: "frame_of D (active_dict s) raw c"
    using assms(1) by (auto simp: block_frame_def)
  have "decompress_block_payload D s c = Inr raw"
    using fr assms(2) [OF raw] assms(3)
    by (auto simp: decompress_active frame_of_def plain_frame dict_frame_fits
        split: option.splits sum.splits dest: plain_under_dict)
  with de_ser_block [OF raw] show ?thesis by (auto simp: deserialize_block_Ok)
qed

end

section \<open>Frames of the dictionary operations\<close>

lemma unchanged_serialize [frame_rules]: "unchanged g (serialize_block D b)"
  unfolding serialize_block_def Let_def by (intro frame_rules)

lemma unchanged_payload [frame_rules]:
  "unchanged g (\<lambda>s. (of_sum f (decompress_block_payload D s c), s))"
  by (simp add: unchanged_def)

lemma unchanged_deserialize [frame_rules]: "unchanged g (deserialize_block D c)"
  unfolding deserialize_block_def by (intro frame_rules)

lemma unchanged_block_count [frame_rules]: "unchanged g (block_count D)"
  unfolding block_count_def by (intro frame_rules)

lemma unchanged_samples [frame_rules]: "unchanged g (sample_block_bodies D n)"
  unfolding sample_block_bodies_def by (intro frame_rules)

lemma unchanged_train [frame_rules]:
  "(\<And>s x. g (s\<lparr>db := x\<rparr>) = g s) \<Longrightarrow> unchanged g (train_dictionary D)"
  unfolding train_dictionary_def by (intro frame_rules)

lemma unchanged_init_dictionary [frame_rules]:
  "(\<And>s x. g (s\<lparr>zstd_dict := x\<rparr>) = g s) \<Longrightarrow> unchanged g (init_dictionary D)"
  unfolding init_dictionary_def by (intro frame_rules unchanged_same) auto

lemma unchanged_maybe_train [frame_rules]:
  "(\<And>s x. g (s\<lparr>db := x\<rparr>) = g s) \<Longrightarrow> (\<And>s x. g (s\<lparr>zstd_dict := x\<rparr>) = g s) \<Longrightarrow>
    unchanged g (maybe_train_dictionary D)"
  unfolding maybe_train_dictionary_def by (intro frame_rules)

text \<open>
  Training, whatever it returns, installs a dictionary only where none was active and writes only
  the row of the dictionary.
\<close>

lemma init_dictionary_state:
  assumes "init_dictionary D s = (r, s')"
  shows "s' = s \<or> (\<exists>x. load_zstd_dict_from_db D (db s) (use_compression_dict s) = Ok x \<and> s' = s\<lparr>zstd_dict := x\<rparr>)"
  using assms by (cases "load_zstd_dict_from_db D (db s) (use_compression_dict s)")
    (auto simp: init_dictionary_def tryM_def)

definition dict_row :: "string \<Rightarrow> bytes \<Rightarrow> bool" where
  "dict_row cf k \<longleftrightarrow> cf = CF_METADATA \<and> k = as_bytes META_ZSTD_DICT"

definition same_rows :: "db_content \<Rightarrow> db_content \<Rightarrow> bool" where
  "same_rows c c' \<longleftrightarrow> (\<forall>cf k. \<not> dict_row cf k \<longrightarrow> c' cf k = c cf k)"

lemma same_rows_refl [simp]: "same_rows c c"
  by (simp add: same_rows_def)

context rocksdb_laws
begin


lemma train_dictionary_rows:
  fixes D :: "('d, 'b, 'h, 'g) deps" and s :: "('d, 'b, 'h, 'g) store"
  assumes "R = dp_rocks D" and "train_dictionary D s = (r, s')"
  shows "same_rows (content (db s)) (content (db s'))"
proof -
  let ?P = "\<lambda>s' :: ('d, 'b, 'h, 'g) store. same_rows (content (db s)) (content (db s'))"
  have put: "preserves ?P (db_put D CF_METADATA (as_bytes META_ZSTD_DICT) v)" for v
    using put_sound unfolding assms(1)
    by (auto simp: preserves_def db_put_def same_rows_def dict_row_def split: sum.splits)
  have "preserves ?P (train_dictionary D)"
    unfolding train_dictionary_def
    by (intro preserve_rules put preserves_unchanged [OF unchanged_samples]
        preserves_unchanged [OF unchanged_reads(1)] preserves_unchanged [OF unchanged_reads(2)])
       (auto intro!: preserve_rules put preserves_unchanged [OF unchanged_samples] split: list.splits)
  from preservesD [OF this _ assms(2)] show ?thesis by simp
qed

lemma maybe_train_effect:
  fixes D :: "('d, 'b, 'h, 'g) deps" and s :: "('d, 'b, 'h, 'g) store"
  assumes R: "R = dp_rocks D" and run: "maybe_train_dictionary D s = (r, s')"
  shows "same_rows (content (db s)) (content (db s'))"
    and "zstd_dict s' = zstd_dict s \<or> zstd_dict s = None"
proof -
  have "same_rows (content (db s)) (content (db s')) \<and> (zstd_dict s' = zstd_dict s \<or> zstd_dict s = None)"
  proof (cases "use_compression_dict s \<and> zstd_dict s = None")
    case False
    then show ?thesis using run by (cases "zstd_dict s"; cases "use_compression_dict s") (auto simp: maybe_train_dictionary_def)
  next
    case True
    let ?P = "\<lambda>s' :: ('d, 'b, 'h, 'g) store. same_rows (content (db s)) (content (db s'))"
    have "preserves ?P (init_dictionary D)"
      by (rule preservesI) (auto dest: init_dictionary_state)
    moreover have "preserves ?P (train_dictionary D)"
    proof (rule preservesI)
      fix t r t' assume "?P t" and "train_dictionary D t = (r, t')"
      with train_dictionary_rows [OF R] show "?P t'" unfolding same_rows_def by metis
    qed
    moreover have "preserves ?P (modifyM (\<lambda>s. s\<lparr>zstd_dict := Some d\<rparr>))" for d
      by (auto simp: preserves_def)
    ultimately have "preserves ?P (maybe_train_dictionary D)"
      unfolding maybe_train_dictionary_def
      by (intro preserve_rules preserves_unchanged [OF unchanged_block_count]
          preserves_unchanged [OF unchanged_reads(1)] preserves_unchanged [OF unchanged_reads(2)])
    from preservesD [OF this _ run] True show ?thesis by simp
  qed
  then show "same_rows (content (db s)) (content (db s'))"
    "zstd_dict s' = zstd_dict s \<or> zstd_dict s = None" by auto
qed

end

end
