(* ===== verification/Store_Inv.thy ===== *)
theory Store_Inv
  imports Compression
begin

text \<open>
  The invariant of a block store, over the logical content of its database:
  \<^item> \<open>rows_ok\<close>: every row of the block and header families belongs to a block, respectively header,
    of that hash; bodies and headers come in pairs, except where compaction dropped one of them
    below the minimum retained height.
  \<^item> \<open>blocks_cached\<close>, \<open>headers_cached\<close>, \<open>records_cached\<close>: a cached value is the stored one.
    Compaction may drop rows below the minimum retained height behind the caches, so below it a
    cached value only has the right hash.
  \<^item> \<open>index_ok\<close>: the rows of \<open>CF_CANONICAL\<close> have their format, and at every retained height the
    height cache and \<open>canonical.bin\<close> agree with them.
  \<^item> \<open>meta_ok\<close>: the tip and the minimum height in memory are those in \<open>CF_METADATA\<close>.

  The locale \<open>deps_laws\<close> collects the laws of the third-party code. Nothing in it excludes
  failing calls: the results on \<open>Ok\<close> runs hold under any pattern of faults.
\<close>

locale deps_laws = codec_laws D + rocksdb_laws "dp_rocks D" content +
    blru: lru_laws "dp_block_lru D" + hlru: lru_laws "dp_header_lru D" + nlru: lru_laws "dp_height_lru D"
  for D :: "('d, 'b, 'h, 'g) deps" and content :: "'d \<Rightarrow> db_content"

section \<open>What a store holds\<close>

definition stored_block ::
  "('d, 'b, 'h, 'g) deps \<Rightarrow> ('d \<Rightarrow> db_content) \<Rightarrow> ('d, 'b, 'h, 'g) store \<Rightarrow> bytes32 \<Rightarrow> L2Block \<Rightarrow> bool" where
  "stored_block D content s h b \<longleftrightarrow>
     (\<exists>c. content (db s) CF_BLOCKS (hash_key h) = Some c \<and> block_frame D (active_dict s) b c)"

definition stored_header ::
  "('d, 'b, 'h, 'g) deps \<Rightarrow> ('d \<Rightarrow> db_content) \<Rightarrow> ('d, 'b, 'h, 'g) store \<Rightarrow> bytes32 \<Rightarrow> L2BlockHeader \<Rightarrow> bool" where
  "stored_header D content s h hdr \<longleftrightarrow>
     (\<exists>c. content (db s) CF_HEADERS (hash_key h) = Some c \<and> dp_ser_header D hdr = Inr c)"

definition known_block ::
  "('d, 'b, 'h, 'g) deps \<Rightarrow> ('d \<Rightarrow> db_content) \<Rightarrow> ('d, 'b, 'h, 'g) store \<Rightarrow> bytes32 \<Rightarrow> L2Block \<Rightarrow> bool" where
  "known_block D content s h b \<longleftrightarrow> dp_block_hash D b = h \<and>
     (stored_block D content s h b \<or> hd_height (blk_header b) < min_retained_height_cached s)"

definition known_header ::
  "('d, 'b, 'h, 'g) deps \<Rightarrow> ('d \<Rightarrow> db_content) \<Rightarrow> ('d, 'b, 'h, 'g) store \<Rightarrow> bytes32 \<Rightarrow> L2BlockHeader \<Rightarrow> bool" where
  "known_header D content s h hdr \<longleftrightarrow> dp_header_hash D hdr = h \<and>
     (stored_header D content s h hdr \<or> hd_height hdr < min_retained_height_cached s)"

text \<open>A record derived from a header, up to the two fields that change afterwards.\<close>

definition record_matches :: "('d, 'b, 'h, 'g) deps \<Rightarrow> L2BlockHeader \<Rightarrow> BlockRecord \<Rightarrow> bool" where
  "record_matches D hdr r \<longleftrightarrow>
     r\<lparr>in_canonical_chain := True, br_status := Validated\<rparr> =
       (record_of_header D hdr)\<lparr>in_canonical_chain := True, br_status := Validated\<rparr>"

definition known_record ::
  "('d, 'b, 'h, 'g) deps \<Rightarrow> ('d \<Rightarrow> db_content) \<Rightarrow> ('d, 'b, 'h, 'g) store \<Rightarrow> bytes32 \<Rightarrow> BlockRecord \<Rightarrow> bool" where
  "known_record D content s h r \<longleftrightarrow> (\<exists>hdr. known_header D content s h hdr \<and> record_matches D hdr r)"

text \<open>The canonical hash of a height: the abstract canonical chain.\<close>

definition canonical_at :: "('d \<Rightarrow> db_content) \<Rightarrow> ('d, 'b, 'h, 'g) store \<Rightarrow> u64 \<Rightarrow> bytes32 option" where
  "canonical_at content s n =
     (if n < min_retained_height_cached s then None
      else map_option bytes32_new (content (db s) CF_CANONICAL (height_key n)))"

section \<open>The invariant\<close>

definition rows_ok ::
  "('d, 'b, 'h, 'g) deps \<Rightarrow> ('d \<Rightarrow> db_content) \<Rightarrow> ('d, 'b, 'h, 'g) store \<Rightarrow> bool" where
  "rows_ok D content s \<longleftrightarrow>
     (\<forall>h c. content (db s) CF_BLOCKS (hash_key h) = Some c \<longrightarrow>
        (\<exists>b. block_frame D (active_dict s) b c \<and> dp_block_hash D b = h \<and>
           (stored_header D content s h (blk_header b) \<or>
            content (db s) CF_HEADERS (hash_key h) = None \<and>
              hd_height (blk_header b) < min_retained_height_cached s))) \<and>
     (\<forall>h c. content (db s) CF_HEADERS (hash_key h) = Some c \<longrightarrow>
        (\<exists>hdr. dp_ser_header D hdr = Inr c \<and> dp_header_hash D hdr = h \<and>
           (content (db s) CF_BLOCKS (hash_key h) \<noteq> None \<or> hd_height hdr < min_retained_height_cached s)))"

definition meta_ok :: "('d \<Rightarrow> db_content) \<Rightarrow> ('d, 'b, 'h, 'g) store \<Rightarrow> bool" where
  "meta_ok content s \<longleftrightarrow>
     content (db s) CF_METADATA (as_bytes META_TIP) = map_option tip_to_bytes (tip s) \<and>
     (case content (db s) CF_METADATA (as_bytes META_MIN_HEIGHT) of
        None \<Rightarrow> min_retained_height_cached s = 0
      | Some v \<Rightarrow> v = to_le_bytes (min_retained_height_cached s))"

definition blocks_cached ::
  "('d, 'b, 'h, 'g) deps \<Rightarrow> ('d \<Rightarrow> db_content) \<Rightarrow> ('d, 'b, 'h, 'g) store \<Rightarrow> bool" where
  "blocks_cached D content s \<longleftrightarrow> cache_wf (block_cache s) \<and>
     (\<forall>h b. cache_peek (dp_block_lru D) (block_cache s) h = Some b \<longrightarrow> known_block D content s h b)"

definition headers_cached ::
  "('d, 'b, 'h, 'g) deps \<Rightarrow> ('d \<Rightarrow> db_content) \<Rightarrow> ('d, 'b, 'h, 'g) store \<Rightarrow> bool" where
  "headers_cached D content s \<longleftrightarrow> cache_wf (header_cache s) \<and>
     (\<forall>h hdr. cache_peek (dp_header_lru D) (header_cache s) h = Some hdr \<longrightarrow> known_header D content s h hdr)"

definition records_cached ::
  "('d, 'b, 'h, 'g) deps \<Rightarrow> ('d \<Rightarrow> db_content) \<Rightarrow> ('d, 'b, 'h, 'g) store \<Rightarrow> bool" where
  "records_cached D content s \<longleftrightarrow>
     (\<forall>h r. record_cache s h = Some r \<longrightarrow> known_record D content s h r)"

definition index_ok :: "('d \<Rightarrow> db_content) \<Rightarrow> ('d, 'b, 'h, 'g) store \<Rightarrow> bool" where
  "index_ok content s \<longleftrightarrow>
     (\<forall>k v. content (db s) CF_CANONICAL k = Some v \<longrightarrow> length k = 8 \<and> length v = 32) \<and>
     bt_wf (canonical_height_cache s) \<and> bin_ok (canonical_bin s) \<and>
     (canonical_height_cache_capacity s = 0 \<longrightarrow> canonical_height_cache s = []) \<and>
     (\<not> read_only s \<longrightarrow> bin_writable (canonical_bin s)) \<and>
     (\<forall>n x. min_retained_height_cached s \<le> n \<longrightarrow> bt_get (canonical_height_cache s) n = Some x \<longrightarrow>
        content (db s) CF_CANONICAL (height_key n) = Some (hash_key x)) \<and>
     (\<forall>n x. min_retained_height_cached s \<le> n \<longrightarrow> bin_slot (canonical_bin s) n = Some x \<longrightarrow>
        content (db s) CF_CANONICAL (height_key n) = Some (hash_key x))"

text \<open>The part about blocks, headers and records, and the whole.\<close>

definition data_inv ::
  "('d, 'b, 'h, 'g) deps \<Rightarrow> ('d \<Rightarrow> db_content) \<Rightarrow> ('d, 'b, 'h, 'g) store \<Rightarrow> bool" where
  "data_inv D content s \<longleftrightarrow>
     rows_ok D content s \<and> blocks_cached D content s \<and> headers_cached D content s \<and>
     records_cached D content s"

definition store_inv ::
  "('d, 'b, 'h, 'g) deps \<Rightarrow> ('d \<Rightarrow> db_content) \<Rightarrow> ('d, 'b, 'h, 'g) store \<Rightarrow> bool" where
  "store_inv D content s \<longleftrightarrow> data_inv D content s \<and> index_ok content s \<and> meta_ok content s"

lemmas known_defs = known_block_def known_header_def known_record_def stored_block_def stored_header_def

lemmas inv_defs = store_inv_def data_inv_def meta_ok_def rows_ok_def blocks_cached_def headers_cached_def records_cached_def
  index_ok_def

lemma record_matches_fields:
  assumes "record_matches D hdr r"
  shows "br_hash r = dp_header_hash D hdr" and "br_height r = hd_height hdr"
    and "br_parent_hash r = hd_parent_hash hdr"
  using arg_cong [OF assms [unfolded record_matches_def], of br_hash]
    arg_cong [OF assms [unfolded record_matches_def], of br_height]
    arg_cong [OF assms [unfolded record_matches_def], of br_parent_hash]
  by (simp_all add: record_of_header_def)

lemma record_matches_refl [simp]: "record_matches D hdr (record_of_header D hdr)"
  by (simp add: record_matches_def)

lemma record_matches_update [simp]:
  "record_matches D hdr r \<Longrightarrow> record_matches D hdr (r\<lparr>in_canonical_chain := ic\<rparr>)"
  "record_matches D hdr r \<Longrightarrow> record_matches D hdr (r\<lparr>br_status := st\<rparr>)"
  by (simp_all add: record_matches_def)

text \<open>The invariant looks at the database only through its current content.\<close>

lemma content_local:
  "rows_ok D content (s\<lparr>db := d\<rparr>) = rows_ok D (\<lambda>_. content d) s"
  "data_inv D content (s\<lparr>db := d\<rparr>) = data_inv D (\<lambda>_. content d) s"
  "index_ok content (s\<lparr>db := d\<rparr>) = index_ok (\<lambda>_. content d) s"
  "meta_ok content (s\<lparr>db := d\<rparr>) = meta_ok (\<lambda>_. content d) s"
  by (simp_all add: data_inv_def rows_ok_def blocks_cached_def headers_cached_def records_cached_def
      index_ok_def meta_ok_def known_defs active_dict_def cong: option.case_cong)

lemma content_now:
  "data_inv D (\<lambda>_. content (db s)) s = data_inv D content s"
  "index_ok (\<lambda>_. content (db s)) s = index_ok content s"
  "meta_ok (\<lambda>_. content (db s)) s = meta_ok content s"
  by (simp_all add: data_inv_def rows_ok_def blocks_cached_def headers_cached_def records_cached_def
      index_ok_def meta_ok_def known_defs)

section \<open>Dropping rows\<close>

text \<open>
  Rows may go when the caches forget them too (those not \<open>kept\<close>), or when their block lies below
  the minimum height.
\<close>

lemma data_inv_shrink:
  fixes s s' :: "('d, 'b, 'h, 'g) store"
  assumes inv: "data_inv D content s" and dict: "active_dict s' = active_dict s"
    and min: "min_retained_height_cached s \<le> min_retained_height_cached s'"
    and rows: "\<And>cf h. cf \<in> {CF_BLOCKS, CF_HEADERS} \<Longrightarrow>
      content (db s') cf (hash_key h) \<in> {None, content (db s) cf (hash_key h)}"
    and gone: "\<And>cf h. cf \<in> {CF_BLOCKS, CF_HEADERS} \<Longrightarrow> \<not> kept h \<Longrightarrow> content (db s') cf (hash_key h) = None"
    and block: "\<And>h b. stored_block D content s h b \<Longrightarrow> kept h \<Longrightarrow> content (db s') CF_BLOCKS (hash_key h) = None \<Longrightarrow>
      hd_height (blk_header b) < min_retained_height_cached s'"
    and header: "\<And>h hdr. stored_header D content s h hdr \<Longrightarrow> kept h \<Longrightarrow> content (db s') CF_HEADERS (hash_key h) = None \<Longrightarrow>
      hd_height hdr < min_retained_height_cached s'"
    and paired: "\<And>h c hdr. content (db s) CF_BLOCKS (hash_key h) = Some c \<Longrightarrow> stored_header D content s h hdr \<Longrightarrow>
      kept h \<Longrightarrow> content (db s') CF_BLOCKS (hash_key h) = None \<Longrightarrow> hd_height hdr < min_retained_height_cached s'"
    and blocks: "cache_wf (block_cache s')" "\<And>h b. cache_peek (dp_block_lru D) (block_cache s') h = Some b \<Longrightarrow>
      cache_peek (dp_block_lru D) (block_cache s) h = Some b \<and> kept h"
    and headers: "cache_wf (header_cache s')" "\<And>h hdr. cache_peek (dp_header_lru D) (header_cache s') h = Some hdr \<Longrightarrow>
      cache_peek (dp_header_lru D) (header_cache s) h = Some hdr \<and> kept h"
    and records: "\<And>h r. record_cache s' h = Some r \<Longrightarrow> record_cache s h = Some r \<and> kept h"
  shows "data_inv D content s'"
proof -
  have stays: "content (db s') cf (hash_key h) = content (db s) cf (hash_key h)"
    if "cf \<in> {CF_BLOCKS, CF_HEADERS}" "content (db s') cf (hash_key h) \<noteq> None" for cf h
    using rows [OF that(1), of h] that(2) by auto
  have sh: "stored_header D content s' h hdr \<or> hd_height hdr < min_retained_height_cached s'"
    if "stored_header D content s h hdr" "kept h" for h hdr
    using header [OF that] stays [of CF_HEADERS h] that(1)
    by (cases "content (db s') CF_HEADERS (hash_key h) = None") (simp_all add: stored_header_def)
  have sb: "stored_block D content s' h b \<or> hd_height (blk_header b) < min_retained_height_cached s'"
    if "stored_block D content s h b" "kept h" for h b
    using block [OF that] stays [of CF_BLOCKS h] that(1)
    by (cases "content (db s') CF_BLOCKS (hash_key h) = None") (simp_all add: stored_block_def dict)
  have kh: "known_header D content s' h hdr" if "known_header D content s h hdr" "kept h" for h hdr
    using that sh [of h hdr] min by (auto simp: known_header_def)
  have kb: "known_block D content s' h b" if "known_block D content s h b" "kept h" for h b
    using that sb [of h b] min by (auto simp: known_block_def)
  have old: "rows_ok D content s" using inv by (simp add: data_inv_def)
  have "rows_ok D content s'"
    unfolding rows_ok_def
  proof (intro conjI allI impI)
    fix h r assume r: "content (db s') CF_BLOCKS (hash_key h) = Some r"
    then have k: "kept h" "content (db s) CF_BLOCKS (hash_key h) = Some r"
      using gone [of CF_BLOCKS h] stays [of CF_BLOCKS h] by (auto simp del: not_None_eq)
    with old obtain b where "block_frame D (active_dict s) b r" "dp_block_hash D b = h"
      "stored_header D content s h (blk_header b) \<or>
        content (db s) CF_HEADERS (hash_key h) = None \<and> hd_height (blk_header b) < min_retained_height_cached s"
      unfolding rows_ok_def by blast
    moreover have "content (db s') CF_HEADERS (hash_key h) = None" if "\<not> stored_header D content s' h (blk_header b)"
      "stored_header D content s h (blk_header b)"
      using that stays [of CF_HEADERS h] by (cases "content (db s') CF_HEADERS (hash_key h)") (auto simp: stored_header_def)
    moreover have "content (db s') CF_HEADERS (hash_key h) = None" if "content (db s) CF_HEADERS (hash_key h) = None"
      using that stays [of CF_HEADERS h] by fastforce
    ultimately show "\<exists>b. block_frame D (active_dict s') b r \<and> dp_block_hash D b = h \<and>
        (stored_header D content s' h (blk_header b) \<or> content (db s') CF_HEADERS (hash_key h) = None \<and>
          hd_height (blk_header b) < min_retained_height_cached s')"
      unfolding dict using sh [OF _ k(1)] min order_less_le_trans by blast
  next
    fix h r assume r: "content (db s') CF_HEADERS (hash_key h) = Some r"
    then have k: "kept h" "content (db s) CF_HEADERS (hash_key h) = Some r"
      using gone [of CF_HEADERS h] stays [of CF_HEADERS h] by auto
    with old obtain hdr where hdr: "dp_ser_header D hdr = Inr r" "dp_header_hash D hdr = h"
      "content (db s) CF_BLOCKS (hash_key h) \<noteq> None \<or> hd_height hdr < min_retained_height_cached s"
      unfolding rows_ok_def by blast
    have st: "stored_header D content s h hdr" using hdr(1) k(2) by (simp add: stored_header_def)
    have "hd_height hdr < min_retained_height_cached s'" if "content (db s') CF_BLOCKS (hash_key h) = None"
    proof (cases "content (db s) CF_BLOCKS (hash_key h)")
      case None
      with hdr(3) min show ?thesis by (simp add: order_less_le_trans)
    next
      case (Some c)
      from paired [OF this st k(1) that] show ?thesis .
    qed
    with hdr show "\<exists>hdr. dp_ser_header D hdr = Inr r \<and> dp_header_hash D hdr = h \<and>
        (content (db s') CF_BLOCKS (hash_key h) \<noteq> None \<or> hd_height hdr < min_retained_height_cached s')" by blast
  qed
  with inv blocks headers records kb kh show ?thesis
    unfolding data_inv_def blocks_cached_def headers_cached_def records_cached_def known_record_def by metis
qed

section \<open>Steps that only touch the caches\<close>

text \<open>The part of the state that reads never write.\<close>

definition core :: "('d, 'b, 'h, 'g) store \<Rightarrow> _" where
  "core s = (db s, compaction_filters s, read_only s, tip s, compression_level s, use_compression_dict s,
     max_decompressed_block_bytes s, zstd_dict s, canonical_bin s, min_retained_height_cached s,
     canonical_height_cache_capacity s)"

lemma core_eqD:
  assumes "core s' = core s"
  shows "db s' = db s" "read_only s' = read_only s" "tip s' = tip s" "zstd_dict s' = zstd_dict s"
    "use_compression_dict s' = use_compression_dict s" "canonical_bin s' = canonical_bin s"
    "min_retained_height_cached s' = min_retained_height_cached s" "active_dict s' = active_dict s"
    "max_decompressed_block_bytes s' = max_decompressed_block_bytes s"
  using assms by (auto simp: core_def active_dict_def)

lemma core_known:
  assumes "core s' = core s"
  shows "stored_block D content s' = stored_block D content s"
    and "stored_header D content s' = stored_header D content s"
    and "known_block D content s' = known_block D content s"
    and "known_header D content s' = known_header D content s"
    and "known_record D content s' = known_record D content s"
    and "canonical_at content s' = canonical_at content s"
    and "rows_ok D content s' = rows_ok D content s"
    and "meta_ok content s' = meta_ok content s"
  by (simp_all add: fun_eq_iff known_defs canonical_at_def rows_ok_def meta_ok_def core_eqD [OF assms]
      cong: option.case_cong)

lemma core_updates [simp]:
  "core (s\<lparr>block_cache := x1\<rparr>) = core s" "core (s\<lparr>header_cache := x2\<rparr>) = core s"
  "core (s\<lparr>record_cache := x3\<rparr>) = core s" "core (s\<lparr>canonical_height_cache := x4\<rparr>) = core s"
  "core (s\<lparr>hash_to_height_cache := x5\<rparr>) = core s" "core (s\<lparr>cf_blocks_physical_gets := x6\<rparr>) = core s"
  "core (s\<lparr>cf_blocks_multi_get_batches := x7\<rparr>) = core s"
  "core (s\<lparr>cf_blocks_stream_physical_gets := x8\<rparr>) = core s"
  "core (s\<lparr>cf_headers_physical_gets := x9\<rparr>) = core s" "core (s\<lparr>warm_blocks_loaded := x10\<rparr>) = core s"
  "core (s\<lparr>pipeline_write_batches := x11\<rparr>) = core s"
  by (simp_all add: core_def)

lemmas core_update_known [simp] = core_known [OF core_updates(1)] core_known [OF core_updates(2)]
  core_known [OF core_updates(3)] core_known [OF core_updates(4)] core_known [OF core_updates(5)]
  core_known [OF core_updates(6)] core_known [OF core_updates(7)] core_known [OF core_updates(8)]
  core_known [OF core_updates(9)] core_known [OF core_updates(10)] core_known [OF core_updates(11)]

lemma inv_counters [simp]:
  "store_inv D content (s\<lparr>hash_to_height_cache := x5\<rparr>) = store_inv D content s"
  "store_inv D content (s\<lparr>cf_blocks_physical_gets := x6\<rparr>) = store_inv D content s"
  "store_inv D content (s\<lparr>cf_blocks_multi_get_batches := x7\<rparr>) = store_inv D content s"
  "store_inv D content (s\<lparr>cf_blocks_stream_physical_gets := x8\<rparr>) = store_inv D content s"
  "store_inv D content (s\<lparr>cf_headers_physical_gets := x9\<rparr>) = store_inv D content s"
  "store_inv D content (s\<lparr>warm_blocks_loaded := x10\<rparr>) = store_inv D content s"
  "store_inv D content (s\<lparr>pipeline_write_batches := x11\<rparr>) = store_inv D content s"
  by (simp_all add: store_inv_def data_inv_def blocks_cached_def headers_cached_def records_cached_def index_ok_def)

lemma inv_record_insert:
  "store_inv D content s \<Longrightarrow> known_record D content s h r \<Longrightarrow>
    store_inv D content (s\<lparr>record_cache := (record_cache s)(h \<mapsto> r)\<rparr>)"
  by (auto simp: store_inv_def data_inv_def blocks_cached_def headers_cached_def records_cached_def index_ok_def)

lemma inv_record_remove:
  "store_inv D content s \<Longrightarrow> store_inv D content (s\<lparr>record_cache := (record_cache s)(h := None)\<rparr>)"
  by (auto simp: store_inv_def data_inv_def blocks_cached_def headers_cached_def records_cached_def index_ok_def)

lemma evict_lowest_sub:
  "bt_get (evict_lowest cap t) n = Some x \<Longrightarrow> bt_get t n = Some x"
proof (induction cap t rule: evict_lowest.induct)
  case (2 cap k v t)
  then show ?case
    by (simp add: evict_lowest.simps(2) bt_get_remove split: if_splits)
qed (simp add: evict_lowest.simps)

lemma evict_lowest_wf: "bt_wf t \<Longrightarrow> bt_wf (evict_lowest cap t)"
  by (induction cap t rule: evict_lowest.induct)
     (auto simp: evict_lowest.simps bt_wf_remove simp del: length_Cons)

lemma evict_lowest_length: "length (evict_lowest cap t) \<le> cap"
  by (induction cap t rule: evict_lowest.induct) (auto simp: evict_lowest.simps)

lemma inv_height_insert:
  assumes inv: "store_inv D content s"
    and row: "min_retained_height_cached s \<le> n \<Longrightarrow> content (db s) CF_CANONICAL (height_key n) = Some (hash_key x)"
  shows "store_inv D content (snd (insert_canonical_height_cache n x s))"
proof (cases "canonical_height_cache_capacity s = 0")
  case True
  then show ?thesis using inv by (simp add: insert_canonical_height_cache_def)
next
  case False
  let ?t = "evict_lowest (unat (canonical_height_cache_capacity s)) (bt_insert n x (canonical_height_cache s))"
  have "bt_wf ?t" using inv by (simp add: store_inv_def index_ok_def evict_lowest_wf bt_wf_insert)
  moreover have "content (db s) CF_CANONICAL (height_key m) = Some (hash_key y)"
    if "min_retained_height_cached s \<le> m" "bt_get ?t m = Some y" for m y
    using evict_lowest_sub [OF that(2)] that(1) inv row
    by (auto simp: bt_get_insert store_inv_def index_ok_def split: if_splits)
  ultimately have "store_inv D content (s\<lparr>canonical_height_cache := ?t\<rparr>)"
    using inv False by (simp add: store_inv_def data_inv_def blocks_cached_def headers_cached_def records_cached_def index_ok_def)
  with False show ?thesis by (simp add: insert_canonical_height_cache_def)
qed

context deps_laws
begin

lemma inv_block_get:
  "store_inv D content s \<Longrightarrow>
    store_inv D content (s\<lparr>block_cache := snd (get_clone (dp_block_lru D) (block_cache s) h)\<rparr>)"
  by (auto simp: store_inv_def data_inv_def blocks_cached_def headers_cached_def records_cached_def index_ok_def
      blru.sharded.get_keeps)

lemma inv_header_get:
  "store_inv D content s \<Longrightarrow>
    store_inv D content (s\<lparr>header_cache := snd (get_clone (dp_header_lru D) (header_cache s) h)\<rparr>)"
  by (auto simp: store_inv_def data_inv_def blocks_cached_def headers_cached_def records_cached_def index_ok_def
      hlru.sharded.get_keeps)

lemma inv_block_insert:
  "store_inv D content s \<Longrightarrow> known_block D content s h b \<Longrightarrow>
    store_inv D content (s\<lparr>block_cache := cache_insert (dp_block_lru D) (block_cache s) h b\<rparr>)"
  by (auto simp: store_inv_def data_inv_def blocks_cached_def headers_cached_def records_cached_def index_ok_def
      dest: blru.sharded.insert_peek_cases)

lemma inv_header_insert:
  "store_inv D content s \<Longrightarrow> known_header D content s h hdr \<Longrightarrow>
    store_inv D content (s\<lparr>header_cache := cache_insert (dp_header_lru D) (header_cache s) h hdr\<rparr>)"
  by (auto simp: store_inv_def data_inv_def blocks_cached_def headers_cached_def records_cached_def index_ok_def
      dest: hlru.sharded.insert_peek_cases)

lemma inv_cache_removals:
  "store_inv D content s \<Longrightarrow>
    store_inv D content (s\<lparr>block_cache := cache_remove (dp_block_lru D) (block_cache s) h\<rparr>)"
  "store_inv D content s \<Longrightarrow>
    store_inv D content (s\<lparr>header_cache := cache_remove (dp_header_lru D) (header_cache s) h\<rparr>)"
  by (auto simp: store_inv_def data_inv_def blocks_cached_def headers_cached_def records_cached_def index_ok_def
      blru.sharded.remove_peek hlru.sharded.remove_peek split: if_splits)

end

end
