(* ===== verification/Reads.thy ===== *)
theory Reads
  imports Store_Inv
begin

text \<open>
  The read operations: blocks, headers and records by hash (\<open>src/store.rs\<close>), the canonical
  hash of a height with its three tiers (\<open>src/canonical/index.rs\<close>), the range and epoch
  queries, the walk to the common ancestor, and cache warming (\<open>src/cache/warming.rs\<close>).

  Every read keeps the invariant whatever it returns and writes nothing but caches and counters;
  what it returns is what the database holds, whichever tier served it.
\<close>

section \<open>Reads by hash\<close>

definition get_block ::
  "('d, 'b, 'h, 'g) deps \<Rightarrow> bytes32 \<Rightarrow> ('d, 'b, 'h, 'g, L2Block option) store_op" where
  "get_block D hash =
     tryM (block_cache_get D hash) (\<lambda>hit.
     case hit of
       Some block \<Rightarrow> returnM (Some block)
     | None \<Rightarrow>
         tryM (cf_handle D CF_BLOCKS) (\<lambda>_.
         tryM (modifyM (\<lambda>s. s\<lparr>cf_blocks_physical_gets := cf_blocks_physical_gets s + 1\<rparr>)) (\<lambda>_.
         tryM (db_get D CF_BLOCKS (hash_key hash)) (\<lambda>raw_opt.
         case raw_opt of
           None \<Rightarrow> returnM None
         | Some raw \<Rightarrow>
             tryM (deserialize_block D raw) (\<lambda>block.
             tryM (block_cache_insert D hash block) (\<lambda>_.
             tryM (header_cache_insert D hash (blk_header block)) (\<lambda>_.
             tryM (hash_to_height_insert D hash (dp_block_height D block)) (\<lambda>_.
             returnM (Some block)))))))))"

definition has_block ::
  "('d, 'b, 'h, 'g) deps \<Rightarrow> bytes32 \<Rightarrow> ('d, 'b, 'h, 'g, bool) store_op" where
  "has_block D hash =
     tryM (getM id) (\<lambda>s.
     if cache_contains (dp_block_lru D) (block_cache s) hash \<or>
        cache_contains (dp_header_lru D) (header_cache s) hash
     then returnM True
     else
       tryM (cf_handle D CF_HEADERS) (\<lambda>_.
       tryM (db_get D CF_HEADERS (hash_key hash)) (\<lambda>r.
       if r \<noteq> None then returnM True
       else
         tryM (cf_handle D CF_BLOCKS) (\<lambda>_.
         tryM (db_get D CF_BLOCKS (hash_key hash)) (\<lambda>r'.
         returnM (r' \<noteq> None))))))"

definition get_header ::
  "('d, 'b, 'h, 'g) deps \<Rightarrow> bytes32 \<Rightarrow> ('d, 'b, 'h, 'g, L2BlockHeader option) store_op" where
  "get_header D hash =
     tryM (header_cache_get D hash) (\<lambda>hit.
     case hit of
       Some hdr \<Rightarrow> returnM (Some hdr)
     | None \<Rightarrow>
         tryM (cf_handle D CF_HEADERS) (\<lambda>_.
         tryM (modifyM (\<lambda>s. s\<lparr>cf_headers_physical_gets := cf_headers_physical_gets s + 1\<rparr>)) (\<lambda>_.
         tryM (db_get D CF_HEADERS (hash_key hash)) (\<lambda>raw_opt.
         case raw_opt of
           None \<Rightarrow> returnM None
         | Some raw \<Rightarrow>
             tryM (liftM (deserialize_header D raw)) (\<lambda>hdr.
             tryM (header_cache_insert D hash hdr) (\<lambda>_.
             tryM (hash_to_height_insert D hash (hd_height hdr)) (\<lambda>_.
             returnM (Some hdr))))))))"

definition get_record ::
  "('d, 'b, 'h, 'g) deps \<Rightarrow> bytes32 \<Rightarrow> ('d, 'b, 'h, 'g, BlockRecord option) store_op" where
  "get_record D hash =
     tryM (getM (\<lambda>s. record_cache s hash)) (\<lambda>cached.
     case cached of
       Some r \<Rightarrow> returnM (Some r)
     | None \<Rightarrow>
         tryM (header_cache_get D hash) (\<lambda>hit.
         case hit of
           Some hdr \<Rightarrow>
             tryM (record_cache_insert hash (record_of_header D hdr)) (\<lambda>_.
             returnM (Some (record_of_header D hdr)))
         | None \<Rightarrow>
             tryM (cf_handle D CF_HEADERS) (\<lambda>_.
             tryM (modifyM (\<lambda>s. s\<lparr>cf_headers_physical_gets := cf_headers_physical_gets s + 1\<rparr>)) (\<lambda>_.
             tryM (db_get D CF_HEADERS (hash_key hash)) (\<lambda>raw_opt.
             case raw_opt of
               None \<Rightarrow> returnM None
             | Some raw \<Rightarrow>
                 tryM (liftM (deserialize_header D raw)) (\<lambda>hdr.
                 tryM (header_cache_insert D hash hdr) (\<lambda>_.
                 tryM (record_cache_insert hash (record_of_header D hdr)) (\<lambda>_.
                 returnM (Some (record_of_header D hdr))))))))))"

definition probe_block_cache ::
  "('d, 'b, 'h, 'g) deps \<Rightarrow> bytes32 list \<Rightarrow>
    ('d, 'b, 'h, 'g, L2Block option list \<times> nat list) store_op" where
  "probe_block_cache D hashes =
     foldM (\<lambda>(results, miss_indices) (i, hash).
         tryM (block_cache_get D hash) (\<lambda>hit.
         case hit of
           Some block \<Rightarrow> returnM (results[i := Some block], miss_indices)
         | None \<Rightarrow> returnM (results, miss_indices @ [i])))
       (replicate (length hashes) None, []) (enumerate 0 hashes)"

definition fill_miss ::
  "('d, 'b, 'h, 'g) deps \<Rightarrow> bytes32 list \<Rightarrow> nat list \<Rightarrow> L2Block option list \<Rightarrow>
    nat \<times> (string + bytes option) \<Rightarrow> ('d, 'b, 'h, 'g, L2Block option list) store_op" where
  "fill_miss D hashes miss_indices results jr =
     (case jr of (j, db_result) \<Rightarrow>
        if length miss_indices \<le> j then panicM ''index out of bounds''
        else let idx = miss_indices ! j in
          tryM (next_item db_result) (\<lambda>maybe_raw.
          case maybe_raw of
            None \<Rightarrow> returnM results
          | Some raw \<Rightarrow>
              tryM (deserialize_block D raw) (\<lambda>block.
              tryM (block_cache_insert D (hashes ! idx) block) (\<lambda>_.
              tryM (header_cache_insert D (hashes ! idx) (blk_header block)) (\<lambda>_.
              returnM (results[idx := Some block]))))))"

definition get_blocks_by_hash ::
  "('d, 'b, 'h, 'g) deps \<Rightarrow> bytes32 list \<Rightarrow> ('d, 'b, 'h, 'g, L2Block option list) store_op" where
  "get_blocks_by_hash D hashes =
     tryM (probe_block_cache D hashes) (\<lambda>(results, miss_indices).
     if miss_indices = [] then returnM results
     else
       tryM (cf_handle D CF_BLOCKS) (\<lambda>_.
       tryM (modifyM (\<lambda>s. s\<lparr>cf_blocks_multi_get_batches := cf_blocks_multi_get_batches s + 1\<rparr>)) (\<lambda>_.
       tryM (getM (\<lambda>s. rk_multi_get_cf (dp_rocks D) (db s)
                          (map (\<lambda>idx. (CF_BLOCKS, hash_key (hashes ! idx))) miss_indices))) (\<lambda>db_results.
       foldM (fill_miss D hashes miss_indices) results (enumerate 0 db_results)))))"

section \<open>Reads by height\<close>

text \<open>
  \<open>get_hash_by_height\<close>: heights below the minimum do not resolve; then the height cache, then
  \<open>canonical.bin\<close>, then \<open>CF_CANONICAL\<close>.
\<close>

definition get_hash_by_height ::
  "('d, 'b, 'h, 'g) deps \<Rightarrow> u64 \<Rightarrow> ('d, 'b, 'h, 'g, bytes32 option) store_op" where
  "get_hash_by_height D n =
     tryM (getM id) (\<lambda>s.
     if n < min_retained_height_cached s then returnM None
     else case bt_get (canonical_height_cache s) n of
       Some hash \<Rightarrow> returnM (Some hash)
     | None \<Rightarrow>
         tryM (liftM (read_hash_bytes (dp_oc D) (canonical_bin s) n)) (\<lambda>slot.
         case slot of
           Some arr \<Rightarrow>
             tryM (insert_canonical_height_cache n (bytes32_new arr)) (\<lambda>_.
             returnM (Some (bytes32_new arr)))
         | None \<Rightarrow>
             tryM (cf_handle D CF_CANONICAL) (\<lambda>_.
             tryM (db_get D CF_CANONICAL (height_key n)) (\<lambda>r.
             case r of
               None \<Rightarrow> returnM None
             | Some hash_bytes \<Rightarrow>
                 if length hash_bytes \<noteq> 32
                 then failM (Serialization
                        ''get_hash_by_height: CF_CANONICAL value must be exactly 32 bytes'')
                 else
                   tryM (insert_canonical_height_cache n (bytes32_new hash_bytes)) (\<lambda>_.
                   returnM (Some (bytes32_new hash_bytes)))))))"

definition get_block_by_height ::
  "('d, 'b, 'h, 'g) deps \<Rightarrow> u64 \<Rightarrow> ('d, 'b, 'h, 'g, L2Block option) store_op" where
  "get_block_by_height D n =
     tryM (get_hash_by_height D n) (\<lambda>r.
     case r of None \<Rightarrow> returnM None | Some hash \<Rightarrow> get_block D hash)"

definition get_record_by_height ::
  "('d, 'b, 'h, 'g) deps \<Rightarrow> u64 \<Rightarrow> ('d, 'b, 'h, 'g, BlockRecord option) store_op" where
  "get_record_by_height D n =
     tryM (get_hash_by_height D n) (\<lambda>r.
     case r of None \<Rightarrow> returnM None | Some hash \<Rightarrow> get_record D hash)"

definition get_header_by_height ::
  "('d, 'b, 'h, 'g) deps \<Rightarrow> u64 \<Rightarrow> ('d, 'b, 'h, 'g, L2BlockHeader option) store_op" where
  "get_header_by_height D n =
     tryM (get_hash_by_height D n) (\<lambda>r.
     case r of None \<Rightarrow> returnM None | Some hash \<Rightarrow> get_header D hash)"

text \<open>The loop of the range queries: push what a height yields.\<close>

definition collect_heights ::
  "(u64 \<Rightarrow> ('s, 'e, 'a option) operation) \<Rightarrow> u64 list \<Rightarrow> ('s, 'e, 'a list) operation" where
  "collect_heights f heights =
     foldM (\<lambda>acc n. tryM (f n) (\<lambda>r. returnM (case r of None \<Rightarrow> acc | Some x \<Rightarrow> acc @ [x]))) [] heights"

definition get_blocks_in_range ::
  "('d, 'b, 'h, 'g) deps \<Rightarrow> u64 \<Rightarrow> u64 \<Rightarrow> ('d, 'b, 'h, 'g, L2Block list) store_op" where
  "get_blocks_in_range D start_height end_height =
     (if end_height < start_height then returnM []
      else
        tryM (liftM (plain_add (dp_oc D) (end_height - start_height) 1)) (\<lambda>cap.
        tryM (liftM (vec_with_capacity (dp_block_size D) cap)) (\<lambda>_.
        collect_heights (get_block_by_height D) (range_incl start_height end_height))))"

definition get_records_in_range ::
  "('d, 'b, 'h, 'g) deps \<Rightarrow> u64 \<Rightarrow> u64 \<Rightarrow> ('d, 'b, 'h, 'g, BlockRecord list) store_op" where
  "get_records_in_range D start_height end_height =
     (if end_height < start_height then returnM []
      else
        tryM (liftM (plain_add (dp_oc D) (end_height - start_height) 1)) (\<lambda>cap.
        tryM (liftM (vec_with_capacity (dp_record_size D) cap)) (\<lambda>_.
        collect_heights (get_record_by_height D) (range_incl start_height end_height))))"

fun collect_until_gap ::
  "('d, 'b, 'h, 'g) deps \<Rightarrow> u64 list \<Rightarrow> bytes32 list \<Rightarrow> ('d, 'b, 'h, 'g, bytes32 list) store_op" where
  "collect_until_gap D [] hashes = returnM hashes"
| "collect_until_gap D (n # ns) hashes =
     tryM (get_hash_by_height D n) (\<lambda>r.
     case r of Some hash \<Rightarrow> collect_until_gap D ns (hashes @ [hash]) | None \<Rightarrow> returnM hashes)"

definition get_epoch_block_hashes ::
  "('d, 'b, 'h, 'g) deps \<Rightarrow> u64 \<Rightarrow> ('d, 'b, 'h, 'g, bytes32 list) store_op" where
  "get_epoch_block_hashes D epoch =
     collect_until_gap D
       (range_incl (dp_first_height_in_epoch D epoch) (dp_epoch_checkpoint_height D epoch)) []"

definition blocks_to_revert ::
  "('d, 'b, 'h, 'g) deps \<Rightarrow> u64 \<Rightarrow> ('d, 'b, 'h, 'g, bytes32 list) store_op" where
  "blocks_to_revert D target_height =
     tryM (getM tip) (\<lambda>t.
     case t of
       None \<Rightarrow> returnM []
     | Some current_tip \<Rightarrow>
         if tip_height current_tip \<le> target_height then returnM []
         else
           tryM (liftM (plain_add (dp_oc D) target_height 1)) (\<lambda>first.
           collect_heights (get_hash_by_height D) (rev (range_incl first (tip_height current_tip)))))"

section \<open>Common ancestor, warming, asynchronous reads\<close>

primrec walk_ancestors ::
  "('d, 'b, 'h, 'g) deps \<Rightarrow> nat \<Rightarrow> bytes32 \<Rightarrow> ('d, 'b, 'h, 'g, (bytes32 \<times> u64) option) store_op" where
  "walk_ancestors D 0 current_hash = returnM None"
| "walk_ancestors D (Suc depth) current_hash =
     tryM (get_record D current_hash) (\<lambda>r.
     case r of
       None \<Rightarrow> returnM None
     | Some record \<Rightarrow>
         tryM (hash_to_height_insert D current_hash (br_height record)) (\<lambda>_.
         tryM (get_hash_by_height D (br_height record)) (\<lambda>canonical_hash.
         if canonical_hash = Some current_hash
         then returnM (Some (current_hash, br_height record))
         else walk_ancestors D depth (br_parent_hash record))))"

definition find_common_ancestor ::
  "('d, 'b, 'h, 'g) deps \<Rightarrow> bytes32 \<Rightarrow> u64 \<Rightarrow> ('d, 'b, 'h, 'g, (bytes32 \<times> u64) option) store_op" where
  "find_common_ancestor D hash max_depth = walk_ancestors D (unat max_depth) hash"

definition warm_caches :: "('d, 'b, 'h, 'g) deps \<Rightarrow> u64 \<Rightarrow> ('d, 'b, 'h, 'g, usize) store_op" where
  "warm_caches D depth =
     tryM (getM tip) (\<lambda>t.
     case t of
       None \<Rightarrow> returnM 0
     | Some t \<Rightarrow>
         let start = saturating_sub (tip_height t) (saturating_sub depth 1)
         in foldM (\<lambda>count n.
              tryM (okM (get_block_by_height D n)) (\<lambda>r.
              case r of
                Some (Some _) \<Rightarrow>
                  tryM (okM (get_record_by_height D n)) (\<lambda>_.
                  liftM (plain_add (dp_oc D) count 1))
              | _ \<Rightarrow> returnM count)) 0 (rev (range_incl start (tip_height t))))"

text \<open>\<open>spawn_blocking\<close>: a panic of the task surfaces as a join error.\<close>

definition spawn_blocking ::
  "('d, 'b, 'h, 'g) deps \<Rightarrow> ('s, BlockStoreError, 'a) operation \<Rightarrow> ('s, BlockStoreError, 'a) operation" where
  "spawn_blocking D m =
     (\<lambda>s. case m s of
        (Panic p, s') \<Rightarrow> (Err (Serialization (ERR_ASYNC_JOIN_PREFIX @ dp_show_join D p)), s')
      | res \<Rightarrow> res)"

definition get_block_async ::
  "('d, 'b, 'h, 'g) deps \<Rightarrow> bytes32 \<Rightarrow> ('d, 'b, 'h, 'g, L2Block option) store_op" where
  "get_block_async D hash =
     tryM (block_cache_get D hash) (\<lambda>hit.
     case hit of
       Some block \<Rightarrow> returnM (Some block)
     | None \<Rightarrow> spawn_blocking D (get_block D hash))"

definition get_header_async ::
  "('d, 'b, 'h, 'g) deps \<Rightarrow> bytes32 \<Rightarrow> ('d, 'b, 'h, 'g, L2BlockHeader option) store_op" where
  "get_header_async D hash =
     tryM (header_cache_get D hash) (\<lambda>hit.
     case hit of
       Some hdr \<Rightarrow> returnM (Some hdr)
     | None \<Rightarrow> spawn_blocking D (get_header D hash))"

definition get_block_by_height_async ::
  "('d, 'b, 'h, 'g) deps \<Rightarrow> u64 \<Rightarrow> ('d, 'b, 'h, 'g, L2Block option) store_op" where
  "get_block_by_height_async D n = spawn_blocking D (get_block_by_height D n)"

section \<open>What reads return\<close>

text \<open>A state that a read of \<open>s0\<close> may reach.\<close>

definition reading ::
  "('d, 'b, 'h, 'g) deps \<Rightarrow> ('d \<Rightarrow> db_content) \<Rightarrow> ('d, 'b, 'h, 'g) store \<Rightarrow> ('d, 'b, 'h, 'g) store \<Rightarrow> bool" where
  "reading D content s0 s \<longleftrightarrow> store_inv D content s \<and> core s = core s0"

lemma reading_refl: "store_inv D content s \<Longrightarrow> reading D content s s"
  by (simp add: reading_def)

lemma yields_readingI:
  assumes "\<And>s r s'. store_inv D content s \<Longrightarrow> db s = db s0 \<Longrightarrow> active_dict s = active_dict s0 \<Longrightarrow>
      known_block D content s = known_block D content s0 \<Longrightarrow>
      known_header D content s = known_header D content s0 \<Longrightarrow>
      known_record D content s = known_record D content s0 \<Longrightarrow> m s = (r, s') \<Longrightarrow>
      store_inv D content s' \<and> core s' = core s \<and> (\<forall>x. r = Ok x \<longrightarrow> Q x)"
  shows "yields (reading D content s0) m Q"
  unfolding yields_def reading_def
proof (intro allI impI)
  fix s r s' assume s: "store_inv D content s \<and> core s = core s0" and run: "m s = (r, s')"
  then have c: "core s = core s0" by simp
  show "(store_inv D content s' \<and> core s' = core s0) \<and> (\<forall>x. r = Ok x \<longrightarrow> Q x)"
    using assms [OF _ core_eqD(1,8) [OF c] core_known(3-5) [OF c] run] s by simp
qed

context deps_laws
begin

lemma reading_steps:
  "yields (reading D content s0) (cf_handle D name) (\<lambda>_. True)"
  "yields (reading D content s0) (db_get D cf k) (\<lambda>r. r = content (db s0) cf k)"
  "yields (reading D content s0) (hash_to_height_insert D h n) (\<lambda>_. True)"
  "yields (reading D content s0) (block_cache_get D h)
     (\<lambda>r. case r of None \<Rightarrow> True | Some b \<Rightarrow> known_block D content s0 h b)"
  "yields (reading D content s0) (header_cache_get D h)
     (\<lambda>r. case r of None \<Rightarrow> True | Some hdr \<Rightarrow> known_header D content s0 h hdr)"
  "yields (reading D content s0) (getM (\<lambda>s. record_cache s h))
     (\<lambda>r. case r of None \<Rightarrow> True | Some rc \<Rightarrow> known_record D content s0 h rc)"
proof -
  show "yields (reading D content s0) (cf_handle D name) (\<lambda>_. True)"
    by (auto simp: yields_def cf_handle_def split: if_splits)
  show "yields (reading D content s0) (db_get D cf k) (\<lambda>r. r = content (db s0) cf k)"
    by (rule yields_readingI) (auto simp: db_get_def run_simps dest: get_sound)
  show "yields (reading D content s0) (hash_to_height_insert D h n) (\<lambda>_. True)"
    by (auto simp: yields_def hash_to_height_insert_def reading_def)
  show "yields (reading D content s0) (block_cache_get D h)
     (\<lambda>r. case r of None \<Rightarrow> True | Some b \<Rightarrow> known_block D content s0 h b)"
  proof (rule yieldsI)
    fix s r s' assume s: "reading D content s0 s" and run: "block_cache_get D h s = (r, s')"
    then have wf: "cache_wf (block_cache s)" by (simp add: reading_def store_inv_def data_inv_def blocks_cached_def headers_cached_def)
    have r: "r = Ok (cache_peek (dp_block_lru D) (block_cache s) h)"
      and s': "s' = s\<lparr>block_cache := snd (get_clone (dp_block_lru D) (block_cache s) h)\<rparr>"
      using run by (auto simp: block_cache_get_def split_beta blru.sharded.get_val [OF wf])
    have "known_block D content s0 h b" if "cache_peek (dp_block_lru D) (block_cache s) h = Some b" for b
      using that s core_known(3) [of s s0] by (auto simp: reading_def store_inv_def data_inv_def blocks_cached_def headers_cached_def)
    with r s' s show "reading D content s0 s' \<and> (\<forall>x. r = Ok x \<longrightarrow>
        (case x of None \<Rightarrow> True | Some b \<Rightarrow> known_block D content s0 h b))"
      by (auto simp: reading_def inv_block_get split: option.splits)
  qed
  show "yields (reading D content s0) (header_cache_get D h)
     (\<lambda>r. case r of None \<Rightarrow> True | Some hdr \<Rightarrow> known_header D content s0 h hdr)"
  proof (rule yieldsI)
    fix s r s' assume s: "reading D content s0 s" and run: "header_cache_get D h s = (r, s')"
    then have wf: "cache_wf (header_cache s)" by (simp add: reading_def store_inv_def data_inv_def blocks_cached_def headers_cached_def)
    have r: "r = Ok (cache_peek (dp_header_lru D) (header_cache s) h)"
      and s': "s' = s\<lparr>header_cache := snd (get_clone (dp_header_lru D) (header_cache s) h)\<rparr>"
      using run by (auto simp: header_cache_get_def split_beta hlru.sharded.get_val [OF wf])
    have "known_header D content s0 h hdr" if "cache_peek (dp_header_lru D) (header_cache s) h = Some hdr" for hdr
      using that s core_known(4) [of s s0] by (auto simp: reading_def store_inv_def data_inv_def blocks_cached_def headers_cached_def)
    with r s' s show "reading D content s0 s' \<and> (\<forall>x. r = Ok x \<longrightarrow>
        (case x of None \<Rightarrow> True | Some hdr \<Rightarrow> known_header D content s0 h hdr))"
      by (auto simp: reading_def inv_header_get split: option.splits)
  qed
  show "yields (reading D content s0) (getM (\<lambda>s. record_cache s h))
     (\<lambda>r. case r of None \<Rightarrow> True | Some rc \<Rightarrow> known_record D content s0 h rc)"
    by (rule yields_readingI) (auto simp: store_inv_def data_inv_def records_cached_def split: option.splits)
qed

lemma reading_counters:
  "yields (reading D content s0) (modifyM (\<lambda>s. s\<lparr>cf_blocks_physical_gets := f1 s\<rparr>)) (\<lambda>_. True)"
  "yields (reading D content s0) (modifyM (\<lambda>s. s\<lparr>cf_headers_physical_gets := f2 s\<rparr>)) (\<lambda>_. True)"
  "yields (reading D content s0) (modifyM (\<lambda>s. s\<lparr>cf_blocks_multi_get_batches := f3 s\<rparr>)) (\<lambda>_. True)"
  "yields (reading D content s0) (modifyM (\<lambda>s. s\<lparr>cf_blocks_stream_physical_gets := f4 s\<rparr>)) (\<lambda>_. True)"
  by (auto simp: yields_def reading_def)

lemma reading_inserts:
  "known_block D content s0 h b \<Longrightarrow> yields (reading D content s0) (block_cache_insert D h b) (\<lambda>_. True)"
  "known_header D content s0 h hdr \<Longrightarrow> yields (reading D content s0) (header_cache_insert D h hdr) (\<lambda>_. True)"
  "known_record D content s0 h rc \<Longrightarrow> yields (reading D content s0) (record_cache_insert h rc) (\<lambda>_. True)"
  "(min_retained_height_cached s0 \<le> n \<Longrightarrow> content (db s0) CF_CANONICAL (height_key n) = Some (hash_key x)) \<Longrightarrow>
    yields (reading D content s0) (insert_canonical_height_cache n x) (\<lambda>_. True)"
proof -
  show "yields (reading D content s0) (block_cache_insert D h b) (\<lambda>_. True)" if "known_block D content s0 h b"
    using that by (intro yields_readingI) (auto simp: block_cache_insert_def inv_block_insert)
  show "yields (reading D content s0) (header_cache_insert D h hdr) (\<lambda>_. True)" if "known_header D content s0 h hdr"
    using that by (intro yields_readingI) (auto simp: header_cache_insert_def inv_header_insert)
  show "yields (reading D content s0) (record_cache_insert h rc) (\<lambda>_. True)" if "known_record D content s0 h rc"
    using that by (intro yields_readingI) (auto simp: record_cache_insert_def inv_record_insert)
  show "yields (reading D content s0) (insert_canonical_height_cache n x) (\<lambda>_. True)"
    if "min_retained_height_cached s0 \<le> n \<Longrightarrow> content (db s0) CF_CANONICAL (height_key n) = Some (hash_key x)"
  proof (rule yieldsI)
    fix s r s' assume s: "reading D content s0 s" and run: "insert_canonical_height_cache n x s = (r, s')"
    from s have c: "core s = core s0" and inv: "store_inv D content s" by (auto simp: reading_def)
    have "store_inv D content s'"
      using inv_height_insert [OF inv, of n x] that core_eqD [OF c] run by simp
    moreover have "unchanged core (insert_canonical_height_cache n x :: ('d, 'b, 'h, 'g, unit) store_op)"
      by (intro frame_rules) simp
    from unchangedD [OF this run] have "core s' = core s" .
    ultimately show "reading D content s0 s' \<and> (\<forall>x. r = Ok x \<longrightarrow> True)" using c by (simp add: reading_def)
  qed
qed

lemma block_row:
  assumes "store_inv D content s0" and "content (db s0) CF_BLOCKS (hash_key h) = Some c"
  shows "\<exists>b. block_frame D (active_dict s0) b c \<and> known_block D content s0 h b \<and>
    known_header D content s0 h (blk_header b)"
proof -
  obtain b where "block_frame D (active_dict s0) b c" "dp_block_hash D b = h"
    "stored_header D content s0 h (blk_header b) \<or> hd_height (blk_header b) < min_retained_height_cached s0"
    using assms unfolding store_inv_def data_inv_def rows_ok_def by blast
  with assms(2) show ?thesis
    by (auto simp: known_block_def known_header_def stored_block_def block_hash_header)
qed

lemma reading_deserialize:
  "block_frame D (active_dict s0) b c \<Longrightarrow>
    yields (reading D content s0) (deserialize_block D c) (\<lambda>b'. b' = b)"
proof (rule yields_readingI)
  fix s r s'
  assume "block_frame D (active_dict s0) b c" and inv: "store_inv D content s"
    and d: "active_dict s = active_dict s0" and run: "deserialize_block D c s = (r, s')"
  then have "block_frame D (active_dict s) b c" by simp
  from deserialize_block_sound [OF this] run unchanged_state [OF unchanged_deserialize run] inv
  show "store_inv D content s' \<and> core s' = core s \<and> (\<forall>x. r = Ok x \<longrightarrow> x = b)" by auto
qed

lemma get_block_yields:
  assumes inv: "store_inv D content s0"
  shows "yields (reading D content s0) (get_block D h)
    (\<lambda>r. case r of Some b \<Rightarrow> known_block D content s0 h b
        | None \<Rightarrow> content (db s0) CF_BLOCKS (hash_key h) = None)"
  unfolding get_block_def
proof (intro yields_bind [OF reading_steps(4)] yields_option yields_bind [OF reading_steps(1)]
    yields_bind [OF reading_counters(1)] yields_bind [OF reading_steps(2)])
  fix raw_opt c
  assume "raw_opt = content (db s0) CF_BLOCKS (hash_key h)" and "raw_opt = Some c"
  then have row: "content (db s0) CF_BLOCKS (hash_key h) = Some c" by simp
  obtain b where fr: "block_frame D (active_dict s0) b c" and known: "known_block D content s0 h b" "known_header D content s0 h (blk_header b)"
    using block_row [OF inv row] by blast
  show "yields (reading D content s0)
     (tryM (deserialize_block D c) (\<lambda>block.
      tryM (block_cache_insert D h block) (\<lambda>_.
      tryM (header_cache_insert D h (blk_header block)) (\<lambda>_.
      tryM (hash_to_height_insert D h (dp_block_height D block)) (\<lambda>_. returnM (Some block))))))
     (\<lambda>r. case r of Some b \<Rightarrow> known_block D content s0 h b
        | None \<Rightarrow> content (db s0) CF_BLOCKS (hash_key h) = None)"
    by (rule yields_bind [OF reading_deserialize [OF fr]])
       (auto simp: known intro!: yields_bind [OF reading_inserts(1)] yields_bind [OF reading_inserts(2)]
         yields_bind [OF reading_steps(3)] yields_basic(1))
qed (auto intro!: yields_basic(1))

lemma header_row:
  assumes inv: "store_inv D content s0" and row: "Some c = content (db s0) CF_HEADERS (hash_key h)"
    and de: "deserialize_header D c = Ok hdr"
  shows "known_header D content s0 h hdr" and "stored_header D content s0 h hdr"
proof -
  obtain hdr' where ser: "dp_ser_header D hdr' = Inr c" and "dp_header_hash D hdr' = h"
    using inv row [symmetric] unfolding store_inv_def data_inv_def rows_ok_def by blast
  with de de_ser_header [OF ser] have "dp_ser_header D hdr = Inr c" "dp_header_hash D hdr = h"
    by (auto simp: run_simps)
  with row [symmetric] show "known_header D content s0 h hdr" "stored_header D content s0 h hdr"
    by (auto simp: known_header_def stored_header_def)
qed

lemma get_header_yields:
  assumes inv: "store_inv D content s0"
  shows "yields (reading D content s0) (get_header D h)
    (\<lambda>r. case r of Some hdr \<Rightarrow> known_header D content s0 h hdr
        | None \<Rightarrow> content (db s0) CF_HEADERS (hash_key h) = None)"
  unfolding get_header_def
  by (intro yields_bind [OF reading_steps(5)] yields_option yields_bind [OF reading_steps(1)]
      yields_bind [OF reading_counters(2)] yields_bind [OF reading_steps(2)]
      yields_bind [where m = "liftM r" and R = "\<lambda>x. r = Ok x" for r] yields_bind [OF reading_inserts(2)]
      yields_bind [OF reading_steps(3)] yields_basic)
     (auto intro: header_row [OF inv])

lemma known_record_of_header:
  "known_header D content s0 h hdr \<Longrightarrow> known_record D content s0 h (record_of_header D hdr)"
  by (auto simp: known_record_def)

lemma get_record_yields:
  assumes inv: "store_inv D content s0"
  shows "yields (reading D content s0) (get_record D h)
    (\<lambda>r. case r of Some rc \<Rightarrow> known_record D content s0 h rc
        | None \<Rightarrow> content (db s0) CF_HEADERS (hash_key h) = None)"
  unfolding get_record_def
  by (intro yields_bind [OF reading_steps(6)] yields_bind [OF reading_steps(5)] yields_option
      yields_bind [OF reading_steps(1)] yields_bind [OF reading_counters(2)] yields_bind [OF reading_steps(2)]
      yields_bind [where m = "liftM r" and R = "\<lambda>x. r = Ok x" for r] yields_bind [OF reading_inserts(2)]
      yields_bind [OF reading_inserts(3)] yields_basic)
     (auto intro: header_row [OF inv] known_record_of_header)

lemma has_block_yields:
  assumes inv: "store_inv D content s0"
  shows "yields (reading D content s0) (has_block D h)
    (\<lambda>r. if r then (\<exists>hdr. known_header D content s0 h hdr) \<or> (\<exists>b. known_block D content s0 h b)
        else content (db s0) CF_HEADERS (hash_key h) = None \<and> content (db s0) CF_BLOCKS (hash_key h) = None)"
proof -
  have cached: "(\<exists>hdr. known_header D content s0 h hdr) \<or> (\<exists>b. known_block D content s0 h b)"
    if s: "reading D content s0 s" and "cache_contains (dp_block_lru D) (block_cache s) h \<or>
      cache_contains (dp_header_lru D) (header_cache s) h" for s
  proof -
    have c: "core s = core s0" using s by (simp add: reading_def)
    have "(\<exists>hdr. known_header D content s h hdr) \<or> (\<exists>b. known_block D content s h b)"
      using that unfolding reading_def store_inv_def data_inv_def blocks_cached_def headers_cached_def
        cache_contains_peek not_None_eq by blast
    then show ?thesis by (simp add: core_known [OF c])
  qed
  have rows: "\<exists>hdr. known_header D content s0 h hdr" if "content (db s0) CF_HEADERS (hash_key h) \<noteq> None"
    using that inv unfolding store_inv_def data_inv_def rows_ok_def known_header_def stored_header_def by blast
  have rows': "\<exists>b. known_block D content s0 h b" if "content (db s0) CF_BLOCKS (hash_key h) \<noteq> None"
    using that block_row [OF inv] by blast
  show ?thesis
    unfolding has_block_def
    by (intro yields_bind [where m = "getM id" and R = "reading D content s0"] yields_if
        yields_bind [OF reading_steps(1)] yields_bind [OF reading_steps(2)] yields_basic)
       (use cached rows rows' in auto)
qed

lemma get_hash_by_height_yields:
  assumes inv: "store_inv D content s0"
  shows "yields (reading D content s0) (get_hash_by_height D n) (\<lambda>r. r = canonical_at content s0 n)"
  unfolding get_hash_by_height_def
proof (intro yields_bind [where m = "getM id" and R = "reading D content s0"] yields_if yields_option)
  fix s assume s: "reading D content s0 s" and min: "\<not> n < min_retained_height_cached s"
    and miss: "bt_get (canonical_height_cache s) n = None"
  have c: "core s = core s0" and inv_s: "store_inv D content s" using s by (auto simp: reading_def)
  have at: "canonical_at content s0 n = map_option bytes32_new (content (db s0) CF_CANONICAL (height_key n))"
    using min core_eqD(7) [OF c] by (simp add: canonical_at_def)
  have row: "content (db s0) CF_CANONICAL (height_key n) = Some v \<Longrightarrow> length v = 32" for v
    using inv unfolding store_inv_def index_ok_def by blast
  have ok: "bin_ok (canonical_bin s)" using inv_s by (simp add: store_inv_def index_ok_def)
  have slot: "content (db s0) CF_CANONICAL (height_key n) = Some (hash_key (bytes32_new arr))"
    if "read_hash_bytes (dp_oc D) (canonical_bin s) n = Ok (Some arr)" for arr
  proof -
    from bin.rd_slot [OF ok that] have "bin_slot (canonical_bin s) n = Some (bytes32_new arr)" by simp
    then show ?thesis using inv_s min core_eqD(1) [OF c] by (simp add: store_inv_def index_ok_def)
  qed
  show "yields (reading D content s0)
      (tryM (liftM (read_hash_bytes (dp_oc D) (canonical_bin s) n)) (\<lambda>slot.
         case slot of
           Some arr \<Rightarrow>
             tryM (insert_canonical_height_cache n (bytes32_new arr)) (\<lambda>_.
             returnM (Some (bytes32_new arr)))
         | None \<Rightarrow>
             tryM (cf_handle D CF_CANONICAL) (\<lambda>_.
             tryM (db_get D CF_CANONICAL (height_key n)) (\<lambda>r.
             case r of
               None \<Rightarrow> returnM None
             | Some hash_bytes \<Rightarrow>
                 if length hash_bytes \<noteq> 32
                 then failM (Serialization
                        ''get_hash_by_height: CF_CANONICAL value must be exactly 32 bytes'')
                 else
                   tryM (insert_canonical_height_cache n (bytes32_new hash_bytes)) (\<lambda>_.
                   returnM (Some (bytes32_new hash_bytes)))))))
      (\<lambda>r. r = canonical_at content s0 n)"
    by (intro yields_bind [where m = "liftM r" and R = "\<lambda>x. r = Ok x" for r] yields_option yields_if
        yields_bind [OF reading_inserts(4)] yields_bind [OF reading_steps(1)] yields_bind [OF reading_steps(2)]
        yields_basic)
       (auto simp: at slot hash_key_def bytes32_octets_new dest: sym)
next
  fix s x assume s: "reading D content s0 s" and "\<not> n < min_retained_height_cached s"
    and "bt_get (canonical_height_cache s) n = Some x"
  then have "content (db s) CF_CANONICAL (height_key n) = Some (hash_key x)"
    by (simp add: reading_def store_inv_def index_ok_def)
  then have "canonical_at content s n = Some x"
    using \<open>\<not> n < min_retained_height_cached s\<close> by (simp add: canonical_at_def hash_key_def)
  then show "yields (reading D content s0) (returnM (Some x)) (\<lambda>r. r = canonical_at content s0 n)"
    using s core_known(6) [of s s0] by (intro yields_basic) (simp add: reading_def)
next
  fix s assume "reading D content s0 s" and "n < min_retained_height_cached s"
  then show "yields (reading D content s0) (returnM None) (\<lambda>r. r = canonical_at content s0 n)"
    using core_eqD(7) [of s s0] by (intro yields_basic) (simp add: canonical_at_def reading_def)
qed (auto intro!: yields_basic)

lemma by_height_yields:
  assumes inv: "store_inv D content s0"
  shows "yields (reading D content s0) (get_block_by_height D n)
      (\<lambda>r. case canonical_at content s0 n of None \<Rightarrow> r = None
        | Some h \<Rightarrow> (case r of Some b \<Rightarrow> known_block D content s0 h b
            | None \<Rightarrow> content (db s0) CF_BLOCKS (hash_key h) = None))"
    and "yields (reading D content s0) (get_record_by_height D n)
      (\<lambda>r. case canonical_at content s0 n of None \<Rightarrow> r = None
        | Some h \<Rightarrow> (case r of Some rc \<Rightarrow> known_record D content s0 h rc
            | None \<Rightarrow> content (db s0) CF_HEADERS (hash_key h) = None))"
    and "yields (reading D content s0) (get_header_by_height D n)
      (\<lambda>r. case canonical_at content s0 n of None \<Rightarrow> r = None
        | Some h \<Rightarrow> (case r of Some hdr \<Rightarrow> known_header D content s0 h hdr
            | None \<Rightarrow> content (db s0) CF_HEADERS (hash_key h) = None))"
  unfolding get_block_by_height_def get_record_by_height_def get_header_by_height_def
  by (rule yields_bind [OF get_hash_by_height_yields [OF inv]],
      auto split: option.splits intro!: yields_basic(1)
        intro: yields_weaken [OF get_block_yields [OF inv]] yields_weaken [OF get_record_yields [OF inv]]
          yields_weaken [OF get_header_yields [OF inv]])+

end

text \<open>The list that a range query returns: one entry per height that yields something.\<close>

lemma collect_heights_yields:
  assumes "\<And>n. n \<in> set ns \<Longrightarrow> yields P (f n) (R n)"
  shows "yields P (collect_heights f ns) (\<lambda>xs. \<exists>rs. list_all2 R ns rs \<and> xs = List.map_filter id rs)"
proof -
  let ?I = "\<lambda>done xs. \<exists>rs. list_all2 R done rs \<and> xs = List.map_filter id rs"
  have "yields P (foldM (\<lambda>acc n. tryM (f n) (\<lambda>r. returnM (case r of None \<Rightarrow> acc | Some x \<Rightarrow> acc @ [x]))) [] ns) (?I ns)"
  proof (rule yields_foldM)
    fix ys n zs acc assume "ns = ys @ n # zs" and "?I ys acc"
    then obtain rs where rs: "list_all2 R ys rs" "acc = List.map_filter id rs" by blast
    have "?I (ys @ [n]) (case r of None \<Rightarrow> acc | Some x \<Rightarrow> acc @ [x])" if "R n r" for r
      using that rs by (intro exI [of _ "rs @ [r]"])
        (auto simp: list_all2_appendI map_filter_simps List.map_filter_def split: option.splits)
    then show "yields P (tryM (f n) (\<lambda>r. returnM (case r of None \<Rightarrow> acc | Some x \<Rightarrow> acc @ [x]))) (?I (ys @ [n]))"
      using \<open>ns = ys @ n # zs\<close> by (intro yields_bind [OF assms] yields_basic(1)) auto
  qed (simp add: List.map_filter_def)
  then show ?thesis by (simp add: collect_heights_def)
qed

lemma list_all2_functional: "list_all2 (\<lambda>n r. r = g n) ns rs \<longleftrightarrow> rs = map g ns"
  by (auto simp: list_all2_conv_all_nth intro: nth_equalityI)

text \<open>
  \<open>off_chain_path k h x\<close>: following \<open>k\<close> parent links from \<open>h\<close> leads to \<open>x\<close>, through blocks that
  are not canonical.
\<close>

inductive off_chain_path ::
  "('d, 'b, 'h, 'g) deps \<Rightarrow> ('d \<Rightarrow> db_content) \<Rightarrow> ('d, 'b, 'h, 'g) store \<Rightarrow> nat \<Rightarrow> bytes32 \<Rightarrow> bytes32 \<Rightarrow> bool"
  for D content s where
  here: "off_chain_path D content s 0 h h"
| up: "known_header D content s h hdr \<Longrightarrow> canonical_at content s (hd_height hdr) \<noteq> Some h \<Longrightarrow>
    off_chain_path D content s k (hd_parent_hash hdr) x \<Longrightarrow> off_chain_path D content s (Suc k) h x"

context deps_laws
begin

lemma collect_hashes_yields:
  assumes inv: "store_inv D content s0"
  shows "yields (reading D content s0) (collect_heights (get_hash_by_height D) ns)
    (\<lambda>xs. xs = List.map_filter (canonical_at content s0) ns)"
  using collect_heights_yields [OF get_hash_by_height_yields [OF inv]]
  by (rule yields_weaken) (simp add: list_all2_functional List.map_filter_def filter_map comp_def)

lemma blocks_to_revert_yields:
  assumes inv: "store_inv D content s0"
  shows "yields (reading D content s0) (blocks_to_revert D target)
    (\<lambda>xs. xs = (case tip s0 of None \<Rightarrow> []
       | Some t \<Rightarrow> if tip_height t \<le> target then []
           else List.map_filter (canonical_at content s0) (rev (range_incl (target + 1) (tip_height t)))))"
  unfolding blocks_to_revert_def
  by (intro yields_bind [where m = "getM tip" and R = "\<lambda>t. t = tip s0"] yields_option yields_if
      yields_bind [where m = "liftM r" and R = "\<lambda>x. r = Ok x" for r] yields_basic
      yields_weaken [OF collect_hashes_yields [OF inv]])
     (auto simp: reading_def run_simps dest: core_eqD(3) split: option.splits)

lemma get_blocks_in_range_yields:
  assumes inv: "store_inv D content s0"
  shows "yields (reading D content s0) (get_blocks_in_range D a b)
    (\<lambda>xs. \<exists>rs. xs = List.map_filter id rs \<and>
       list_all2 (\<lambda>n r. case canonical_at content s0 n of None \<Rightarrow> r = None
        | Some h \<Rightarrow> (case r of Some b \<Rightarrow> known_block D content s0 h b
            | None \<Rightarrow> content (db s0) CF_BLOCKS (hash_key h) = None)) (range_incl a b) rs)"
proof -
  have empty: "range_incl a b = []" if "b < a"
    using that by (simp add: range_incl_def word_less_nat_alt)
  show ?thesis
    unfolding get_blocks_in_range_def
    by (intro yields_if yields_basic(1) yields_bind [where m = "liftM r" and R = "\<lambda>x. True" for r]
        yields_weaken [OF collect_heights_yields [OF by_height_yields(1) [OF inv]]])
       (auto simp: empty List.map_filter_def intro: yields_basic)
qed

lemma collect_until_gap_yields:
  assumes inv: "store_inv D content s0"
  shows "yields (reading D content s0) (collect_until_gap D ns acc)
    (\<lambda>xs. xs = acc @ map (the \<circ> canonical_at content s0) (takeWhile (\<lambda>n. canonical_at content s0 n \<noteq> None) ns))"
proof (induction ns arbitrary: acc)
  case (Cons n ns)
  show ?case
    by (auto intro!: yields_bind [OF get_hash_by_height_yields [OF inv]] yields_option yields_basic(1)
        intro: yields_weaken [OF Cons.IH] simp flip: not_None_eq split: option.splits)
qed (auto intro: yields_basic(1) simp flip: returnM_def)

lemma warm_caches_yields:
  assumes inv: "store_inv D content s0"
  shows "yields (reading D content s0) (warm_caches D depth) (\<lambda>_. True)"
  unfolding warm_caches_def Let_def
  by (intro yields_bind [where m = "getM tip" and R = "\<lambda>_. True"] yields_option yields_basic
      yields_foldM [where I = "\<lambda>_ _. True"] yields_bind [OF yields_okM [OF by_height_yields(1) [OF inv]]]
      yields_bind [OF yields_okM [OF by_height_yields(2) [OF inv]]]) auto

lemma walk_ancestors_yields:
  assumes inv: "store_inv D content s0"
  shows "yields (reading D content s0) (walk_ancestors D depth h)
    (\<lambda>r. case r of
         Some (x, n) \<Rightarrow> \<exists>k < depth. off_chain_path D content s0 k h x \<and> canonical_at content s0 n = Some x \<and>
            (\<exists>hdr. known_header D content s0 x hdr \<and> hd_height hdr = n)
       | None \<Rightarrow> \<exists>k x. off_chain_path D content s0 k h x \<and>
            (k = depth \<or> k < depth \<and> content (db s0) CF_HEADERS (hash_key x) = None))"
    (is "yields _ _ (?Q depth h)")
proof (induction depth arbitrary: h)
  case 0
  then show ?case unfolding walk_ancestors.simps
    by (intro yields_basic(1)) (auto intro: off_chain_path.here)
next
  case (Suc depth)
  show ?case
    unfolding walk_ancestors.simps
  proof (intro yields_bind [OF get_record_yields [OF inv]] yields_option
      yields_bind [OF reading_steps(3)] yields_bind [OF get_hash_by_height_yields [OF inv]] yields_if)
    fix r assume "case r of Some rc \<Rightarrow> known_record D content s0 h rc | None \<Rightarrow> content (db s0) CF_HEADERS (hash_key h) = None"
      and "r = None"
    then show "yields (reading D content s0) (returnM None) (?Q (Suc depth) h)"
      by (intro yields_basic(1)) (auto intro: off_chain_path.intros)
  next
    fix r rc c
    assume "case r of Some rc \<Rightarrow> known_record D content s0 h rc | None \<Rightarrow> content (db s0) CF_HEADERS (hash_key h) = None"
      and "r = Some rc" and c: "c = canonical_at content s0 (br_height rc)"
    then obtain hdr where hdr: "known_header D content s0 h hdr" and m: "record_matches D hdr rc"
      by (auto simp: known_record_def)
    note f = record_matches_fields [OF m]
    show "yields (reading D content s0) (returnM (Some (h, br_height rc))) (?Q (Suc depth) h)" if "c = Some h"
      using that c hdr f by (intro yields_basic(1)) (auto intro!: exI [of _ 0] off_chain_path.intros)
    show "yields (reading D content s0) (walk_ancestors D depth (br_parent_hash rc)) (?Q (Suc depth) h)" if "c \<noteq> Some h"
    proof (rule yields_weaken [OF Suc.IH])
      fix res assume res: "?Q depth (br_parent_hash rc) res"
      have step: "off_chain_path D content s0 k (br_parent_hash rc) x \<Longrightarrow> off_chain_path D content s0 (Suc k) h x" for k x
        using that c hdr f by (auto intro: off_chain_path.intros)
      show "?Q (Suc depth) h res"
      proof (cases res)
        case None
        with res obtain k x where "off_chain_path D content s0 k (br_parent_hash rc) x"
          "k = depth \<or> k < depth \<and> content (db s0) CF_HEADERS (hash_key x) = None" by auto
        with step None show ?thesis by (auto intro!: exI [of _ "Suc k"])
      next
        case (Some xn)
        obtain x n where xn: "xn = (x, n)" by force
        with Some res obtain k where "k < depth" "off_chain_path D content s0 k (br_parent_hash rc) x"
          "canonical_at content s0 n = Some x" "\<exists>hdr. known_header D content s0 x hdr \<and> hd_height hdr = n"
          by auto
        with step have "Suc k < Suc depth \<and> off_chain_path D content s0 (Suc k) h x \<and>
          canonical_at content s0 n = Some x \<and> (\<exists>hdr. known_header D content s0 x hdr \<and> hd_height hdr = n)" by blast
        then show ?thesis unfolding Some xn option.case prod.case by blast
      qed
    qed
  qed
qed

end

lemma enumerate_split:
  "enumerate 0 xs = ys @ p # zs \<Longrightarrow> p = (length ys, xs ! length ys) \<and> length ys < length xs"
proof -
  assume eq: "enumerate 0 xs = ys @ p # zs"
  then have "length (enumerate 0 xs) = length (ys @ p # zs)" by simp
  then have len: "length ys < length xs" by simp
  have "enumerate 0 xs ! length ys = p" by (simp add: eq)
  with len show ?thesis by (simp add: nth_enumerate_eq)
qed

context deps_laws
begin

lemma probe_block_cache_yields:
  assumes inv: "store_inv D content s0"
  shows "yields (reading D content s0) (probe_block_cache D hashes)
    (\<lambda>(results, miss). length results = length hashes \<and> set miss \<subseteq> {..<length hashes} \<and>
       (\<forall>i < length hashes. case results ! i of
          Some b \<Rightarrow> known_block D content s0 (hashes ! i) b | None \<Rightarrow> i \<in> set miss))"
proof -
  let ?I = "\<lambda>done (results, miss). length results = length hashes \<and> set miss \<subseteq> {..<length hashes} \<and>
       (\<forall>i < length hashes. case results ! i of
          Some b \<Rightarrow> known_block D content s0 (hashes ! i) b | None \<Rightarrow> i < length done \<longrightarrow> i \<in> set miss)"
  have "yields (reading D content s0) (probe_block_cache D hashes) (?I (enumerate 0 hashes))"
    unfolding probe_block_cache_def
  proof (rule yields_foldM)
    fix ys p zs acc assume split: "enumerate 0 hashes = ys @ p # zs" and I: "?I ys acc"
    from enumerate_split [OF split] obtain h where p: "p = (length ys, h)" "h = hashes ! length ys"
      and len: "length ys < length hashes" by auto
    obtain results miss where acc: "acc = (results, miss)" by force
    show "yields (reading D content s0)
      ((\<lambda>(results, miss_indices) (i, hash).
         tryM (block_cache_get D hash) (\<lambda>hit.
         case hit of
           Some block \<Rightarrow> returnM (results[i := Some block], miss_indices)
         | None \<Rightarrow> returnM (results, miss_indices @ [i]))) acc p) (?I (ys @ [p]))"
      unfolding acc p(1) prod.case
      by (intro yields_bind [OF reading_steps(4)] yields_option yields_basic(1))
         (use I len p(2) in \<open>auto simp: acc nth_list_update less_Suc_eq split: option.splits\<close>)
  qed (auto split: option.splits)
  then show ?thesis by (rule yields_weaken) (auto split: option.splits)
qed

lemma fill_miss_yields:
  assumes inv: "store_inv D content s0"
    and j: "j < length miss" "set miss \<subseteq> {..<length hashes}" "length results = length hashes"
    and raw: "\<And>r. db_result = Inr r \<Longrightarrow> r = content (db s0) CF_BLOCKS (hash_key (hashes ! (miss ! j)))"
  shows "yields (reading D content s0) (fill_miss D hashes miss results (j, db_result))
    (\<lambda>results'. if content (db s0) CF_BLOCKS (hash_key (hashes ! (miss ! j))) = None then results' = results
       else \<exists>b. known_block D content s0 (hashes ! (miss ! j)) b \<and> results' = results[miss ! j := Some b])"
proof -
  let ?h = "hashes ! (miss ! j)"
  show ?thesis
  proof (cases "content (db s0) CF_BLOCKS (hash_key ?h)")
    case None
    with j raw show ?thesis
      unfolding fill_miss_def prod.case Let_def next_item_def
      by (auto intro!: yields_bind [where m = "liftM r" and R = "\<lambda>x. r = Ok x" for r] yields_basic
          simp: run_simps split: option.splits)
  next
    case (Some c)
    from block_row [OF inv this] obtain b where b: "block_frame D (active_dict s0) b c" "known_block D content s0 ?h b"
        "known_header D content s0 ?h (blk_header b)" by blast
    have "yields (reading D content s0) (next_item db_result) (\<lambda>r. r = Some c)"
      using raw Some by (auto simp: next_item_def run_simps intro!: yields_basic)
    with j b Some show ?thesis
      unfolding fill_miss_def prod.case Let_def
      by (auto intro!: yields_bind [where R = "\<lambda>r. r = Some c"] yields_bind [OF reading_deserialize [OF b(1)]]
          yields_bind [OF reading_inserts(1)] yields_bind [OF reading_inserts(2)] yields_basic(1))
  qed
qed

lemma get_blocks_by_hash_yields:
  assumes inv: "store_inv D content s0"
  shows "yields (reading D content s0) (get_blocks_by_hash D hashes)
    (\<lambda>results. length results = length hashes \<and> (\<forall>i < length hashes. case results ! i of
       Some b \<Rightarrow> known_block D content s0 (hashes ! i) b
     | None \<Rightarrow> content (db s0) CF_BLOCKS (hash_key (hashes ! i)) = None))"
    (is "yields _ _ ?Q")
  unfolding get_blocks_by_hash_def
proof (intro yields_bind [OF probe_block_cache_yields [OF inv]])
  fix rm :: "L2Block option list \<times> nat list"
  obtain results miss where rm: "rm = (results, miss)" by force
  assume "case rm of (results, miss) \<Rightarrow> length results = length hashes \<and> set miss \<subseteq> {..<length hashes} \<and>
       (\<forall>i < length hashes. case results ! i of
          Some b \<Rightarrow> known_block D content s0 (hashes ! i) b | None \<Rightarrow> i \<in> set miss)"
  then have r: "length results = length hashes" and m: "set miss \<subseteq> {..<length hashes}"
    and known: "\<And>i. i < length hashes \<Longrightarrow> case results ! i of
          Some b \<Rightarrow> known_block D content s0 (hashes ! i) b | None \<Rightarrow> i \<in> set miss" by (auto simp: rm)
  let ?keys = "map (\<lambda>idx. (CF_BLOCKS, hash_key (hashes ! idx))) miss"
  let ?I = "\<lambda>done results. length results = length hashes \<and> (\<forall>i < length hashes. case results ! i of
       Some b \<Rightarrow> known_block D content s0 (hashes ! i) b
     | None \<Rightarrow> i \<in> set miss \<and> (i \<in> set (take (length done) miss) \<longrightarrow>
         content (db s0) CF_BLOCKS (hash_key (hashes ! i)) = None))"
  have loop: "yields (reading D content s0) (foldM (fill_miss D hashes miss) results (enumerate 0 items)) ?Q"
    if items: "items = rk_multi_get_cf (dp_rocks D) (db s0) ?keys" for items
  proof (rule yields_weaken [OF yields_foldM [where I = ?I]])
    fix ys p zs acc assume split: "enumerate 0 items = ys @ p # zs" and I: "?I ys acc"
    have len: "length items = length miss" by (simp add: items multi_get_length)
    from enumerate_split [OF split] len have p: "p = (length ys, items ! length ys)" and j: "length ys < length miss" by auto
    have raw: "rw = content (db s0) CF_BLOCKS (hash_key (hashes ! (miss ! length ys)))"
      if "items ! length ys = Inr rw" for rw
      using multi_get_sound [of "length ys" ?keys] j that by (simp add: items)
    have idx: "miss ! length ys < length acc" using I j m by (auto simp: subset_iff)
    have keep: "?I (ys @ [p]) x" if "if content (db s0) CF_BLOCKS (hash_key (hashes ! (miss ! length ys))) = None
        then x = acc else \<exists>b. known_block D content s0 (hashes ! (miss ! length ys)) b \<and> x = acc[miss ! length ys := Some b]" for x
    proof (cases "content (db s0) CF_BLOCKS (hash_key (hashes ! (miss ! length ys)))")
      case None
      with that I j show ?thesis by (auto simp: take_Suc_conv_app_nth split: option.splits)
    next
      case (Some c)
      with that obtain b where "known_block D content s0 (hashes ! (miss ! length ys)) b"
        "x = acc[miss ! length ys := Some b]" by auto
      with I j idx show ?thesis
        by (auto simp: take_Suc_conv_app_nth nth_list_update split: option.splits)
    qed
    show "yields (reading D content s0) (fill_miss D hashes miss acc p) (?I (ys @ [p]))"
      unfolding p by (rule yields_weaken [OF fill_miss_yields [OF inv j m _ raw]]) (use I keep p in auto)
  next
    show "?I [] results"
    proof (intro conjI allI impI)
      fix i assume "i < length hashes"
      from known [OF this] show "case results ! i of
          Some b \<Rightarrow> known_block D content s0 (hashes ! i) b
        | None \<Rightarrow> i \<in> set miss \<and> (i \<in> set (take (length []) miss) \<longrightarrow>
            content (db s0) CF_BLOCKS (hash_key (hashes ! i)) = None)"
        by (auto split: option.splits)
    qed (rule r)
  next
    fix x assume "?I (enumerate 0 items) x"
    then show "?Q x" by (auto simp: items multi_get_length split: option.splits)
  qed
  have all_hit: "case results ! i of Some b \<Rightarrow> known_block D content s0 (hashes ! i) b
     | None \<Rightarrow> content (db s0) CF_BLOCKS (hash_key (hashes ! i)) = None" if "miss = []" "i < length hashes" for i
    using known [OF that(2)] that(1) by (auto split: option.splits)
  have multi: "yields (reading D content s0) (getM (\<lambda>s. rk_multi_get_cf (dp_rocks D) (db s) ?keys))
      (\<lambda>items. items = rk_multi_get_cf (dp_rocks D) (db s0) ?keys)"
    by (rule yields_readingI) auto
  show "yields (reading D content s0) (case rm of (results, miss_indices) \<Rightarrow>
     if miss_indices = [] then returnM results
     else
       tryM (cf_handle D CF_BLOCKS) (\<lambda>_.
       tryM (modifyM (\<lambda>s. s\<lparr>cf_blocks_multi_get_batches := cf_blocks_multi_get_batches s + 1\<rparr>)) (\<lambda>_.
       tryM (getM (\<lambda>s. rk_multi_get_cf (dp_rocks D) (db s)
                          (map (\<lambda>idx. (CF_BLOCKS, hash_key (hashes ! idx))) miss_indices))) (\<lambda>db_results.
       foldM (fill_miss D hashes miss_indices) results (enumerate 0 db_results))))) ?Q"
    unfolding rm prod.case
    by (intro yields_if yields_basic(1) yields_bind [OF reading_steps(1)] yields_bind [OF reading_counters(3)]
        yields_bind [OF multi] loop)
       (auto simp: r all_hit)
qed

end

end
