(* ===== verification/Writes.thy ===== *)
theory Writes
  imports Reads
begin

text \<open>
  The operations that store blocks and maintain the canonical index and the tip
  (\<open>src/store.rs\<close>, \<open>src/canonical/index.rs\<close>).

  The lemmas show that every operation that succeeds keeps the invariant, with two exceptions
  that the code has: \<open>set_canonical_batch\<close> and \<open>init_genesis\<close> do not refresh the height cache.
\<close>

section \<open>Operations\<close>

definition set_tip ::
  "('d, 'b, 'h, 'g) deps \<Rightarrow> ChainTip \<Rightarrow> ('d, 'b, 'h, 'g, unit) store_op" where
  "set_tip D new_tip =
     tryM require_writable (\<lambda>_.
     tryM (cf_handle D CF_METADATA) (\<lambda>_.
     tryM (db_put D CF_METADATA (as_bytes META_TIP) (tip_to_bytes new_tip)) (\<lambda>_.
     modifyM (\<lambda>s. s\<lparr>tip := Some new_tip\<rparr>))))"

definition block_rows :: "('d, 'b, 'h, 'g) deps \<Rightarrow> L2Block \<Rightarrow> bytes \<Rightarrow> bytes \<Rightarrow> write_batch" where
  "block_rows D block compressed header_bytes =
     [PutCf CF_BLOCKS (hash_key (dp_block_hash D block)) compressed,
      PutCf CF_HEADERS (hash_key (dp_block_hash D block)) header_bytes]"

definition put_block ::
  "('d, 'b, 'h, 'g) deps \<Rightarrow> L2Block \<Rightarrow> bool \<Rightarrow> ('d, 'b, 'h, 'g, bool) store_op" where
  "put_block D block canonical =
     tryM require_writable (\<lambda>_.
     let hash = dp_block_hash D block in
     tryM (cf_handle D CF_BLOCKS) (\<lambda>_.
     tryM (db_get D CF_BLOCKS (hash_key hash)) (\<lambda>existing.
     if existing \<noteq> None then returnM False
     else
       tryM (serialize_block D block) (\<lambda>compressed.
       tryM (liftM (serialize_header D (blk_header block))) (\<lambda>header_bytes.
       tryM (cf_handle D CF_HEADERS) (\<lambda>_.
       tryM (if canonical then cf_handle D CF_CANONICAL else returnM ()) (\<lambda>_.
       tryM (db_write D (block_rows D block compressed header_bytes @
              (if canonical then [PutCf CF_CANONICAL (height_key (dp_block_height D block)) (hash_key hash)]
               else []))) (\<lambda>_.
       tryM (if canonical
             then tryM (with_bin (extend_write (dp_io D) (dp_block_height D block) hash)) (\<lambda>_.
                  insert_canonical_height_cache (dp_block_height D block) hash)
             else returnM ()) (\<lambda>_.
       tryM (record_cache_insert hash (record_of_header D (blk_header block))) (\<lambda>_.
       tryM (block_cache_insert D hash block) (\<lambda>_.
       tryM (header_cache_insert D hash (blk_header block)) (\<lambda>_.
       tryM (hash_to_height_insert D hash (dp_block_height D block)) (\<lambda>_.
       tryM (maybe_train_dictionary D) (\<lambda>_.
       returnM True))))))))))))))"

definition put ::
  "('d, 'b, 'h, 'g) deps \<Rightarrow> L2Block \<Rightarrow> bool \<Rightarrow> ('d, 'b, 'h, 'g, bool) store_op" where
  "put D block canonical = put_block D block canonical"

definition init_genesis ::
  "('d, 'b, 'h, 'g) deps \<Rightarrow> L2Block \<Rightarrow> ('d, 'b, 'h, 'g, unit) store_op" where
  "init_genesis D block =
     tryM (\<lambda>s. if read_only s then (Err (Serialization ERR_INIT_GENESIS_READ_ONLY), s) else (Ok (), s)) (\<lambda>_.
     tryM (cf_handle D CF_METADATA) (\<lambda>_.
     tryM (db_get D CF_METADATA (as_bytes META_TIP)) (\<lambda>t.
     tryM (if t \<noteq> None then returnM True
           else tryM (db_get D CF_METADATA (as_bytes META_GENESIS_HASH)) (\<lambda>g. returnM (g \<noteq> None))) (\<lambda>initialized.
     if initialized then failM (Serialization ERR_INIT_GENESIS_ALREADY_INITIALIZED)
     else
       let hash = dp_block_hash D block in
       if dp_block_height D block \<noteq> 0
       then failM (Serialization (''init_genesis: genesis block height must be 0, got '' @
              show_word (dp_block_height D block)))
       else
         tryM (serialize_block D block) (\<lambda>compressed.
         tryM (liftM (serialize_header D (blk_header block))) (\<lambda>header_bytes.
         let new_tip = \<lparr>tip_hash = hash, tip_height = 0\<rparr> in
         tryM (cf_handle D CF_BLOCKS) (\<lambda>_.
         tryM (cf_handle D CF_HEADERS) (\<lambda>_.
         tryM (cf_handle D CF_CANONICAL) (\<lambda>_.
         tryM (db_write D (block_rows D block compressed header_bytes @
                [PutCf CF_CANONICAL (height_key 0) (hash_key hash),
                 PutCf CF_METADATA (as_bytes META_TIP) (tip_to_bytes new_tip),
                 PutCf CF_METADATA (as_bytes META_GENESIS_HASH) (bytes32_octets hash)])) (\<lambda>_.
         tryM (with_bin (extend_write (dp_io D) 0 hash)) (\<lambda>_.
         tryM (modifyM (\<lambda>s. s\<lparr>tip := Some new_tip\<rparr>)) (\<lambda>_.
         tryM (record_cache_insert hash (record_of_header D (blk_header block))) (\<lambda>_.
         tryM (block_cache_insert D hash block) (\<lambda>_.
         tryM (header_cache_insert D hash (blk_header block)) (\<lambda>_.
         maybe_train_dictionary D)))))))))))))))"

text \<open>The record of a block made canonical: flag it in the cache, or cache the given record flagged.\<close>

definition mark_canonical :: "bytes32 \<Rightarrow> BlockRecord \<Rightarrow> ('d, 'b, 'h, 'g, unit) store_op" where
  "mark_canonical hash record =
     modifyM (\<lambda>s. s\<lparr>record_cache := (record_cache s)(hash \<mapsto>
        (case record_cache s hash of
           Some r \<Rightarrow> r\<lparr>in_canonical_chain := True\<rparr>
         | None \<Rightarrow> record\<lparr>in_canonical_chain := True\<rparr>))\<rparr>)"

definition set_canonical ::
  "('d, 'b, 'h, 'g) deps \<Rightarrow> bytes32 \<Rightarrow> ('d, 'b, 'h, 'g, unit) store_op" where
  "set_canonical D hash =
     tryM require_writable (\<lambda>_.
     tryM (get_record D hash) (\<lambda>r.
     case r of
       None \<Rightarrow> failM (BlockNotInStore hash)
     | Some record \<Rightarrow>
         tryM (cf_handle D CF_CANONICAL) (\<lambda>_.
         tryM (db_put D CF_CANONICAL (height_key (br_height record)) (hash_key hash)) (\<lambda>_.
         tryM (with_bin (extend_write (dp_io D) (br_height record) hash)) (\<lambda>_.
         tryM (insert_canonical_height_cache (br_height record) hash) (\<lambda>_.
         tryM (hash_to_height_insert D hash (br_height record)) (\<lambda>_.
         mark_canonical hash record)))))))"

text \<open>The records of a list of hashes, failing at the first that is not in the store.\<close>

definition validate_hashes ::
  "('d, 'b, 'h, 'g) deps \<Rightarrow> bytes32 list \<Rightarrow> ('d, 'b, 'h, 'g, (bytes32 \<times> BlockRecord) list) store_op" where
  "validate_hashes D hashes =
     foldM (\<lambda>validated hash.
         tryM (get_record D hash) (\<lambda>r.
         case r of
           None \<Rightarrow> failM (BlockNotInStore hash)
         | Some record \<Rightarrow> returnM (validated @ [(hash, record)]))) [] hashes"

definition set_canonical_batch ::
  "('d, 'b, 'h, 'g) deps \<Rightarrow> bytes32 list \<Rightarrow> ('d, 'b, 'h, 'g, unit) store_op" where
  "set_canonical_batch D hashes =
     tryM require_writable (\<lambda>_.
     if hashes = [] then returnM ()
     else
       tryM (validate_hashes D hashes) (\<lambda>validated.
       tryM (cf_handle D CF_CANONICAL) (\<lambda>_.
       tryM (db_write D (map (\<lambda>(hash, record).
              PutCf CF_CANONICAL (height_key (br_height record)) (hash_key hash)) validated)) (\<lambda>_.
       forM validated (\<lambda>(hash, record).
         tryM (with_bin (extend_write (dp_io D) (br_height record) hash)) (\<lambda>_.
         mark_canonical hash record))))))"

definition extend_chain ::
  "('d, 'b, 'h, 'g) deps \<Rightarrow> L2Block \<Rightarrow> ('d, 'b, 'h, 'g, bool) store_op" where
  "extend_chain D block =
     (let hash = dp_block_hash D block in
      tryM (has_block D hash) (\<lambda>present.
      if present then returnM False
      else
        tryM (put D block True) (\<lambda>_.
        tryM (set_tip D \<lparr>tip_hash = hash, tip_height = dp_block_height D block\<rparr>) (\<lambda>_.
        returnM True))))"

definition update_status ::
  "('d, 'b, 'h, 'g) deps \<Rightarrow> bytes32 \<Rightarrow> BlockStatus \<Rightarrow> ('d, 'b, 'h, 'g, unit) store_op" where
  "update_status D hash status =
     (\<lambda>s. case record_cache s hash of
        None \<Rightarrow> (Err (Serialization (ERR_UPDATE_STATUS_RECORD_NOT_CACHED_PREFIX @ dp_show_hash D hash)), s)
      | Some record \<Rightarrow>
          (Ok (), s\<lparr>record_cache := (record_cache s)(hash \<mapsto>
             record\<lparr>br_status := status, in_canonical_chain := dp_is_canonical D status\<rparr>)\<rparr>))"

section \<open>Independent parts of the invariant\<close>

lemmas meta_keys_distinct [simp] =
  metadata_keys_distinct [unfolded metadata_key_def] metadata_keys_distinct_sym [unfolded metadata_key_def]

lemma data_inv_updates [simp]:
  "data_inv D content (s\<lparr>canonical_bin := x1\<rparr>) = data_inv D content s"
  "data_inv D content (s\<lparr>canonical_height_cache := x2\<rparr>) = data_inv D content s"
  "data_inv D content (s\<lparr>tip := x3\<rparr>) = data_inv D content s"
  "data_inv D content (s\<lparr>hash_to_height_cache := x4\<rparr>) = data_inv D content s"
  "data_inv D content (s\<lparr>pipeline_write_batches := x5\<rparr>) = data_inv D content s"
  by (simp_all add: data_inv_def rows_ok_def blocks_cached_def headers_cached_def records_cached_def
      known_defs active_dict_def)

lemma meta_ok_updates [simp]:
  "meta_ok content (s\<lparr>canonical_bin := x1\<rparr>) = meta_ok content s"
  "meta_ok content (s\<lparr>zstd_dict := x2\<rparr>) = meta_ok content s"
  by (simp_all add: meta_ok_def cong: option.case_cong)

lemma index_ok_updates [simp]:
  "index_ok content (s\<lparr>record_cache := x1\<rparr>) = index_ok content s"
  "index_ok content (s\<lparr>block_cache := x2\<rparr>) = index_ok content s"
  "index_ok content (s\<lparr>header_cache := x3\<rparr>) = index_ok content s"
  "index_ok content (s\<lparr>hash_to_height_cache := x4\<rparr>) = index_ok content s"
  "index_ok content (s\<lparr>tip := x5\<rparr>) = index_ok content s"
  "index_ok content (s\<lparr>zstd_dict := x6\<rparr>) = index_ok content s"
  "index_ok content (s\<lparr>pipeline_write_batches := x7\<rparr>) = index_ok content s"
  by (simp_all add: index_ok_def)

lemma insert_height_fields [simp]:
  "data_inv D content (snd (insert_canonical_height_cache n x s)) = data_inv D content s"
  "meta_ok content (snd (insert_canonical_height_cache n x s)) = meta_ok content s"
  "record_cache (snd (insert_canonical_height_cache n x s)) = record_cache s"
  "block_cache (snd (insert_canonical_height_cache n x s)) = block_cache s"
  "header_cache (snd (insert_canonical_height_cache n x s)) = header_cache s"
  "db (snd (insert_canonical_height_cache n x s)) = db s"
  by (simp_all add: insert_canonical_height_cache_def)

section \<open>New rows\<close>

context deps_laws
begin

lemma data_inv_new_block:
  assumes inv: "data_inv D (\<lambda>_. X) s" and new: "X CF_BLOCKS (hash_key h) = None"
    and fr: "block_frame D (active_dict s) b c" and ser: "dp_ser_header D (blk_header b) = Inr c'"
    and h: "dp_block_hash D b = h"
    and X': "X' CF_BLOCKS = (X CF_BLOCKS)(hash_key h \<mapsto> c)" "X' CF_HEADERS = (X CF_HEADERS)(hash_key h \<mapsto> c')"
  shows "data_inv D (\<lambda>_. X') s"
proof -
  have rows: "rows_ok D (\<lambda>_. X) s" using inv by (simp add: data_inv_def)
  have hdr_mono: "known_header D (\<lambda>_. X') s k hdr" if k: "known_header D (\<lambda>_. X) s k hdr" for k hdr
  proof (cases "k = h \<and> stored_header D (\<lambda>_. X) s k hdr")
    case True
    then obtain r where r: "X CF_HEADERS (hash_key h) = Some r" "dp_ser_header D hdr = Inr r"
      by (auto simp: stored_header_def)
    with rows obtain hdr' where "dp_ser_header D hdr' = Inr r" "hd_height hdr' < min_retained_height_cached s"
      using new unfolding rows_ok_def by blast
    with r(2) have "hd_height hdr < min_retained_height_cached s"
      by (metis de_ser_header sum.inject(2))
    with k show ?thesis by (simp add: known_header_def)
  next
    case False
    with k show ?thesis by (auto simp: known_header_def stored_header_def X')
  qed
  have blk_mono: "known_block D (\<lambda>_. X') s k b'" if "known_block D (\<lambda>_. X) s k b'" for k b'
    using that new by (auto simp: known_block_def stored_block_def X')
  have "rows_ok D (\<lambda>_. X') s"
    unfolding rows_ok_def
  proof (intro conjI allI impI)
    fix k r assume r: "X' CF_BLOCKS (hash_key k) = Some r"
    show "\<exists>b. block_frame D (active_dict s) b r \<and> dp_block_hash D b = k \<and>
        (stored_header D (\<lambda>_. X') s k (blk_header b) \<or>
          X' CF_HEADERS (hash_key k) = None \<and> hd_height (blk_header b) < min_retained_height_cached s)"
    proof (cases "k = h")
      case True
      with r fr ser h show ?thesis by (auto simp: X' stored_header_def)
    next
      case False
      with r rows obtain b' where "block_frame D (active_dict s) b' r" "dp_block_hash D b' = k"
        "stored_header D (\<lambda>_. X) s k (blk_header b') \<or>
          X CF_HEADERS (hash_key k) = None \<and> hd_height (blk_header b') < min_retained_height_cached s"
        unfolding rows_ok_def by (auto simp: X')
      with False show ?thesis by (intro exI [of _ b']) (auto simp: stored_header_def X')
    qed
  next
    fix k r assume r: "X' CF_HEADERS (hash_key k) = Some r"
    show "\<exists>hdr. dp_ser_header D hdr = Inr r \<and> dp_header_hash D hdr = k \<and>
        (X' CF_BLOCKS (hash_key k) \<noteq> None \<or> hd_height hdr < min_retained_height_cached s)"
    proof (cases "k = h")
      case True
      with r ser h show ?thesis by (auto simp: X' block_hash_header)
    next
      case False
      with r rows show ?thesis unfolding rows_ok_def by (auto simp: X')
    qed
  qed
  with inv hdr_mono blk_mono show ?thesis
    unfolding data_inv_def blocks_cached_def headers_cached_def records_cached_def known_record_def by blast
qed

end

section \<open>Steps of the canonical index\<close>

lemma bt_remove_nil: "bt_remove n [] = []"
  by (simp add: bt_remove_def)

lemma insert_height_index:
  assumes idx: "index_ok (\<lambda>_. X) (s\<lparr>canonical_height_cache := bt_remove n (canonical_height_cache s)\<rparr>)"
    and wf: "bt_wf (canonical_height_cache s)"
    and cap: "canonical_height_cache_capacity s = 0 \<Longrightarrow> canonical_height_cache s = []"
    and row: "X CF_CANONICAL (height_key n) = Some (hash_key x)"
  shows "index_ok (\<lambda>_. X) (snd (insert_canonical_height_cache n x s))"
proof (cases "canonical_height_cache_capacity s = 0")
  case True
  with cap have "canonical_height_cache s = []" by simp
  with True idx show ?thesis
    by (simp add: insert_canonical_height_cache_def index_ok_def bt_remove_def)
next
  case False
  let ?t = "evict_lowest (unat (canonical_height_cache_capacity s)) (bt_insert n x (canonical_height_cache s))"
  have "bt_wf ?t" using wf by (simp add: evict_lowest_wf bt_wf_insert)
  moreover have "X CF_CANONICAL (height_key m) = Some (hash_key y)"
    if "min_retained_height_cached s \<le> m" "bt_get ?t m = Some y" for m y
    using evict_lowest_sub [OF that(2)] that(1) idx row
    by (auto simp: bt_get_insert bt_get_remove index_ok_def split: if_splits)
  ultimately show ?thesis
    using False idx by (simp add: insert_canonical_height_cache_def index_ok_def)
qed

text \<open>One new canonical row, with the sidecar and the height cache following.\<close>

lemma index_put:
  assumes idx: "index_ok (\<lambda>_. X) s" and rw: "\<not> read_only s"
    and ext: "extend_write io n x (canonical_bin s) = (Ok u, bin')"
    and X': "X' CF_CANONICAL = (X CF_CANONICAL)(height_key n \<mapsto> hash_key x)"
  shows "index_ok (\<lambda>_. X') (snd (insert_canonical_height_cache n x (s\<lparr>canonical_bin := bin'\<rparr>)))"
proof (rule insert_height_index)
  have ok: "bin_ok (canonical_bin s)" "bin_writable (canonical_bin s)"
    using idx rw by (auto simp: index_ok_def)
  have slots: "if m = n then y = x else bin_slot (canonical_bin s) m = Some y" if "bin_slot bin' m = Some y" for m y
    using bin.wr_slot [OF ok ext that] .
  show "index_ok (\<lambda>_. X') (s\<lparr>canonical_bin := bin',
      canonical_height_cache := bt_remove n (canonical_height_cache (s\<lparr>canonical_bin := bin'\<rparr>))\<rparr>)"
    using idx rw bin.wr_ok [OF ok(1) ext] ok(2)
    by (auto simp: index_ok_def X' bt_get_remove bt_wf_remove bt_remove_nil btree.get_empty
        split: if_splits dest!: slots)
qed (use idx X' in \<open>auto simp: index_ok_def\<close>)

section \<open>Dictionary training keeps the invariant\<close>

lemma store_commute: "s\<lparr>db := d, zstd_dict := z\<rparr> = s\<lparr>zstd_dict := z\<rparr>\<lparr>db := d\<rparr>"
  by simp

lemma maybe_train_frame:
  assumes "maybe_train_dictionary D s = (r, s')"
  shows "s' = s\<lparr>db := db s', zstd_dict := zstd_dict s'\<rparr>"
proof -
  let ?g = "\<lambda>t. t\<lparr>db := db s, zstd_dict := None\<rparr>"
  have "unchanged ?g (maybe_train_dictionary D)" by (intro frame_rules) simp_all
  from unchangedD [OF this assms] have "?g s' = ?g s" .
  then have "(?g s')\<lparr>db := db s', zstd_dict := zstd_dict s'\<rparr> = (?g s)\<lparr>db := db s', zstd_dict := zstd_dict s'\<rparr>"
    by (rule arg_cong)
  then show ?thesis by simp
qed

lemma data_inv_dict:
  assumes inv: "data_inv D (\<lambda>_. X) s" and rows: "same_rows X X'"
    and dict: "z = zstd_dict s \<or> zstd_dict s = None"
  shows "data_inv D (\<lambda>_. X') (s\<lparr>zstd_dict := z\<rparr>)"
proof -
  have X': "X' CF_BLOCKS = X CF_BLOCKS" "X' CF_HEADERS = X CF_HEADERS"
    using rows by (auto simp: same_rows_def dict_row_def fun_eq_iff)
  have mono: "block_frame D (active_dict s) b c \<Longrightarrow> block_frame D (active_dict (s\<lparr>zstd_dict := z\<rparr>)) b c" for b c
    using dict block_frame_mono by (auto simp: active_dict_def split: if_splits)
  have hdr: "stored_header D (\<lambda>_. X') (s\<lparr>zstd_dict := z\<rparr>) = stored_header D (\<lambda>_. X) s"
    by (simp add: fun_eq_iff stored_header_def X')
  then have khdr: "known_header D (\<lambda>_. X') (s\<lparr>zstd_dict := z\<rparr>) = known_header D (\<lambda>_. X) s"
    by (simp add: fun_eq_iff known_header_def)
  have blk: "known_block D (\<lambda>_. X) s h b \<Longrightarrow> known_block D (\<lambda>_. X') (s\<lparr>zstd_dict := z\<rparr>) h b" for h b
    using mono by (auto simp: known_block_def stored_block_def X')
  have "rows_ok D (\<lambda>_. X') (s\<lparr>zstd_dict := z\<rparr>)"
    using inv mono unfolding data_inv_def rows_ok_def hdr by (simp add: X') blast
  with inv blk show ?thesis
    by (simp add: data_inv_def blocks_cached_def headers_cached_def records_cached_def known_record_def khdr)
qed

context deps_laws
begin

lemma inv_maybe_train:
  assumes inv: "store_inv D content s" and run: "maybe_train_dictionary D s = (r, s')"
  shows "store_inv D content s'"
    and "\<exists>d z. s' = s\<lparr>db := d, zstd_dict := z\<rparr> \<and> same_rows (content (db s)) (content d) \<and>
      (z = zstd_dict s \<or> zstd_dict s = None)"
proof -
  note eff = maybe_train_effect [OF refl run] and fr = maybe_train_frame [OF run]
  have rows: "content (db s') CF_CANONICAL = content (db s) CF_CANONICAL"
    "content (db s') CF_METADATA (as_bytes META_TIP) = content (db s) CF_METADATA (as_bytes META_TIP)"
    "content (db s') CF_METADATA (as_bytes META_MIN_HEIGHT) = content (db s) CF_METADATA (as_bytes META_MIN_HEIGHT)"
    using eff(1) by (auto simp: same_rows_def dict_row_def fun_eq_iff)
  have "data_inv D content s" "index_ok content s" "meta_ok content s" using inv by (auto simp: store_inv_def)
  then have "data_inv D (\<lambda>_. content (db s')) (s\<lparr>zstd_dict := zstd_dict s'\<rparr>)"
    "index_ok (\<lambda>_. content (db s')) s" "meta_ok (\<lambda>_. content (db s')) s"
    using data_inv_dict [where s = s and z = "zstd_dict s'", OF _ eff(1)] eff(2)
    by (auto simp: content_now index_ok_def meta_ok_def rows split: option.splits)
  then have "store_inv D content (s\<lparr>db := db s', zstd_dict := zstd_dict s'\<rparr>)"
    by (simp add: store_inv_def content_local store_commute)
  with fr show "store_inv D content s'" by metis
  from fr eff show "\<exists>d z. s' = s\<lparr>db := d, zstd_dict := z\<rparr> \<and> same_rows (content (db s)) (content d) \<and>
      (z = zstd_dict s \<or> zstd_dict s = None)" by blast
qed

text \<open>The cache inserts that follow the write of a new block.\<close>

lemma inv_cache_new_block:
  assumes inv: "store_inv D content s" and b: "stored_block D content s h b"
    and hdr: "stored_header D content s h (blk_header b)" and h: "dp_block_hash D b = h"
  shows "store_inv D content (s\<lparr>record_cache := (record_cache s)(h \<mapsto> record_of_header D (blk_header b)),
      block_cache := cache_insert (dp_block_lru D) (block_cache s) h b,
      header_cache := cache_insert (dp_header_lru D) (header_cache s) h (blk_header b)\<rparr>)"
proof -
  have kh: "known_header D content s h (blk_header b)" and kb: "known_block D content s h b"
    using b hdr h by (auto simp: known_header_def known_block_def block_hash_header)
  let ?s1 = "s\<lparr>record_cache := (record_cache s)(h \<mapsto> record_of_header D (blk_header b))\<rparr>"
  let ?s2 = "?s1\<lparr>block_cache := cache_insert (dp_block_lru D) (block_cache ?s1) h b\<rparr>"
  have 1: "store_inv D content ?s1"
    using inv kh by (intro inv_record_insert known_record_of_header)
  have 2: "store_inv D content ?s2"
    by (rule inv_block_insert [OF 1]) (simp add: kb)
  have "store_inv D content (?s2\<lparr>header_cache := cache_insert (dp_header_lru D) (header_cache ?s2) h (blk_header b)\<rparr>)"
    by (rule inv_header_insert [OF 2]) (simp add: kh)
  then show ?thesis by simp
qed

lemma put_block_Ok:
  assumes inv: "store_inv D content s" and run: "put_block D b canonical s = (Ok r, s')"
  shows "store_inv D content s' \<and> \<not> read_only s \<and>
    (if content (db s) CF_BLOCKS (hash_key (dp_block_hash D b)) \<noteq> None then \<not> r \<and> s' = s
     else r \<and> core (s'\<lparr>db := db s, zstd_dict := zstd_dict s, canonical_bin := canonical_bin s\<rparr>) = core s \<and>
       (\<exists>c c'. block_frame D (active_dict s) b c \<and> dp_ser_header D (blk_header b) = Inr c' \<and>
         same_rows (apply_batch (block_rows D b c c' @
             (if canonical then [PutCf CF_CANONICAL (height_key (dp_block_height D b)) (hash_key (dp_block_hash D b))]
              else [])) (content (db s))) (content (db s'))) \<and>
       (zstd_dict s' = zstd_dict s \<or> zstd_dict s = None))"
proof -
  let ?h = "dp_block_hash D b" and ?n = "dp_block_height D b"
  have rw: "\<not> read_only s" using run by (auto simp: put_block_def run_simps)
  have get: "rk_get_cf (dp_rocks D) (db s) CF_BLOCKS (hash_key ?h) = Inr x \<Longrightarrow>
      x = content (db s) CF_BLOCKS (hash_key ?h)" for x by (rule get_sound)
  show ?thesis
  proof (cases "content (db s) CF_BLOCKS (hash_key ?h)")
    case (Some c)
    with run inv rw show ?thesis by (auto simp: put_block_def run_simps Let_def dest!: get)
  next
    case None
    let ?rows = "\<lambda>c c'. block_rows D b c c' @
      (if canonical then [PutCf CF_CANONICAL (height_key ?n) (hash_key ?h)] else [])"
    obtain c c' d s2 where fr: "block_frame D (active_dict s) b c" and ser: "dp_ser_header D (blk_header b) = Inr c'"
      and wr: "rk_write (dp_rocks D) (db s) (?rows c c') = Inr d"
      and s2: "(if canonical then tryM (with_bin (extend_write (dp_io D) ?n ?h)) (\<lambda>_. insert_canonical_height_cache ?n ?h)
          else returnM ()) (s\<lparr>db := d\<rparr>) = (Ok (), s2)"
      and tr: "maybe_train_dictionary D (s2\<lparr>record_cache := (record_cache s2)(?h \<mapsto> record_of_header D (blk_header b)),
          block_cache := cache_insert (dp_block_lru D) (block_cache s2) ?h b,
          header_cache := cache_insert (dp_header_lru D) (header_cache s2) ?h (blk_header b),
          hash_to_height_cache := cache_insert (dp_height_lru D) (hash_to_height_cache s2) ?h ?n\<rparr>) = (Ok (), s')"
      and r: "r"
      using run None
      by (auto simp: put_block_def tryM_Ok small_steps_Ok Let_def cache_step_defs(1-4) liftM_Ok
          serialize_header_Ok dest!: get serialize_block_Ok split: if_splits simp del: if_split)
    note cd = write_sound [OF wr]
    have X: "content d CF_BLOCKS = (content (db s) CF_BLOCKS)(hash_key ?h \<mapsto> c)"
      "content d CF_HEADERS = (content (db s) CF_HEADERS)(hash_key ?h \<mapsto> c')"
      "content d CF_METADATA = content (db s) CF_METADATA"
      "content d CF_CANONICAL = (if canonical then (content (db s) CF_CANONICAL)(height_key ?n \<mapsto> hash_key ?h)
         else content (db s) CF_CANONICAL)"
      by (auto simp: cd block_rows_def)
    have data: "data_inv D (\<lambda>_. content d) s"
      using inv None by (intro data_inv_new_block [OF _ _ fr ser refl X(1,2)]) (auto simp: store_inv_def content_now)
    have meta: "meta_ok (\<lambda>_. content d) s" using inv by (simp add: store_inv_def meta_ok_def X(3) cong: option.case_cong)
    have "store_inv D content s2 \<and> db s2 = d \<and> active_dict s2 = active_dict s \<and>
        core (s2\<lparr>db := db s, canonical_bin := canonical_bin s\<rparr>) = core s"
    proof (cases canonical)
      case False
      with inv X(4) have "index_ok (\<lambda>_. content d) s" by (simp add: store_inv_def index_ok_def)
      with False s2 data meta show ?thesis
        by (auto simp: store_inv_def content_local core_def active_dict_def)
    next
      case True
      obtain bin' where ext: "extend_write (dp_io D) ?n ?h (canonical_bin s) = (Ok (), bin')"
        and s2': "s2 = (snd (insert_canonical_height_cache ?n ?h (s\<lparr>canonical_bin := bin'\<rparr>)))\<lparr>db := d\<rparr>"
        using s2 True by (auto simp: run_simps insert_canonical_height_cache_def)
      have "index_ok (\<lambda>_. content d) (snd (insert_canonical_height_cache ?n ?h (s\<lparr>canonical_bin := bin'\<rparr>)))"
        using inv X(4) True by (intro index_put [OF _ rw ext]) (simp_all add: store_inv_def content_now)
      with data meta show ?thesis
        by (auto simp: s2' store_inv_def content_local core_def active_dict_def insert_canonical_height_cache_def)
    qed
    then have inv2: "store_inv D content s2" and db2: "db s2 = d" and act2: "active_dict s2 = active_dict s"
      and core2: "core (s2\<lparr>db := db s, canonical_bin := canonical_bin s\<rparr>) = core s" by auto
    have "store_inv D content (s2\<lparr>record_cache := (record_cache s2)(?h \<mapsto> record_of_header D (blk_header b)),
          block_cache := cache_insert (dp_block_lru D) (block_cache s2) ?h b,
          header_cache := cache_insert (dp_header_lru D) (header_cache s2) ?h (blk_header b)\<rparr>)"
      using fr ser by (intro inv_cache_new_block inv2) (auto simp: stored_block_def stored_header_def db2 act2 X)
    then have "store_inv D content (s2\<lparr>record_cache := (record_cache s2)(?h \<mapsto> record_of_header D (blk_header b)),
          block_cache := cache_insert (dp_block_lru D) (block_cache s2) ?h b,
          header_cache := cache_insert (dp_header_lru D) (header_cache s2) ?h (blk_header b),
          hash_to_height_cache := cache_insert (dp_height_lru D) (hash_to_height_cache s2) ?h ?n\<rparr>)"
      by (simp only: inv_counters)
    note inv3 = inv_maybe_train [OF this tr]
    obtain d' z where s': "s' = s2\<lparr>record_cache := (record_cache s2)(?h \<mapsto> record_of_header D (blk_header b)),
          block_cache := cache_insert (dp_block_lru D) (block_cache s2) ?h b,
          header_cache := cache_insert (dp_header_lru D) (header_cache s2) ?h (blk_header b),
          hash_to_height_cache := cache_insert (dp_height_lru D) (hash_to_height_cache s2) ?h ?n,
          db := d', zstd_dict := z\<rparr>"
      and "same_rows (content d) (content d')" and "z = zstd_dict s2 \<or> zstd_dict s2 = None"
      using inv3(2) by (auto simp: db2)
    moreover have "zstd_dict s2 = zstd_dict s" using core2 by (simp add: core_def)
    ultimately have "same_rows (content d) (content (db s'))" "zstd_dict s' = zstd_dict s \<or> zstd_dict s = None"
      "core (s'\<lparr>db := db s, zstd_dict := zstd_dict s, canonical_bin := canonical_bin s\<rparr>) = core s"
      using core2 by (auto simp: core_def)
    with inv3(1) None r rw fr ser show ?thesis unfolding cd by auto
  qed
qed

end

lemma data_inv_rows_cong:
  "X' CF_BLOCKS = X CF_BLOCKS \<Longrightarrow> X' CF_HEADERS = X CF_HEADERS \<Longrightarrow>
    data_inv D (\<lambda>_. X') s = data_inv D (\<lambda>_. X) s"
  by (simp add: data_inv_def rows_ok_def blocks_cached_def headers_cached_def records_cached_def known_defs)

lemma meta_ok_rows_cong:
  "X' CF_METADATA = X CF_METADATA \<Longrightarrow> meta_ok (\<lambda>_. X') s = meta_ok (\<lambda>_. X) s"
  by (simp add: meta_ok_def)

lemma index_ok_rows_cong:
  "X' CF_CANONICAL = X CF_CANONICAL \<Longrightarrow> index_ok (\<lambda>_. X') s = index_ok (\<lambda>_. X) s"
  by (simp add: index_ok_def)

lemma mark_canonical_data:
  assumes "data_inv D content s" and "known_record D content s h r"
  shows "data_inv D content (snd (mark_canonical h r s))"
proof -
  have "known_record D content s h (case record_cache s h of
      Some r \<Rightarrow> r\<lparr>in_canonical_chain := True\<rparr> | None \<Rightarrow> r\<lparr>in_canonical_chain := True\<rparr>)"
  proof (cases "record_cache s h")
    case None
    with assms(2) show ?thesis by (auto simp: known_record_def)
  next
    case (Some r')
    with assms(1) have "known_record D content s h r'"
      by (auto simp: data_inv_def records_cached_def)
    with Some show ?thesis by (auto simp: known_record_def)
  qed
  with assms(1) show ?thesis
    by (auto simp: mark_canonical_def data_inv_def blocks_cached_def headers_cached_def records_cached_def)
qed

lemma mark_canonical_inv:
  assumes "store_inv D content s" and "known_record D content s h r"
  shows "store_inv D content (snd (mark_canonical h r s))"
  using mark_canonical_data [OF _ assms(2)] assms(1)
  by (simp add: store_inv_def) (simp add: mark_canonical_def)

lemma unchanged_mark_canonical [frame_rules]:
  "(\<And>s x. g (s\<lparr>record_cache := x\<rparr>) = g s) \<Longrightarrow> unchanged g (mark_canonical h r)"
  unfolding mark_canonical_def by (intro frame_rules) simp

lemma modify_steps_Ok:
  "mark_canonical h r s = (Ok u, s') \<longleftrightarrow> s' = snd (mark_canonical h r s)"
  "hash_to_height_insert D h n s = (Ok u, s') \<longleftrightarrow> s' = snd (hash_to_height_insert D h n s)"
  "insert_canonical_height_cache n h s = (Ok u, s') \<longleftrightarrow> s' = snd (insert_canonical_height_cache n h s)"
  "record_cache_insert h r s = (Ok u, s') \<longleftrightarrow> s' = snd (record_cache_insert h r s)"
  "block_cache_insert D h b s = (Ok u, s') \<longleftrightarrow> s' = snd (block_cache_insert D h b s)"
  "header_cache_insert D h hdr s = (Ok u, s') \<longleftrightarrow> s' = snd (header_cache_insert D h hdr s)"
  by (auto simp: mark_canonical_def cache_step_defs)

lemma update_status_inv:
  assumes "store_inv D content s" and "update_status D h st s = (r, s')"
  shows "store_inv D content s'"
proof (cases "record_cache s h")
  case None
  with assms show ?thesis by (simp add: update_status_def)
next
  case (Some rc)
  with assms(1) have "known_record D content s h rc" by (auto simp: store_inv_def data_inv_def records_cached_def)
  then have "known_record D content s h (rc\<lparr>br_status := st, in_canonical_chain := dp_is_canonical D st\<rparr>)"
    by (auto simp: known_record_def)
  from inv_record_insert [OF assms(1) this] Some assms(2) show ?thesis
    by (auto simp: update_status_def)
qed

context deps_laws
begin

lemma set_tip_state:
  assumes "set_tip D t s = (r, s')"
  shows "s' = s \<and> (\<forall>x. r \<noteq> Ok x) \<or>
    r = Ok () \<and> \<not> read_only s \<and> (\<exists>d. s' = s\<lparr>db := d, tip := Some t\<rparr> \<and>
      content d = (content (db s))(CF_METADATA := (content (db s) CF_METADATA)(as_bytes META_TIP \<mapsto> tip_to_bytes t)))"
  using assms
  by (auto simp: set_tip_def tryM_def require_writable_def cf_handle_def db_put_def
      split: if_splits sum.splits prod.splits outcome.splits dest!: put_sound)

lemma set_tip_inv:
  assumes inv: "store_inv D content s" and run: "set_tip D t s = (r, s')"
  shows "store_inv D content s'"
  using set_tip_state [OF run]
proof (elim disjE conjE exE)
  fix d assume s': "s' = s\<lparr>db := d, tip := Some t\<rparr>"
    and d: "content d = (content (db s))(CF_METADATA := (content (db s) CF_METADATA)(as_bytes META_TIP \<mapsto> tip_to_bytes t))"
  have base: "data_inv D (\<lambda>_. content (db s)) s" "index_ok (\<lambda>_. content (db s)) s"
    using inv by (simp_all add: store_inv_def content_now)
  have "data_inv D (\<lambda>_. content d) s" "index_ok (\<lambda>_. content d) s"
    using data_inv_rows_cong [THEN iffD2, OF _ _ base(1)] index_ok_rows_cong [THEN iffD2, OF _ base(2)]
    by (simp_all add: d)
  moreover have "meta_ok (\<lambda>_. content d) (s\<lparr>tip := Some t\<rparr>)"
    using inv by (simp add: store_inv_def meta_ok_def d cong: option.case_cong)
  moreover have "s' = s\<lparr>tip := Some t\<rparr>\<lparr>db := d\<rparr>" by (simp add: s')
  ultimately show ?thesis by (simp only: store_inv_def content_local data_inv_updates index_ok_updates)
qed (use inv in simp)

lemma get_record_reading:
  assumes "store_inv D content s" and "get_record D h s = (r, s')"
  shows "store_inv D content s'" and "core s' = core s"
    and "r = Ok (Some rc) \<Longrightarrow> known_record D content s h rc"
    and "r = Ok None \<Longrightarrow> content (db s) CF_HEADERS (hash_key h) = None"
proof -
  have "reading D content s s' \<and> (\<forall>x. r = Ok x \<longrightarrow> (case x of Some rc \<Rightarrow> known_record D content s h rc
      | None \<Rightarrow> content (db s) CF_HEADERS (hash_key h) = None))"
    using get_record_yields [OF assms(1), of h] reading_refl [OF assms(1)] assms(2)
    unfolding yields_def by blast
  then show "store_inv D content s'" "core s' = core s"
    "r = Ok (Some rc) \<Longrightarrow> known_record D content s h rc"
    "r = Ok None \<Longrightarrow> content (db s) CF_HEADERS (hash_key h) = None"
    by (auto simp: reading_def)
qed

lemma set_canonical_Ok:
  assumes inv: "store_inv D content s" and run: "set_canonical D h s = (Ok u, s')"
  shows "store_inv D content s' \<and> (\<exists>hdr. known_header D content s h hdr \<and>
    content (db s') = (content (db s))(CF_CANONICAL :=
      (content (db s) CF_CANONICAL)(height_key (hd_height hdr) \<mapsto> hash_key h))) \<and>
    core (s'\<lparr>db := db s, canonical_bin := canonical_bin s\<rparr>) = core s"
proof -
  obtain rc s1 d bin' where rec: "get_record D h s = (Ok (Some rc), s1)" and rw: "\<not> read_only s"
    and put: "rk_put_cf (dp_rocks D) (db s1) CF_CANONICAL (height_key (br_height rc)) (hash_key h) = Inr d"
    and ext: "extend_write (dp_io D) (br_height rc) h (canonical_bin s1) = (Ok (), bin')"
    and s': "s' = snd (mark_canonical h rc (snd (hash_to_height_insert D h (br_height rc)
        (snd (insert_canonical_height_cache (br_height rc) h (s1\<lparr>db := d, canonical_bin := bin'\<rparr>))))))"
    using run by (auto simp: set_canonical_def run_simps modify_steps_Ok split: option.splits)
  note r = get_record_reading [OF inv rec]
  note c = core_eqD [OF r(2)]
  obtain hdr where hdr: "known_header D content s h hdr" "br_height rc = hd_height hdr"
    using r(3) by (auto simp: known_record_def record_matches_fields)
  have cd: "content d = (content (db s))(CF_CANONICAL :=
      (content (db s) CF_CANONICAL)(height_key (br_height rc) \<mapsto> hash_key h))"
    using put_sound [OF put] by (simp add: c)
  let ?s2 = "snd (insert_canonical_height_cache (br_height rc) h (s1\<lparr>canonical_bin := bin'\<rparr>))"
  have base: "data_inv D (\<lambda>_. content (db s)) s1" "index_ok (\<lambda>_. content (db s)) s1" "meta_ok (\<lambda>_. content (db s)) s1"
    unfolding c(1) [symmetric] using r(1) by (simp_all add: store_inv_def content_now)
  have idx: "index_ok (\<lambda>_. content d) ?s2"
    by (rule index_put [OF base(2) _ ext]) (simp_all add: cd c rw)
  have data: "data_inv D (\<lambda>_. content d) ?s2" "meta_ok (\<lambda>_. content d) ?s2"
    unfolding insert_height_fields data_inv_updates meta_ok_updates
    using data_inv_rows_cong [THEN iffD2, OF _ _ base(1)] meta_ok_rows_cong [THEN iffD2, OF _ base(3)]
    by (simp_all add: cd)
  have s2: "snd (insert_canonical_height_cache (br_height rc) h (s1\<lparr>db := d, canonical_bin := bin'\<rparr>)) = ?s2\<lparr>db := d\<rparr>"
    by (simp add: insert_canonical_height_cache_def)
  have inv2: "store_inv D content (?s2\<lparr>db := d\<rparr>)"
    using idx data by (simp only: store_inv_def content_local)
  have "known_record D content s h rc" using r(3) by simp
  then have "known_record D content (?s2\<lparr>db := d\<rparr>) h rc"
    by (simp add: known_defs insert_canonical_height_cache_def cd c)
  then have "store_inv D content s'"
    unfolding s' s2 by (intro mark_canonical_inv) (simp_all add: hash_to_height_insert_def inv2)
  moreover have "db s' = d" "core (s'\<lparr>db := db s, canonical_bin := canonical_bin s\<rparr>) = core s"
    using r(2) unfolding s' s2 by (simp_all add: core_def mark_canonical_def hash_to_height_insert_def insert_canonical_height_cache_def)
  ultimately show ?thesis using hdr cd by (metis)
qed

lemma validate_hashes_yields:
  assumes inv: "store_inv D content s0"
  shows "yields (reading D content s0) (validate_hashes D hashes)
    (\<lambda>vs. map fst vs = hashes \<and> (\<forall>(h, r) \<in> set vs. known_record D content s0 h r))"
  unfolding validate_hashes_def
proof (rule yields_foldM)
  fix ys h zs vs
  assume "hashes = ys @ h # zs" and I: "map fst vs = ys \<and> (\<forall>(h, r) \<in> set vs. known_record D content s0 h r)"
  show "yields (reading D content s0)
     (tryM (get_record D h) (\<lambda>r. case r of None \<Rightarrow> failM (BlockNotInStore h)
         | Some record \<Rightarrow> returnM (vs @ [(h, record)])))
     (\<lambda>vs. map fst vs = ys @ [h] \<and> (\<forall>(h, r) \<in> set vs. known_record D content s0 h r))"
    by (intro yields_bind [OF get_record_yields [OF inv]] yields_option yields_basic) (use I in auto)
qed simp

lemma unchanged_get_record_hcache [frame_rules]: "unchanged canonical_height_cache (get_record D h)"
  unfolding get_record_def by (intro frame_rules) simp_all

lemma validate_hashes_Ok:
  assumes inv: "store_inv D content s" and run: "validate_hashes D hashes s = (Ok vs, s')"
  shows "store_inv D content s'" and "core s' = core s" and "map fst vs = hashes"
    and "\<forall>(h, r) \<in> set vs. known_record D content s h r"
    and "canonical_height_cache s' = canonical_height_cache s"
proof -
  show "store_inv D content s'" "core s' = core s" "map fst vs = hashes"
    "\<forall>(h, r) \<in> set vs. known_record D content s h r"
    using yields_OkD [OF validate_hashes_yields [OF inv] reading_refl [OF inv] run] by (auto simp: reading_def)
  have "unchanged canonical_height_cache (validate_hashes D hashes)"
    unfolding validate_hashes_def by (intro frame_rules)
  from unchangedD [OF this run] show "canonical_height_cache s' = canonical_height_cache s" .
qed

end

text \<open>The rows of a list of canonical entries, the last entry of a height winning.\<close>

definition entries_at :: "(bytes32 \<times> BlockRecord) list \<Rightarrow> u64 \<Rightarrow> bytes32 option" where
  "entries_at vs n = map_of (rev (map (\<lambda>(h, r). (br_height r, h)) vs)) n"

definition canonical_puts :: "(bytes32 \<times> BlockRecord) list \<Rightarrow> write_batch" where
  "canonical_puts vs = map (\<lambda>(h, r). PutCf CF_CANONICAL (height_key (br_height r)) (hash_key h)) vs"

lemma canonical_puts_rows:
  "apply_batch (canonical_puts vs) c CF_CANONICAL (height_key n) =
     (case entries_at vs n of None \<Rightarrow> c CF_CANONICAL (height_key n) | Some h \<Rightarrow> Some (hash_key h))"
  by (induction vs arbitrary: c) (auto simp: canonical_puts_def entries_at_def map_add_def split: option.splits)

lemma canonical_puts_shape:
  "(\<And>k v. c CF_CANONICAL k = Some v \<Longrightarrow> length k = 8 \<and> length v = 32) \<Longrightarrow>
    apply_batch (canonical_puts vs) c CF_CANONICAL k = Some v \<Longrightarrow> length k = 8 \<and> length v = 32"
proof (induction vs arbitrary: c)
  case (Cons p vs)
  show ?case
    by (rule Cons.IH [where c = "apply_batch (canonical_puts [p]) c"])
       (use Cons.prems in \<open>auto simp: canonical_puts_def split: if_splits prod.splits\<close>)
qed (simp add: canonical_puts_def)

lemma canonical_puts_other:
  "cf \<noteq> CF_CANONICAL \<Longrightarrow> apply_batch (canonical_puts vs) c cf = c cf"
  by (induction vs arbitrary: c) (auto simp: canonical_puts_def)

text \<open>The loop over the sidecar.\<close>

lemma bin_entries:
  assumes ok: "bin_ok bin" "bin_writable bin"
    and run: "forM vs (\<lambda>(h, r). extend_write io (br_height r) h) bin = (Ok u, bin')"
  shows "bin_ok bin' \<and> bin_writable bin' \<and> (\<forall>n y. bin_slot bin' n = Some y \<longrightarrow>
    (case entries_at vs n of Some x \<Rightarrow> y = x | None \<Rightarrow> bin_slot bin n = Some y))"
proof -
  let ?rows = "map (\<lambda>(h, r). (h, br_height r)) vs"
  have "forM ?rows (\<lambda>(x, n). extend_write io n x) bin' = forM vs (\<lambda>(h, r). extend_write io (br_height r) h) bin'" for bin'
    by (induction vs arbitrary: bin') (auto simp: tryM_def split: prod.splits outcome.splits)
  with run have "forM ?rows (\<lambda>(x, n). extend_write io n x) bin = (Ok u, bin')" by simp
  from bin.wr_all [OF ok this] show ?thesis
    by (simp add: entries_at_def comp_def case_prod_unfold)
qed

lemma index_entries:
  assumes idx: "index_ok (\<lambda>_. X) s" and rw: "\<not> read_only s"
    and run: "forM vs (\<lambda>(h, r). extend_write io (br_height r) h) (canonical_bin s) = (Ok u, bin')"
    and fresh: "\<And>n x. bt_get (canonical_height_cache s) n = Some x \<Longrightarrow> entries_at vs n = None \<or> entries_at vs n = Some x"
  shows "index_ok (\<lambda>_. apply_batch (canonical_puts vs) X) (s\<lparr>canonical_bin := bin'\<rparr>)"
proof -
  have ok: "bin_ok (canonical_bin s)" "bin_writable (canonical_bin s)" using idx rw by (auto simp: index_ok_def)
  note b = bin_entries [OF ok run]
  have shape: "length k = 8 \<and> length v = 32" if "apply_batch (canonical_puts vs) X CF_CANONICAL k = Some v" for k v
    by (rule canonical_puts_shape [OF _ that]) (use idx in \<open>simp add: index_ok_def\<close>)
  have hc: "apply_batch (canonical_puts vs) X CF_CANONICAL (height_key n) = Some (hash_key x)"
    if "min_retained_height_cached s \<le> n" "bt_get (canonical_height_cache s) n = Some x" for n x
    using fresh [OF that(2)] that idx by (auto simp: canonical_puts_rows index_ok_def)
  have sl: "apply_batch (canonical_puts vs) X CF_CANONICAL (height_key n) = Some (hash_key y)"
    if "min_retained_height_cached s \<le> n" "bin_slot bin' n = Some y" for n y
  proof -
    from b that(2) have "case entries_at vs n of Some x \<Rightarrow> y = x | None \<Rightarrow> bin_slot (canonical_bin s) n = Some y" by blast
    with that(1) idx show ?thesis by (auto simp: canonical_puts_rows index_ok_def split: option.splits)
  qed
  from idx rw b shape hc sl show ?thesis by (simp add: index_ok_def)
qed

text \<open>The loop that follows the batch: sidecar entries interleaved with record flags.\<close>

lemma entries_loop:
  assumes "forM vs (\<lambda>(h, r). tryM (with_bin (extend_write io (br_height r) h)) (\<lambda>_. mark_canonical h r)) s = (Ok u, s')"
  shows "\<exists>bin' rc'. forM vs (\<lambda>(h, r). extend_write io (br_height r) h) (canonical_bin s) = (Ok u, bin') \<and>
    s' = s\<lparr>canonical_bin := bin', record_cache := rc'\<rparr>"
  using assms
proof (induction vs arbitrary: s)
  case Nil
  then show ?case by (auto intro: exI [of _ "record_cache s"])
next
  case (Cons p vs)
  obtain h r where p: "p = (h, r)" by force
  from Cons.prems obtain bin1 where ext: "extend_write io (br_height r) h (canonical_bin s) = (Ok (), bin1)"
    and rest: "forM vs (\<lambda>(h, r). tryM (with_bin (extend_write io (br_height r) h)) (\<lambda>_. mark_canonical h r))
      (snd (mark_canonical h r (s\<lparr>canonical_bin := bin1\<rparr>))) = (Ok u, s')"
    by (auto simp: p run_simps modify_steps_Ok)
  from Cons.IH [OF rest] obtain bin' rc' where
    "forM vs (\<lambda>(h, r). extend_write io (br_height r) h) bin1 = (Ok u, bin')"
    "s' = s\<lparr>canonical_bin := bin', record_cache := rc'\<rparr>"
    by (auto simp: mark_canonical_def)
  with ext show ?case by (auto simp: p run_simps)
qed

lemma entries_loop_data:
  assumes run: "forM vs (\<lambda>(h, r). tryM (with_bin (extend_write io (br_height r) h)) (\<lambda>_. mark_canonical h r)) s = (Ok u, s')"
    and inv: "data_inv D content s" and known: "\<forall>(h, r) \<in> set vs. known_record D content s h r"
  shows "data_inv D content s'"
proof -
  let ?P = "\<lambda>t. data_inv D content t \<and> (\<forall>(h, r) \<in> set vs. known_record D content t h r)"
  have "preserves ?P (forM vs (\<lambda>(h, r). tryM (with_bin (extend_write io (br_height r) h)) (\<lambda>_. mark_canonical h r)))"
  proof (intro preserve_rules)
    fix p h r assume "p \<in> set vs" and "p = (h, r)"
    then have mem: "(h, r) \<in> set vs" by simp
    show "preserves ?P (with_bin (extend_write io (br_height r) h))"
      by (auto simp: preserves_def with_bin_def known_defs active_dict_def split: prod.splits)
    show "preserves ?P (mark_canonical h r)"
    proof (rule preservesI, intro conjI)
      fix t x t' assume t: "?P t" and "mark_canonical h r t = (x, t')"
      then have t': "t' = snd (mark_canonical h r t)" by simp
      show "data_inv D content t'" unfolding t' using t mem by (intro mark_canonical_data) auto
      show "\<forall>(h, r) \<in> set vs. known_record D content t' h r"
        using t by (simp add: t' mark_canonical_def)
    qed
  qed
  from preservesD [OF this _ run] inv known show ?thesis by blast
qed

context deps_laws
begin

lemma set_canonical_batch_state:
  assumes inv: "store_inv D content s" and ne: "hashes \<noteq> []"
    and run: "set_canonical_batch D hashes s = (Ok u, s')"
  obtains vs s1 d bin' rc' where "validate_hashes D hashes s = (Ok vs, s1)"
    and "\<not> read_only s" and "content d = apply_batch (canonical_puts vs) (content (db s))"
    and "forM vs (\<lambda>(h, r). extend_write (dp_io D) (br_height r) h) (canonical_bin s) = (Ok (), bin')"
    and "s' = s1\<lparr>db := d, canonical_bin := bin', record_cache := rc'\<rparr>"
    and "data_inv D content s'"
proof -
  obtain vs s1 d where v: "validate_hashes D hashes s = (Ok vs, s1)" and rw: "\<not> read_only s"
    and wr: "rk_write (dp_rocks D) (db s1) (canonical_puts vs) = Inr d"
    and loop: "forM vs (\<lambda>(h, r). tryM (with_bin (extend_write (dp_io D) (br_height r) h)) (\<lambda>_. mark_canonical h r))
        (s1\<lparr>db := d\<rparr>) = (Ok (), s')"
    using run ne by (auto simp: set_canonical_batch_def run_simps canonical_puts_def)
  note v' = validate_hashes_Ok [OF inv v]
  have db1: "db s1 = db s" "canonical_bin s1 = canonical_bin s" using core_eqD [OF v'(2)] by auto
  have cd: "content d = apply_batch (canonical_puts vs) (content (db s))" using write_sound [OF wr] by (simp add: db1)
  from entries_loop [OF loop] obtain bin' rc' where
    ext: "forM vs (\<lambda>(h, r). extend_write (dp_io D) (br_height r) h) (canonical_bin s) = (Ok (), bin')"
    and s': "s' = s1\<lparr>db := d, canonical_bin := bin', record_cache := rc'\<rparr>" by (auto simp: db1)
  have base: "data_inv D (\<lambda>_. content (db s)) s1"
    unfolding db1(1) [symmetric] using v'(1) by (simp add: store_inv_def content_now)
  have "data_inv D (\<lambda>_. content d) s1"
    by (rule data_inv_rows_cong [THEN iffD2, OF _ _ base]) (simp_all add: cd canonical_puts_other)
  then have "data_inv D content (s1\<lparr>db := d\<rparr>)" by (simp add: content_local)
  moreover have "\<forall>(h, r) \<in> set vs. known_record D content (s1\<lparr>db := d\<rparr>) h r"
    using v'(4) core_eqD(7) [OF v'(2)] by (auto simp: known_defs cd canonical_puts_other)
  ultimately have "data_inv D content s'" by (rule entries_loop_data [OF loop])
  with v rw cd ext s' show ?thesis by (rule that)
qed

lemma set_canonical_batch_Ok:
  assumes inv: "store_inv D content s" and run: "set_canonical_batch D hashes s = (Ok u, s')"
    and fresh: "\<And>h hdr. h \<in> set hashes \<Longrightarrow> known_header D content s h hdr \<Longrightarrow>
      bt_get (canonical_height_cache s) (hd_height hdr) = None"
  shows "store_inv D content s'"
proof (cases "hashes = []")
  case True
  with run inv show ?thesis by (auto simp: set_canonical_batch_def run_simps)
next
  case False
  from set_canonical_batch_state [OF inv False run] obtain vs s1 d bin' rc' where
    v: "validate_hashes D hashes s = (Ok vs, s1)" and rw: "\<not> read_only s"
    and cd: "content d = apply_batch (canonical_puts vs) (content (db s))"
    and ext: "forM vs (\<lambda>(h, r). extend_write (dp_io D) (br_height r) h) (canonical_bin s) = (Ok (), bin')"
    and s': "s' = s1\<lparr>db := d, canonical_bin := bin', record_cache := rc'\<rparr>"
    and data: "data_inv D content s'" .
  note v' = validate_hashes_Ok [OF inv v] and c = core_eqD [OF validate_hashes_Ok(2) [OF inv v]]
  have none: "bt_get (canonical_height_cache s1) n = Some x \<Longrightarrow> entries_at vs n = None" for n x
  proof (rule ccontr)
    assume hit: "bt_get (canonical_height_cache s1) n = Some x" and "entries_at vs n \<noteq> None"
    then obtain h r where hr: "(h, r) \<in> set vs" "br_height r = n"
      by (auto simp: entries_at_def dest!: map_of_SomeD)
    with v'(4) obtain hdr where "known_header D content s h hdr" "hd_height hdr = n"
      by (auto simp: known_record_def dest!: record_matches_fields(2) bspec)
    moreover have "h \<in> set hashes" using hr v'(3) by force
    ultimately show False using fresh hit v'(5) by fastforce
  qed
  have base: "index_ok (\<lambda>_. content (db s)) s1" "meta_ok (\<lambda>_. content (db s)) s1"
    unfolding c(1) [symmetric] using v'(1) by (simp_all add: store_inv_def content_now)
  have "index_ok (\<lambda>_. content d) (s1\<lparr>canonical_bin := bin'\<rparr>)"
    unfolding cd by (rule index_entries [OF base(1)]) (use ext rw c none in auto)
  moreover have "meta_ok (\<lambda>_. content d) s1"
    by (rule meta_ok_rows_cong [THEN iffD2, OF _ base(2)]) (simp add: cd canonical_puts_other)
  ultimately show ?thesis
    using data unfolding s' store_inv_def by (simp add: index_ok_def meta_ok_def cong: option.case_cong)
qed

lemma stored_block_dict:
  assumes "block_frame D (active_dict s) b c" and "content (db s') CF_BLOCKS (hash_key h) = Some c"
    and "use_compression_dict s' = use_compression_dict s" and "zstd_dict s' = zstd_dict s \<or> zstd_dict s = None"
  shows "stored_block D content s' h b"
  using assms block_frame_mono by (auto simp: stored_block_def active_dict_def split: if_splits)

text \<open>What a stored block changes in what the store holds.\<close>

lemma put_block_new:
  assumes inv: "store_inv D content s" and run: "put_block D b canonical s = (Ok True, s')"
  shows "stored_block D content s' (dp_block_hash D b) b"
    and "stored_header D content s' (dp_block_hash D b) (blk_header b)"
    and "tip s' = tip s" and "min_retained_height_cached s' = min_retained_height_cached s"
    and "canonical_height_cache_capacity s' = canonical_height_cache_capacity s"
    and "canonical_at content s' n =
      (if canonical \<and> n = dp_block_height D b \<and> min_retained_height_cached s \<le> n
       then Some (dp_block_hash D b) else canonical_at content s n)"
    and "cf \<noteq> CF_METADATA \<Longrightarrow> cf \<noteq> CF_CANONICAL \<Longrightarrow> k \<noteq> hash_key (dp_block_hash D b) \<Longrightarrow>
      content (db s') cf k = content (db s) cf k"
proof -
  obtain c c' where fr: "block_frame D (active_dict s) b c" and ser: "dp_ser_header D (blk_header b) = Inr c'"
    and rows: "same_rows (apply_batch (block_rows D b c c' @
             (if canonical then [PutCf CF_CANONICAL (height_key (dp_block_height D b)) (hash_key (dp_block_hash D b))]
              else [])) (content (db s))) (content (db s'))"
    and core: "core (s'\<lparr>db := db s, zstd_dict := zstd_dict s, canonical_bin := canonical_bin s\<rparr>) = core s"
    and z: "zstd_dict s' = zstd_dict s \<or> zstd_dict s = None"
    using put_block_Ok [OF inv run] by (auto split: if_splits)
  let ?X = "apply_batch (block_rows D b c c' @
             (if canonical then [PutCf CF_CANONICAL (height_key (dp_block_height D b)) (hash_key (dp_block_hash D b))]
              else [])) (content (db s))"
  have X: "content (db s') cf k = ?X cf k" if "cf \<noteq> CF_METADATA" for cf k
    using rows that by (simp add: same_rows_def dict_row_def)
  show "tip s' = tip s" "min_retained_height_cached s' = min_retained_height_cached s"
    "canonical_height_cache_capacity s' = canonical_height_cache_capacity s"
    using core by (auto simp: core_def)
  show "stored_block D content s' (dp_block_hash D b) b"
    using core z by (intro stored_block_dict [OF fr]) (auto simp: X block_rows_def core_def)
  show "stored_header D content s' (dp_block_hash D b) (blk_header b)"
    using ser by (auto simp: stored_header_def X block_rows_def)
  show "canonical_at content s' n =
      (if canonical \<and> n = dp_block_height D b \<and> min_retained_height_cached s \<le> n
       then Some (dp_block_hash D b) else canonical_at content s n)"
    using core by (auto simp: canonical_at_def X block_rows_def core_def hash_key_def)
  show "content (db s') cf k = content (db s) cf k"
    if "cf \<noteq> CF_METADATA" "cf \<noteq> CF_CANONICAL" "k \<noteq> hash_key (dp_block_hash D b)"
    using that by (simp add: X block_rows_def)
qed

lemma extend_chain_Ok:
  assumes inv: "store_inv D content s" and run: "extend_chain D b s = (Ok r, s')"
  shows "store_inv D content s'"
    and "r \<Longrightarrow> stored_block D content s' (dp_block_hash D b) b \<and>
      tip s' = Some \<lparr>tip_hash = dp_block_hash D b, tip_height = dp_block_height D b\<rparr> \<and>
      min_retained_height_cached s' = min_retained_height_cached s \<and>
      canonical_at content s' n =
        (if n = dp_block_height D b \<and> min_retained_height_cached s \<le> n
         then Some (dp_block_hash D b) else canonical_at content s n)"
    and "\<not> r \<Longrightarrow> core s' = core s \<and> ((\<exists>hdr. known_header D content s (dp_block_hash D b) hdr) \<or>
      (\<exists>b'. known_block D content s (dp_block_hash D b) b'))"
proof -
  let ?h = "dp_block_hash D b" and ?t = "\<lparr>tip_hash = dp_block_hash D b, tip_height = dp_block_height D b\<rparr>"
  obtain p s1 where has: "has_block D ?h s = (Ok p, s1)"
    and rest: "(if p then returnM False else tryM (put D b True) (\<lambda>_. tryM (set_tip D ?t) (\<lambda>_. returnM True))) s1 = (Ok r, s')"
    using run by (auto simp: extend_chain_def Let_def run_simps)
  have h: "reading D content s s1" "if p then (\<exists>hdr. known_header D content s ?h hdr) \<or> (\<exists>b'. known_block D content s ?h b')
      else content (db s) CF_HEADERS (hash_key ?h) = None \<and> content (db s) CF_BLOCKS (hash_key ?h) = None"
    using yields_OkD [OF has_block_yields [OF inv] reading_refl [OF inv] has] by auto
  then have inv1: "store_inv D content s1" and c: "core s1 = core s" by (auto simp: reading_def)
  have put: "\<exists>s2. put_block D b True s1 = (Ok True, s2) \<and> set_tip D ?t s2 = (Ok (), s') \<and> r" if np: "\<not> p"
  proof -
    obtain q s2 where q: "put_block D b True s1 = (Ok q, s2)" "set_tip D ?t s2 = (Ok (), s')" "r"
      using rest np by (auto simp: run_simps put_def)
    have "content (db s1) CF_BLOCKS (hash_key ?h) = None" using h(2) np core_eqD(1) [OF c] by simp
    with put_block_Ok [OF inv1 q(1)] have q by (auto split: if_splits)
    with q show ?thesis by auto
  qed
  show "store_inv D content s'"
  proof (cases p)
    case True
    with rest inv1 show ?thesis by auto
  next
    case False
    from put [OF this] obtain s2 where s2: "put_block D b True s1 = (Ok True, s2)" "set_tip D ?t s2 = (Ok (), s')" by auto
    from put_block_Ok [OF inv1 s2(1)] set_tip_inv [OF _ s2(2)] show ?thesis by auto
  qed
  show "core s' = core s \<and> ((\<exists>hdr. known_header D content s ?h hdr) \<or> (\<exists>b'. known_block D content s ?h b'))" if "\<not> r"
    using rest h(2) c that put by (cases p) auto
  show "stored_block D content s' ?h b \<and> tip s' = Some ?t \<and>
      min_retained_height_cached s' = min_retained_height_cached s \<and> canonical_at content s' n =
        (if n = dp_block_height D b \<and> min_retained_height_cached s \<le> n then Some ?h else canonical_at content s n)" if r
  proof -
    have "\<not> p" using rest that by auto
    from put [OF this] obtain s2 where s2: "put_block D b True s1 = (Ok True, s2)" "set_tip D ?t s2 = (Ok (), s')" by auto
    note new = put_block_new [OF inv1 s2(1)]
    from set_tip_state [OF s2(2)] obtain d where d: "s' = s2\<lparr>db := d, tip := Some ?t\<rparr>"
      "content d = (content (db s2))(CF_METADATA := (content (db s2) CF_METADATA)(as_bytes META_TIP \<mapsto> tip_to_bytes ?t))"
      by auto
    have "stored_block D content s' ?h b" using new(1) by (auto simp: d stored_block_def active_dict_def)
    moreover have "canonical_at content s' n = canonical_at content s2 n" by (simp add: d canonical_at_def)
    ultimately show ?thesis using new(4) new(6) [of n] core_known(6) [OF c] core_eqD(7) [OF c] by (auto simp: d)
  qed
qed

lemma init_genesis_Ok:
  assumes inv: "store_inv D content s" and run: "init_genesis D b s = (Ok u, s')"
    and fresh: "content (db s) CF_BLOCKS (hash_key (dp_block_hash D b)) = None"
    and uncached: "bt_get (canonical_height_cache s) 0 = None"
  shows "store_inv D content s'"
    and "dp_block_height D b = 0" and "tip s = None"
    and "tip s' = Some \<lparr>tip_hash = dp_block_hash D b, tip_height = 0\<rparr>"
    and "stored_block D content s' (dp_block_hash D b) b"
    and "content (db s') CF_CANONICAL (height_key 0) = Some (hash_key (dp_block_hash D b))"
    and "content (db s') CF_METADATA (as_bytes META_GENESIS_HASH) = Some (bytes32_octets (dp_block_hash D b))"
proof -
  let ?h = "dp_block_hash D b" and ?t = "\<lparr>tip_hash = dp_block_hash D b, tip_height = 0\<rparr>"
  let ?rows = "\<lambda>c c'. block_rows D b c c' @
      [PutCf CF_CANONICAL (height_key 0) (hash_key ?h), PutCf CF_METADATA (as_bytes META_TIP) (tip_to_bytes ?t),
       PutCf CF_METADATA (as_bytes META_GENESIS_HASH) (bytes32_octets ?h)]"
  let ?cached = "\<lambda>s2. s2\<lparr>record_cache := (record_cache s2)(?h \<mapsto> record_of_header D (blk_header b)),
      block_cache := cache_insert (dp_block_lru D) (block_cache s2) ?h b,
      header_cache := cache_insert (dp_header_lru D) (header_cache s2) ?h (blk_header b)\<rparr>"
  have get: "rk_get_cf (dp_rocks D) (db s) cf k = Inr x \<Longrightarrow> x = content (db s) cf k" for cf k x by (rule get_sound)
  obtain c c' d bin' where rw: "\<not> read_only s" and t: "content (db s) CF_METADATA (as_bytes META_TIP) = None"
    and n0: "dp_block_height D b = 0"
    and fr: "block_frame D (active_dict s) b c" and ser: "dp_ser_header D (blk_header b) = Inr c'"
    and wr: "rk_write (dp_rocks D) (db s) (?rows c c') = Inr d"
    and ext: "extend_write (dp_io D) 0 ?h (canonical_bin s) = (Ok (), bin')"
    and tr: "maybe_train_dictionary D (?cached (s\<lparr>db := d, canonical_bin := bin', tip := Some ?t\<rparr>)) = (Ok (), s')"
    using run
    by (auto simp: init_genesis_def tryM_Ok small_steps_Ok Let_def cache_step_defs(1-4) liftM_Ok
          serialize_header_Ok dest!: get serialize_block_Ok split: if_splits simp del: if_split)
  note cd = write_sound [OF wr]
  have X: "content d CF_BLOCKS = (content (db s) CF_BLOCKS)(hash_key ?h \<mapsto> c)"
    "content d CF_HEADERS = (content (db s) CF_HEADERS)(hash_key ?h \<mapsto> c')"
    "content d CF_CANONICAL = (content (db s) CF_CANONICAL)(height_key 0 \<mapsto> hash_key ?h)"
    "content d CF_METADATA (as_bytes META_TIP) = Some (tip_to_bytes ?t)"
    "content d CF_METADATA (as_bytes META_MIN_HEIGHT) = content (db s) CF_METADATA (as_bytes META_MIN_HEIGHT)"
    "content d CF_METADATA (as_bytes META_GENESIS_HASH) = Some (bytes32_octets ?h)"
    by (auto simp: cd block_rows_def)
  let ?s2 = "s\<lparr>canonical_bin := bin', tip := Some ?t\<rparr>\<lparr>db := d\<rparr>"
  have "data_inv D (\<lambda>_. content d) s"
    using inv fresh by (intro data_inv_new_block [OF _ _ fr ser refl X(1,2)]) (auto simp: store_inv_def content_now)
  moreover have "meta_ok (\<lambda>_. content d) (s\<lparr>canonical_bin := bin', tip := Some ?t\<rparr>)"
    using inv by (simp add: store_inv_def meta_ok_def X(4,5) cong: option.case_cong)
  moreover have "index_ok (\<lambda>_. content d) (s\<lparr>canonical_bin := bin'\<rparr>)"
  proof -
    have idx: "index_ok (\<lambda>_. content (db s)) s" using inv by (simp add: store_inv_def content_now)
    have ok: "bin_ok (canonical_bin s)" "bin_writable (canonical_bin s)" using idx rw by (auto simp: index_ok_def)
    have slots: "if m = 0 then y = ?h else bin_slot (canonical_bin s) m = Some y" if "bin_slot bin' m = Some y" for m y
      using bin.wr_slot [OF ok ext that] .
    show ?thesis
      using idx rw bin.wr_ok [OF ok(1) ext] ok(2) uncached
      by (auto simp: index_ok_def X(3) split: if_splits dest!: slots)
  qed
  ultimately have inv2: "store_inv D content ?s2" unfolding store_inv_def content_local by simp
  have sb: "stored_block D content ?s2 ?h b" "stored_header D content ?s2 ?h (blk_header b)"
    using fr ser by (auto simp: stored_block_def stored_header_def X active_dict_def)
  have "store_inv D content (?cached ?s2)" by (rule inv_cache_new_block [OF inv2 sb refl])
  moreover have "?cached ?s2 = ?cached (s\<lparr>db := d, canonical_bin := bin', tip := Some ?t\<rparr>)" by simp
  ultimately have inv3: "store_inv D content (?cached (s\<lparr>db := d, canonical_bin := bin', tip := Some ?t\<rparr>))" by metis
  note fin = inv_maybe_train [OF inv3 tr]
  show "store_inv D content s'" by (rule fin(1))
  obtain d' z where s': "s' = ?cached (s\<lparr>db := d, canonical_bin := bin', tip := Some ?t\<rparr>)\<lparr>db := d', zstd_dict := z\<rparr>"
    and rows: "same_rows (content d) (content d')" and z: "z = zstd_dict s \<or> zstd_dict s = None"
    using fin(2) by auto
  have rows': "content d' cf k = content d cf k" if "\<not> dict_row cf k" for cf k
    using rows that by (simp add: same_rows_def)
  show "dp_block_height D b = 0" by (rule n0)
  show "tip s = None" using inv t by (simp add: store_inv_def meta_ok_def)
  show "tip s' = Some ?t" by (simp add: s')
  show "stored_block D content s' ?h b"
    using z by (intro stored_block_dict [OF fr]) (auto simp: s' rows' dict_row_def X)
  show "content (db s') CF_CANONICAL (height_key 0) = Some (hash_key ?h)"
    "content (db s') CF_METADATA (as_bytes META_GENESIS_HASH) = Some (bytes32_octets ?h)"
    by (simp_all add: s' rows' dict_row_def X)
qed

end

end
