(* ===== verification/Reorg.thy ===== *)
theory Reorg
  imports Writes
begin

text \<open>
  Rollback and reorganization (\<open>rollback_to_height\<close> and \<open>apply_reorg\<close> of \<open>src/store.rs\<close>).

  The lemmas give the canonical chain, the tip and the returned list of reverted hashes after each
  operation, and show that the invariant holds again although database, sidecar and height cache
  are updated one after the other.
\<close>

section \<open>Operations\<close>

definition flag_records :: "bool \<Rightarrow> bytes32 list \<Rightarrow> ('d, 'b, 'h, 'g, unit) store_op" where
  "flag_records canonical hashes =
     modifyM (\<lambda>s. s\<lparr>record_cache :=
       fold (\<lambda>hash cache. case cache hash of
               Some r \<Rightarrow> cache(hash \<mapsto> r\<lparr>in_canonical_chain := canonical\<rparr>)
             | None \<Rightarrow> cache) hashes (record_cache s)\<rparr>)"

definition rollback_to_height ::
  "('d, 'b, 'h, 'g) deps \<Rightarrow> u64 \<Rightarrow> ('d, 'b, 'h, 'g, bytes32 list) store_op" where
  "rollback_to_height D target_height =
     tryM require_writable (\<lambda>_.
     tryM (getM tip) (\<lambda>t.
     tryM (liftM (ok_or NoTip t)) (\<lambda>current_tip.
     if tip_height current_tip < target_height
     then failM (RollbackAboveTip target_height (tip_height current_tip))
     else
       tryM min_retained_height (\<lambda>min_height.
       if target_height < min_height then failM (RollbackBelowMin target_height min_height)
       else if target_height = tip_height current_tip then returnM []
       else
         tryM (liftM (plain_add (dp_oc D) target_height 1)) (\<lambda>first.
         let heights = range_incl first (tip_height current_tip) in
         tryM (collect_heights (get_hash_by_height D) (rev heights)) (\<lambda>reverted.
         tryM (cf_handle D CF_CANONICAL) (\<lambda>_.
         tryM (db_write D (map (\<lambda>n. DeleteCf CF_CANONICAL (height_key n)) heights)) (\<lambda>_.
         tryM (with_bin (truncate_to_height (dp_io D) target_height)) (\<lambda>_.
         tryM (get_hash_by_height D target_height) (\<lambda>target.
         tryM (case target of
                 Some target_hash \<Rightarrow> set_tip D \<lparr>tip_hash = target_hash, tip_height = target_height\<rparr>
               | None \<Rightarrow> returnM ()) (\<lambda>_.
         tryM (flag_records False reverted) (\<lambda>_.
         tryM (modifyM (\<lambda>s. s\<lparr>canonical_height_cache :=
                 fold bt_remove heights (canonical_height_cache s)\<rparr>)) (\<lambda>_.
         returnM reverted)))))))))))))"

definition apply_reorg ::
  "('d, 'b, 'h, 'g) deps \<Rightarrow> u64 \<Rightarrow> bytes32 list \<Rightarrow> ('d, 'b, 'h, 'g, ReorgResult) store_op" where
  "apply_reorg D ancestor_height new_chain_hashes =
     tryM require_writable (\<lambda>_.
     tryM (getM tip) (\<lambda>t.
     tryM (liftM (ok_or NoTip t)) (\<lambda>current_tip.
     if new_chain_hashes = [] then failM EmptyReorgChain
     else
       tryM (validate_hashes D new_chain_hashes) (\<lambda>new_records.
       tryM (cf_handle D CF_CANONICAL) (\<lambda>_.
       tryM (cf_handle D CF_METADATA) (\<lambda>_.
       tryM (liftM (plain_add (dp_oc D) ancestor_height 1)) (\<lambda>first.
       let heights = range_incl first (tip_height current_tip);
           new_tip = \<lparr>tip_hash = last new_chain_hashes, tip_height = br_height (snd (last new_records))\<rparr>
       in
       tryM (collect_heights (get_hash_by_height D) (rev heights)) (\<lambda>reverted.
       tryM (db_write D
              (map (\<lambda>n. DeleteCf CF_CANONICAL (height_key n)) (rev heights) @
               map (\<lambda>(hash, record). PutCf CF_CANONICAL (height_key (br_height record)) (hash_key hash)) new_records @
               [PutCf CF_METADATA (as_bytes META_TIP) (tip_to_bytes new_tip)])) (\<lambda>_.
       tryM (with_bin (truncate_to_height (dp_io D) ancestor_height)) (\<lambda>_.
       tryM (forM new_records (\<lambda>(hash, record).
               with_bin (extend_write (dp_io D) (br_height record) hash))) (\<lambda>_.
       tryM (flag_records False reverted) (\<lambda>_.
       tryM (flag_records True (map fst new_records)) (\<lambda>_.
       tryM (modifyM (\<lambda>s. s\<lparr>canonical_height_cache :=
               fold (\<lambda>(hash, record). bt_insert (br_height record) hash) new_records
                 (fold bt_remove heights (canonical_height_cache s))\<rparr>)) (\<lambda>_.
       tryM (modifyM (\<lambda>s. s\<lparr>tip := Some new_tip\<rparr>)) (\<lambda>_.
       returnM \<lparr>rr_reverted = reverted, rr_applied = new_chain_hashes, rr_new_tip = new_tip\<rparr>)))))))))))))))"

section \<open>Flags of cached records\<close>

lemma flag_records_known:
  "(\<And>h r. m h = Some r \<Longrightarrow> known_record D content s h r) \<Longrightarrow>
   fold (\<lambda>hash cache. case cache hash of
               Some r \<Rightarrow> cache(hash \<mapsto> r\<lparr>in_canonical_chain := ic\<rparr>)
             | None \<Rightarrow> cache) hashes m h = Some r \<Longrightarrow> known_record D content s h r"
proof (induction hashes arbitrary: m)
  case (Cons x xs)
  let ?m = "case m x of Some r \<Rightarrow> m(x \<mapsto> r\<lparr>in_canonical_chain := ic\<rparr>) | None \<Rightarrow> m"
  have "known_record D content s h r" if "?m h = Some r" for h r
  proof (cases "m x")
    case None
    with that Cons.prems(1) show ?thesis by simp
  next
    case (Some r')
    with Cons.prems(1) have "known_record D content s x (r'\<lparr>in_canonical_chain := ic\<rparr>)"
      by (force simp: known_record_def)
    with Some that Cons.prems(1) show ?thesis by (auto split: if_splits)
  qed
  from Cons.IH [OF this] Cons.prems(2) show ?case by simp
qed simp

lemma flag_records_data:
  assumes "data_inv D content s"
  shows "data_inv D content (snd (flag_records ic hashes s))"
proof -
  have "known_record D content s h r" if "record_cache s h = Some r" for h r
    using assms that by (simp add: data_inv_def records_cached_def)
  from flag_records_known [OF this, of "record_cache s", where ic = ic and hashes = hashes] assms
  show ?thesis
    by (simp add: flag_records_def data_inv_def blocks_cached_def headers_cached_def records_cached_def)
qed

lemma btree_fold_remove_nil: "fold bt_remove ns [] = []"
  by (induction ns) (simp_all add: bt_remove_nil)

lemma index_okI:
  assumes "\<And>k v. content (db s) CF_CANONICAL k = Some v \<Longrightarrow> length k = 8 \<and> length v = 32"
    and "bt_wf (canonical_height_cache s)" and "bin_ok (canonical_bin s)" and "bin_writable (canonical_bin s)"
    and "canonical_height_cache_capacity s = 0 \<Longrightarrow> canonical_height_cache s = []"
    and "\<And>n x. min_retained_height_cached s \<le> n \<Longrightarrow> bt_get (canonical_height_cache s) n = Some x \<Longrightarrow>
      content (db s) CF_CANONICAL (height_key n) = Some (hash_key x)"
    and "\<And>n x. min_retained_height_cached s \<le> n \<Longrightarrow> bin_slot (canonical_bin s) n = Some x \<Longrightarrow>
      content (db s) CF_CANONICAL (height_key n) = Some (hash_key x)"
  shows "index_ok content s"
  using assms by (simp add: index_ok_def)

section \<open>Reading one height\<close>

text \<open>A lookup needs the index to be right at its own height only.\<close>

context deps_laws
begin

lemma get_hash_at:
  assumes run: "get_hash_by_height D n s = (Ok r, s')"
    and ok: "bin_ok (canonical_bin s)"
    and hc: "\<And>x. bt_get (canonical_height_cache s) n = Some x \<Longrightarrow> content (db s) CF_CANONICAL (height_key n) = Some (hash_key x)"
    and sl: "\<And>x. bin_slot (canonical_bin s) n = Some x \<Longrightarrow> content (db s) CF_CANONICAL (height_key n) = Some (hash_key x)"
  shows "r = canonical_at content s n \<and>
    (s' = s \<or> (\<exists>x. canonical_at content s n = Some x \<and> s' = snd (insert_canonical_height_cache n x s)))"
proof -
  have slot: "content (db s) CF_CANONICAL (height_key n) = Some (hash_key (bytes32_new arr))"
    if "read_hash_bytes (dp_oc D) (canonical_bin s) n = Ok (Some arr)" for arr
    using bin.rd_slot [OF ok that] sl by simp
  consider (pruned) "n < min_retained_height_cached s"
    | (cached) x where "\<not> n < min_retained_height_cached s" "bt_get (canonical_height_cache s) n = Some x"
    | (miss) "\<not> n < min_retained_height_cached s" "bt_get (canonical_height_cache s) n = None"
    by (cases "bt_get (canonical_height_cache s) n") auto
  then show ?thesis
  proof cases
    case pruned
    then show ?thesis using run by (simp add: get_hash_by_height_def canonical_at_def)
  next
    case cached
    then show ?thesis using run hc [OF cached(2)] by (auto simp: get_hash_by_height_def canonical_at_def hash_key_def)
  next
    case miss
    obtain x where x: "read_hash_bytes (dp_oc D) (canonical_bin s) n = Ok x"
      using run miss by (auto simp: get_hash_by_height_def run_simps)
    show ?thesis
    proof (cases x)
      case (Some arr)
      then show ?thesis
        using run miss x slot by (auto simp: get_hash_by_height_def run_simps modify_steps_Ok canonical_at_def hash_key_def)
    next
      case None
      then obtain g where g: "rk_get_cf (dp_rocks D) (db s) CF_CANONICAL (height_key n) = Inr g"
        using run miss x by (auto simp: get_hash_by_height_def run_simps)
      from get_sound [OF g] run miss x g None show ?thesis
        by (cases "content (db s) CF_CANONICAL (height_key n)") (auto simp: get_hash_by_height_def run_simps modify_steps_Ok canonical_at_def split: if_splits)
    qed
  qed
qed

lemma rollback_lookup_cache:
  assumes "s2 = m \<or> (\<exists>x. canonical_at content s target = Some x \<and> s2 = snd (insert_canonical_height_cache target x m))"
    and "index_ok (\<lambda>_. content (db s)) s1" and "min_retained_height_cached s \<le> target"
    and m: "m = s1\<lparr>db := d, canonical_bin := bin'\<rparr>"
    and min1: "min_retained_height_cached s1 = min_retained_height_cached s"
  shows "\<exists>hc. s2 = m\<lparr>canonical_height_cache := hc\<rparr> \<and> bt_wf hc \<and> (canonical_height_cache_capacity s1 = 0 \<longrightarrow> hc = []) \<and>
    (\<forall>n x. min_retained_height_cached s \<le> n \<longrightarrow> bt_get hc n = Some x \<longrightarrow>
       content (db s) CF_CANONICAL (height_key n) = Some (hash_key x))"
  using assms(1)
proof (elim disjE exE conjE)
  assume "s2 = m"
  with assms(2) min1 show ?thesis by (intro exI [of _ "canonical_height_cache s1"]) (auto simp: m index_ok_def)
next
  fix x assume x: "canonical_at content s target = Some x" and s2: "s2 = snd (insert_canonical_height_cache target x m)"
  have row: "content (db s) CF_CANONICAL (height_key target) = Some (hash_key x)"
    using x assms(2,3) by (auto simp: canonical_at_def index_ok_def hash_key_def bytes32_octets_new split: if_splits)
  have "index_ok (\<lambda>_. content (db s)) (snd (insert_canonical_height_cache target x s1))"
  proof (rule insert_height_index)
    show "index_ok (\<lambda>_. content (db s)) (s1\<lparr>canonical_height_cache := bt_remove target (canonical_height_cache s1)\<rparr>)"
      using assms(2) by (auto simp: index_ok_def bt_wf_remove bt_get_remove bt_remove_nil split: if_splits)
  qed (use assms(2) row in \<open>auto simp: index_ok_def\<close>)
  then show ?thesis
    using min1 by (intro exI [of _ "canonical_height_cache s2"])
      (auto simp: s2 m index_ok_def insert_canonical_height_cache_def)
qed

lemma rollback_set_tip:
  assumes "(case th of Some target_hash \<Rightarrow> set_tip D \<lparr>tip_hash = target_hash, tip_height = target\<rparr>
      | None \<Rightarrow> returnM ()) s2 = (Ok (), s3)"
    and "db s2 = d"
  shows "\<exists>d3 tp. s3 = s2\<lparr>db := d3, tip := tp\<rparr> \<and> content d3 = (content d)(CF_METADATA := content d3 CF_METADATA) \<and>
    tp = (case th of None \<Rightarrow> tip s2 | Some x \<Rightarrow> Some \<lparr>tip_hash = x, tip_height = target\<rparr>) \<and>
    content d3 CF_METADATA = (case th of None \<Rightarrow> content d CF_METADATA
      | Some x \<Rightarrow> (content d CF_METADATA)(as_bytes META_TIP \<mapsto> tip_to_bytes \<lparr>tip_hash = x, tip_height = target\<rparr>))"
proof (cases th)
  case None
  with assms show ?thesis by (intro exI [of _ d] exI [of _ "tip s2"]) auto
next
  case (Some x)
  with assms set_tip_state [of \<open>\<lparr>tip_hash = x, tip_height = target\<rparr>\<close> s2 "Ok ()" s3] show ?thesis by auto
qed

lemma rollback_Ok:
  assumes inv: "store_inv D content s" and run: "rollback_to_height D target s = (Ok reverted, s')"
  obtains t where "tip s = Some t" and "min_retained_height_cached s \<le> target" and "target \<le> tip_height t"
    and "store_inv D content s'"
    and "reverted = List.map_filter (canonical_at content s)
          (rev (if target = tip_height t then [] else range_incl (target + 1) (tip_height t)))"
    and "\<And>n. canonical_at content s' n = (if target < n \<and> n \<le> tip_height t then None else canonical_at content s n)"
    and "tip s' = (if target = tip_height t then Some t
          else case canonical_at content s target of
            None \<Rightarrow> Some t | Some x \<Rightarrow> Some \<lparr>tip_hash = x, tip_height = target\<rparr>)"
    and "min_retained_height_cached s' = min_retained_height_cached s"
proof -
  obtain t where t: "tip s = Some t" and rw: "\<not> read_only s" and le: "target \<le> tip_height t"
    and min: "min_retained_height_cached s \<le> target"
    using run by (auto simp: rollback_to_height_def run_simps min_retained_height_def split: if_splits)
  show ?thesis
  proof (cases "target = tip_height t")
    case True
    then have "reverted = [] \<and> s' = s"
      using run t rw min
      by (auto simp: rollback_to_height_def run_simps min_retained_height_def split: if_splits)
    with True inv t min show ?thesis by (intro that [of t]) (auto simp: List.map_filter_def)
  next
    case False
    let ?heights = "range_incl (target + 1) (tip_height t)"
    have less: "target < tip_height t" using le False by simp
    have no_over: "unat target + unat (1 :: u64) < 2 ^ 64"
      using less unat_bound [of "tip_height t"] by (simp add: word_less_nat_alt)
    have mem: "n \<in> set ?heights \<longleftrightarrow> target < n \<and> n \<le> tip_height t" for n
      using unat_add_below [OF no_over] by (auto simp: word_le_nat_alt word_less_nat_alt)
    obtain s1 d bin' th s2 s3 where
      col: "collect_heights (get_hash_by_height D) (rev ?heights) s = (Ok reverted, s1)"
      and wr: "rk_write (dp_rocks D) (db s1) (map (\<lambda>n. DeleteCf CF_CANONICAL (height_key n)) ?heights) = Inr d"
      and tr: "truncate_to_height (dp_io D) target (canonical_bin s1) = (Ok (), bin')"
      and gt: "get_hash_by_height D target (s1\<lparr>db := d, canonical_bin := bin'\<rparr>) = (Ok th, s2)"
      and st: "(case th of Some target_hash \<Rightarrow> set_tip D \<lparr>tip_hash = target_hash, tip_height = target\<rparr>
               | None \<Rightarrow> returnM ()) s2 = (Ok (), s3)"
      and s': "s' = (snd (flag_records False reverted s3))\<lparr>canonical_height_cache := fold bt_remove ?heights (canonical_height_cache s3)\<rparr>"
      using run t rw le min False
      by (auto simp: rollback_to_height_def run_simps min_retained_height_def Let_def flag_records_def
          split: if_splits)
    have red: "reading D content s s1" "reverted = List.map_filter (canonical_at content s) (rev ?heights)"
      using yields_OkD [OF collect_hashes_yields [OF inv] reading_refl [OF inv] col] by auto
    then have inv1: "store_inv D content s1" and core1: "core s1 = core s" by (auto simp: reading_def)
    note c = core_eqD [OF core1]
    have X: "content d CF_CANONICAL k = (if k \<in> height_key ` set ?heights then None else content (db s) CF_CANONICAL k)"
      "cf \<noteq> CF_CANONICAL \<Longrightarrow> content d cf = content (db s) cf" for k cf
      unfolding write_sound [OF wr] by (simp_all add: apply_deletes apply_deletes_other c del: set_range_incl)
    have kept: "content d CF_CANONICAL (height_key n) = content (db s) CF_CANONICAL (height_key n)"
      if "n \<notin> set ?heights" for n using that by (auto simp: X)
    have idx1: "index_ok (\<lambda>_. content (db s)) s1" and data1: "data_inv D (\<lambda>_. content (db s)) s1"
      and meta1: "meta_ok (\<lambda>_. content (db s)) s1"
      unfolding c(1) [symmetric] using inv1 by (simp_all add: store_inv_def content_now)
    have ok1: "bin_ok (canonical_bin s1)" "bin_writable (canonical_bin s1)" using idx1 rw c by (auto simp: index_ok_def)
    note bin' = bin.tr_ok [OF ok1(1) tr] and slots = bin.tr_slot [OF ok1 tr]
    have target: "target \<notin> set ?heights" using mem by auto
    let ?m = "s1\<lparr>db := d, canonical_bin := bin'\<rparr>"
    have at: "th = canonical_at content s target"
      and s2: "s2 = ?m \<or> (\<exists>x. canonical_at content s target = Some x \<and> s2 = snd (insert_canonical_height_cache target x ?m))"
    proof -
      have "canonical_at content ?m target = canonical_at content s target"
        using kept [OF target] by (simp add: canonical_at_def c)
      with get_hash_at [OF gt] idx1 bin' slots min kept [OF target]
      show "th = canonical_at content s target"
        "s2 = ?m \<or> (\<exists>x. canonical_at content s target = Some x \<and> s2 = snd (insert_canonical_height_cache target x ?m))"
        by (auto simp: index_ok_def c)
    qed
    obtain hc where hc: "s2 = ?m\<lparr>canonical_height_cache := hc\<rparr>" and hc_wf: "bt_wf hc"
      and hc_cap: "canonical_height_cache_capacity s1 = 0 \<Longrightarrow> hc = []"
      and hc_get: "\<And>n x. min_retained_height_cached s \<le> n \<Longrightarrow> bt_get hc n = Some x \<Longrightarrow>
            content (db s) CF_CANONICAL (height_key n) = Some (hash_key x)"
      using rollback_lookup_cache [OF s2 idx1 min refl c(7)] by blast
    have db2: "db s2 = d" and tip2: "tip s2 = Some t" by (simp_all add: hc c t)
    from rollback_set_tip [OF st db2, unfolded at tip2] obtain d3 tp where s3: "s3 = s2\<lparr>db := d3, tip := tp\<rparr>"
      and X3: "content d3 = (content d)(CF_METADATA := content d3 CF_METADATA)"
      and tp: "tp = (case canonical_at content s target of
            None \<Rightarrow> Some t | Some x \<Rightarrow> Some \<lparr>tip_hash = x, tip_height = target\<rparr>)"
      and M3: "content d3 CF_METADATA = (case canonical_at content s target of None \<Rightarrow> content d CF_METADATA
        | Some x \<Rightarrow> (content d CF_METADATA)(as_bytes META_TIP \<mapsto> tip_to_bytes \<lparr>tip_hash = x, tip_height = target\<rparr>))"
      by blast
    have meta3: "meta_ok (\<lambda>_. content d3) (s1\<lparr>tip := tp\<rparr>)"
      using meta1 X(2) [of CF_METADATA] t c M3 tp
      by (cases "canonical_at content s target") (simp_all add: meta_ok_def cong: option.case_cong)
    let ?hc' = "fold bt_remove ?heights hc"
    have s'_eq: "s' = (snd (flag_records False reverted (s1\<lparr>db := d3\<rparr>)))\<lparr>canonical_bin := bin', tip := tp, canonical_height_cache := ?hc'\<rparr>"
      by (simp add: s' s3 hc flag_records_def)
    have Y: "content d3 CF_CANONICAL = content d CF_CANONICAL" "content d3 CF_BLOCKS = content (db s) CF_BLOCKS"
      "content d3 CF_HEADERS = content (db s) CF_HEADERS"
      using fun_cong [OF X3, of CF_CANONICAL] fun_cong [OF X3, of CF_BLOCKS] fun_cong [OF X3, of CF_HEADERS]
      by (simp_all add: X(2))
    have "data_inv D content (s1\<lparr>db := d3\<rparr>)"
      unfolding content_local by (rule data_inv_rows_cong [THEN iffD2, OF Y(2,3) data1])
    then have data': "data_inv D content s'" by (simp add: s'_eq flag_records_data)
    have idx': "index_ok content s'"
    proof (rule index_okI)
      fix k v assume "content (db s') CF_CANONICAL k = Some v"
      then have "content (db s) CF_CANONICAL k = Some v" by (simp add: s'_eq flag_records_def Y X split: if_splits)
      then show "length k = 8 \<and> length v = 32" using idx1 unfolding index_ok_def by blast
    next
      fix n x assume n: "min_retained_height_cached s' \<le> n" and x: "bt_get (canonical_height_cache s') n = Some x"
      from n have n': "min_retained_height_cached s \<le> n" by (simp add: s'_eq flag_records_def c)
      from x have "n \<notin> set ?heights" "bt_get hc n = Some x"
        by (simp_all add: s'_eq btree.get_fold_remove del: set_range_incl split: if_splits)
      with hc_get [OF n'] kept show "content (db s') CF_CANONICAL (height_key n) = Some (hash_key x)"
        by (simp add: s'_eq flag_records_def Y del: set_range_incl)
    next
      fix n x assume n: "min_retained_height_cached s' \<le> n" and x: "bin_slot (canonical_bin s') n = Some x"
      from n have n': "min_retained_height_cached s1 \<le> n" by (simp add: s'_eq flag_records_def)
      from x slots have "n \<le> target" "bin_slot (canonical_bin s1) n = Some x" by (auto simp: s'_eq)
      with idx1 n' have "content (db s) CF_CANONICAL (height_key n) = Some (hash_key x)" "n \<notin> set ?heights"
        unfolding mem index_ok_def by auto
      with kept show "content (db s') CF_CANONICAL (height_key n) = Some (hash_key x)"
        by (simp add: s'_eq flag_records_def Y del: set_range_incl)
    qed (use bin' ok1 hc_wf hc_cap in \<open>simp_all add: s'_eq flag_records_def btree.invar_fold_remove btree_fold_remove_nil\<close>)
    have meta': "meta_ok content s'" using meta3 by (simp add: s'_eq flag_records_def meta_ok_def cong: option.case_cong)
    show ?thesis
    proof (rule that [OF t min le])
      show "store_inv D content s'" using data' idx' meta' by (simp add: store_inv_def)
      show "reverted = List.map_filter (canonical_at content s)
          (rev (if target = tip_height t then [] else range_incl (target + 1) (tip_height t)))"
        using red(2) False by simp
      show "canonical_at content s' n = (if target < n \<and> n \<le> tip_height t then None else canonical_at content s n)" for n
        using kept [of n] X(1) [of "height_key n"] unfolding mem [symmetric]
        by (auto simp: canonical_at_def s'_eq flag_records_def Y c simp del: set_range_incl)
      show "tip s' = (if target = tip_height t then Some t
          else case canonical_at content s target of
            None \<Rightarrow> Some t | Some x \<Rightarrow> Some \<lparr>tip_hash = x, tip_height = target\<rparr>)"
        using False tp by (simp add: s'_eq)
      show "min_retained_height_cached s' = min_retained_height_cached s" by (simp add: s'_eq flag_records_def c)
    qed
  qed
qed

end

section \<open>Reorganization\<close>

lemma forM_with_bin:
  assumes "forM vs (\<lambda>(h, r). with_bin (extend_write io (br_height r) h)) s = (Ok u, s')"
  shows "\<exists>bin'. forM vs (\<lambda>(h, r). extend_write io (br_height r) h) (canonical_bin s) = (Ok u, bin') \<and>
    s' = s\<lparr>canonical_bin := bin'\<rparr>"
  using assms
proof (induction vs arbitrary: s)
  case (Cons p vs)
  obtain h r where p: "p = (h, r)" by force
  from Cons.prems obtain bin1 where ext: "extend_write io (br_height r) h (canonical_bin s) = (Ok (), bin1)"
    and rest: "forM vs (\<lambda>(h, r). with_bin (extend_write io (br_height r) h)) (s\<lparr>canonical_bin := bin1\<rparr>) = (Ok u, s')"
    by (auto simp: p run_simps)
  from Cons.IH [OF rest] ext show ?case by (auto simp: p run_simps)
qed auto

lemma bt_fold_entries:
  "fold (\<lambda>(hash, record). bt_insert (br_height record) hash) vs t =
    fold (\<lambda>(k, v). bt_insert k v) (map (\<lambda>(h, r). (br_height r, h)) vs) t"
  by (induction vs arbitrary: t) auto

lemma bt_get_entries:
  "bt_get (fold (\<lambda>(hash, record). bt_insert (br_height record) hash) vs t) n =
    (case entries_at vs n of None \<Rightarrow> bt_get t n | Some h \<Rightarrow> Some h)"
  by (simp add: bt_fold_entries btree.get_fold_insert entries_at_def)

lemma bt_wf_entries:
  "bt_wf t \<Longrightarrow> bt_wf (fold (\<lambda>(hash, record). bt_insert (br_height record) hash) vs t)"
  by (simp only: bt_fold_entries btree.invar_fold_insert)

text \<open>The rows of a reorganization batch.\<close>

definition reorg_rows :: "u64 list \<Rightarrow> (bytes32 \<times> BlockRecord) list \<Rightarrow> ChainTip \<Rightarrow> write_batch" where
  "reorg_rows heights vs t =
     map (\<lambda>n. DeleteCf CF_CANONICAL (height_key n)) (rev heights) @ canonical_puts vs @
     [PutCf CF_METADATA (as_bytes META_TIP) (tip_to_bytes t)]"

lemma reorg_rows_content:
  "apply_batch (reorg_rows heights vs t) c CF_CANONICAL (height_key n) =
     (case entries_at vs n of Some h \<Rightarrow> Some (hash_key h)
      | None \<Rightarrow> if n \<in> set heights then None else c CF_CANONICAL (height_key n))"
  "apply_batch (reorg_rows heights vs t) c CF_METADATA = (c CF_METADATA)(as_bytes META_TIP \<mapsto> tip_to_bytes t)"
  "cf \<noteq> CF_CANONICAL \<Longrightarrow> cf \<noteq> CF_METADATA \<Longrightarrow> apply_batch (reorg_rows heights vs t) c cf = c cf"
proof -
  have inj: "height_key n \<in> height_key ` set heights \<longleftrightarrow> n \<in> set heights" by auto
  show "apply_batch (reorg_rows heights vs t) c CF_CANONICAL (height_key n) =
     (case entries_at vs n of Some h \<Rightarrow> Some (hash_key h)
      | None \<Rightarrow> if n \<in> set heights then None else c CF_CANONICAL (height_key n))"
    by (simp add: reorg_rows_def canonical_puts_rows apply_deletes inj split: option.splits)
qed (simp_all add: reorg_rows_def canonical_puts_other apply_deletes_other)

lemma reorg_rows_shape:
  assumes "\<And>k v. c CF_CANONICAL k = Some v \<Longrightarrow> length k = 8 \<and> length v = 32"
    and "apply_batch (reorg_rows heights vs t) c CF_CANONICAL k = Some v"
  shows "length k = 8 \<and> length v = 32"
proof (rule canonical_puts_shape)
  show "apply_batch (canonical_puts vs) (apply_batch (map (\<lambda>n. DeleteCf CF_CANONICAL (height_key n)) (rev heights)) c)
      CF_CANONICAL k = Some v"
    using assms(2) by (simp add: reorg_rows_def)
qed (use assms(1) in \<open>auto simp: apply_deletes split: if_splits\<close>)

context deps_laws
begin

text \<open>The index after a reorganization: rows, sidecar and height cache together.\<close>

lemma index_reorg:
  assumes idx: "index_ok (\<lambda>_. X) s" and rw: "\<not> read_only s" and cap: "canonical_height_cache_capacity s \<noteq> 0"
    and tr: "truncate_to_height io ancestor (canonical_bin s) = (Ok (), bin1)"
    and ext: "forM vs (\<lambda>(h, r). extend_write io (br_height r) h) bin1 = (Ok u, bin2)"
    and mem: "\<And>n. n \<in> set heights \<Longrightarrow> ancestor < n"
  shows "index_ok (\<lambda>_. apply_batch (reorg_rows heights vs t) X)
    (s\<lparr>canonical_bin := bin2, canonical_height_cache :=
         fold (\<lambda>(hash, record). bt_insert (br_height record) hash) vs
           (fold bt_remove heights (canonical_height_cache s))\<rparr>)"
proof (rule index_okI)
  fix k v assume "apply_batch (reorg_rows heights vs t) X CF_CANONICAL k = Some v"
  from reorg_rows_shape [OF _ this] idx show "length k = 8 \<and> length v = 32" by (simp add: index_ok_def)
next
  have ok: "bin_ok (canonical_bin s)" "bin_writable (canonical_bin s)" using idx rw by (auto simp: index_ok_def)
  have ok1: "bin_ok bin1" "bin_writable bin1" using bin.tr_ok [OF ok(1) tr] ok(2) by auto
  note b = bin_entries [OF ok1 ext]
  show "bin_ok (canonical_bin (s\<lparr>canonical_bin := bin2, canonical_height_cache :=
         fold (\<lambda>(hash, record). bt_insert (br_height record) hash) vs (fold bt_remove heights (canonical_height_cache s))\<rparr>))"
    "bin_writable (canonical_bin (s\<lparr>canonical_bin := bin2, canonical_height_cache :=
         fold (\<lambda>(hash, record). bt_insert (br_height record) hash) vs (fold bt_remove heights (canonical_height_cache s))\<rparr>))"
    using b by simp_all
  show "apply_batch (reorg_rows heights vs t) X CF_CANONICAL (height_key n) = Some (hash_key x)"
    if n: "min_retained_height_cached (s\<lparr>canonical_bin := bin2, canonical_height_cache :=
         fold (\<lambda>(hash, record). bt_insert (br_height record) hash) vs (fold bt_remove heights (canonical_height_cache s))\<rparr>) \<le> n"
      and x: "bin_slot (canonical_bin (s\<lparr>canonical_bin := bin2, canonical_height_cache :=
         fold (\<lambda>(hash, record). bt_insert (br_height record) hash) vs (fold bt_remove heights (canonical_height_cache s))\<rparr>)) n = Some x" for n x
  proof (cases "entries_at vs n")
    case None
    with b x have "bin_slot bin1 n = Some x" by fastforce
    from bin.tr_slot [OF ok tr this] have "n \<le> ancestor" "bin_slot (canonical_bin s) n = Some x" by auto
    moreover have "n \<notin> set heights" using mem [of n] \<open>n \<le> ancestor\<close> by auto
    ultimately show ?thesis using idx n None by (simp add: reorg_rows_content index_ok_def)
  next
    case (Some y)
    with b x show ?thesis by (fastforce simp: reorg_rows_content)
  qed
qed (use idx cap in \<open>auto simp: index_ok_def bt_wf_entries btree.invar_fold_remove bt_get_entries
    btree.get_fold_remove reorg_rows_content split: option.splits if_splits\<close>)

lemma apply_reorg_Ok:
  assumes inv: "store_inv D content s" and run: "apply_reorg D ancestor hashes s = (Ok rr, s')"
    and no_wrap: "ancestor + 1 \<noteq> 0" and cap: "canonical_height_cache_capacity s \<noteq> 0"
  obtains t vs where "tip s = Some t" and "hashes \<noteq> []" and "map fst vs = hashes"
    and "\<forall>(h, r) \<in> set vs. known_record D content s h r"
    and "store_inv D content s'"
    and "rr_reverted rr = List.map_filter (canonical_at content s) (rev (range_incl (ancestor + 1) (tip_height t)))"
    and "rr_applied rr = hashes"
    and "rr_new_tip rr = \<lparr>tip_hash = last hashes, tip_height = br_height (snd (last vs))\<rparr>"
    and "tip s' = Some (rr_new_tip rr)"
    and "min_retained_height_cached s' = min_retained_height_cached s"
    and "\<And>n. canonical_at content s' n =
      (if n < min_retained_height_cached s then None
       else case entries_at vs n of Some h \<Rightarrow> Some h
         | None \<Rightarrow> if ancestor < n \<and> n \<le> tip_height t then None else canonical_at content s n)"
proof -
  obtain t vs s1 s2 s3 reverted d bin1 where t: "tip s = Some t" and rw: "\<not> read_only s" and ne: "hashes \<noteq> []"
    and v: "validate_hashes D hashes s = (Ok vs, s1)"
    and col: "collect_heights (get_hash_by_height D) (rev (range_incl (ancestor + 1) (tip_height t))) s1 = (Ok reverted, s2)"
    and wr: "rk_write (dp_rocks D) (db s2) (reorg_rows (range_incl (ancestor + 1) (tip_height t)) vs
          \<lparr>tip_hash = last hashes, tip_height = br_height (snd (last vs))\<rparr>) = Inr d"
    and tr: "truncate_to_height (dp_io D) ancestor (canonical_bin s2) = (Ok (), bin1)"
    and ext: "forM vs (\<lambda>(hash, record). with_bin (extend_write (dp_io D) (br_height record) hash))
          (s2\<lparr>db := d, canonical_bin := bin1\<rparr>) = (Ok (), s3)"
    and s': "s' = (snd (flag_records True (map fst vs) (snd (flag_records False reverted s3))))
          \<lparr>canonical_height_cache := fold (\<lambda>(hash, record). bt_insert (br_height record) hash) vs
               (fold bt_remove (range_incl (ancestor + 1) (tip_height t)) (canonical_height_cache s3)),
           tip := Some \<lparr>tip_hash = last hashes, tip_height = br_height (snd (last vs))\<rparr>\<rparr>"
    and rr: "rr = \<lparr>rr_reverted = reverted, rr_applied = hashes,
          rr_new_tip = \<lparr>tip_hash = last hashes, tip_height = br_height (snd (last vs))\<rparr>\<rparr>"
    using run
    by (auto simp: apply_reorg_def tryM_Ok small_steps_Ok liftM_Ok Let_def reorg_rows_def canonical_puts_def
        plain_add_def flag_records_def ok_or_Ok split: if_splits)
  let ?heights = "range_incl (ancestor + 1) (tip_height t)"
  let ?t = "\<lparr>tip_hash = last hashes, tip_height = br_height (snd (last vs))\<rparr>"
  have mem: "n \<in> set ?heights \<longleftrightarrow> ancestor < n \<and> n \<le> tip_height t" for n
  proof -
    have "unat (ancestor + 1) = Suc (unat ancestor)" using no_wrap unatSuc [of ancestor] by (simp add: add.commute)
    then show ?thesis by (auto simp: word_le_nat_alt word_less_nat_alt)
  qed
  note v' = validate_hashes_Ok [OF inv v]
  have red: "reading D content s1 s2" "reverted = List.map_filter (canonical_at content s) (rev ?heights)"
    using yields_OkD [OF collect_hashes_yields [OF v'(1)] reading_refl [OF v'(1)] col] core_known(6) [OF v'(2)] by auto
  then have inv2: "store_inv D content s2" and core2: "core s2 = core s" using v'(2) by (auto simp: reading_def)
  note c = core_eqD [OF core2]
  have cap2: "canonical_height_cache_capacity s2 = canonical_height_cache_capacity s" using core2 by (simp add: core_def)
  have X: "content d = apply_batch (reorg_rows ?heights vs ?t) (content (db s))"
    using write_sound [OF wr] by (simp add: c)
  have idx2: "index_ok (\<lambda>_. content (db s)) s2" and data2: "data_inv D (\<lambda>_. content (db s)) s2"
    and meta2: "meta_ok (\<lambda>_. content (db s)) s2"
    unfolding c(1) [symmetric] using inv2 by (simp_all add: store_inv_def content_now)
  obtain bin2 where bin2: "forM vs (\<lambda>(h, r). extend_write (dp_io D) (br_height r) h) bin1 = (Ok (), bin2)"
    and s3: "s3 = s2\<lparr>db := d, canonical_bin := bin2\<rparr>"
    using forM_with_bin [OF ext] by auto
  let ?hc = "fold (\<lambda>(hash, record). bt_insert (br_height record) hash) vs (fold bt_remove ?heights (canonical_height_cache s2))"
  let ?s4 = "snd (flag_records True (map fst vs) (snd (flag_records False reverted (s2\<lparr>db := d\<rparr>))))"
  have s'_eq: "s' = ?s4\<lparr>canonical_bin := bin2, canonical_height_cache := ?hc, tip := Some ?t\<rparr>"
    by (simp add: s' s3 flag_records_def)
  have "data_inv D content (s2\<lparr>db := d\<rparr>)"
    unfolding content_local
    by (rule data_inv_rows_cong [THEN iffD2, OF _ _ data2]) (simp_all add: X reorg_rows_content)
  then have data': "data_inv D content s'" unfolding s'_eq by (simp add: flag_records_data)
  have "index_ok (\<lambda>_. content d) (s2\<lparr>canonical_bin := bin2, canonical_height_cache := ?hc\<rparr>)"
    unfolding X using rw cap cap2 mem c by (intro index_reorg [OF idx2 _ _ tr bin2]) auto
  then have idx': "index_ok content s'" by (simp add: s'_eq flag_records_def index_ok_def)
  have meta': "meta_ok content s'"
    using meta2 by (simp add: s'_eq flag_records_def meta_ok_def X reorg_rows_content cong: option.case_cong)
  show ?thesis
  proof (rule that [OF t ne v'(3,4)])
    show "store_inv D content s'" using data' idx' meta' by (simp add: store_inv_def)
    show "canonical_at content s' n =
      (if n < min_retained_height_cached s then None
       else case entries_at vs n of Some h \<Rightarrow> Some h
         | None \<Rightarrow> if ancestor < n \<and> n \<le> tip_height t then None else canonical_at content s n)" for n
      unfolding mem [symmetric]
      by (auto simp: canonical_at_def s'_eq flag_records_def X reorg_rows_content c hash_key_def
          simp del: set_range_incl split: option.splits)
  qed (simp_all add: rr red(2) s'_eq flag_records_def c)
qed

end

end
