(* ===== verification/Scans.thy ===== *)
theory Scans
  imports Store_Inv
begin

text \<open>
  Loops over a RocksDB iterator: \<open>foldM\<close> for a loop that runs to the end, \<open>loopM\<close> for one that may
  \<open>break\<close>. A loop that returns has seen the rows of the family in key order; one that skips keys of
  a foreign length and stops at the first key beyond a bound has processed exactly the rows of the
  right length up to the bound. \<open>live_deps\<close> adds to the laws of the third-party code that the calls
  to RocksDB succeed, which is what a statement that an operation returns a value rests on.
\<close>

section \<open>Loops with break\<close>

datatype 'a flow = Continue 'a | Break 'a

fun loopM ::
  "('acc \<Rightarrow> 'a \<Rightarrow> ('s, 'e, 'acc flow) operation) \<Rightarrow> 'acc \<Rightarrow> 'a list \<Rightarrow> ('s, 'e, 'acc) operation" where
  "loopM f acc [] = returnM acc"
| "loopM f acc (x # xs) =
     tryM (f acc x) (\<lambda>r. case r of Continue acc' \<Rightarrow> loopM f acc' xs | Break acc' \<Rightarrow> returnM acc')"

lemma unchanged_case_flow [frame_rules]:
  "(\<And>a. unchanged g (f a)) \<Longrightarrow> (\<And>a. unchanged g (f' a)) \<Longrightarrow>
    unchanged g (case r of Continue a \<Rightarrow> f a | Break a \<Rightarrow> f' a)"
  by (cases r) simp_all

lemma unchanged_loopM [frame_rules]:
  "(\<And>acc x. unchanged g (f acc x)) \<Longrightarrow> unchanged g (loopM f acc xs)"
  by (induction xs arbitrary: acc) (auto intro!: frame_rules)

section \<open>Loops over an iterator\<close>

lemma db_iter_try [simp]: "tryM (db_iter D cf mode) f s = f (rk_iterator_cf (dp_rocks D) (db s) cf mode) s"
  by (simp add: db_iter_def)

lemma iter_loop:
  assumes "foldM (\<lambda>acc item. tryM (next_item item) (f acc)) acc items s = (Ok r, s')"
  shows "\<exists>xs. items = map Inr xs \<and> foldM f acc xs s = (Ok r, s')"
  using assms
proof (induction items arbitrary: acc s)
  case Nil
  then show ?case by simp
next
  case (Cons item items)
  then obtain x acc' s1 where x: "item = Inr x" "f acc x s = (Ok acc', s1)"
    and "foldM (\<lambda>acc item. tryM (next_item item) (f acc)) acc' items s1 = (Ok r, s')"
    by (auto simp: tryM_Ok small_steps_Ok)
  with Cons.IH obtain xs where "items = map Inr xs" "foldM f acc' xs s1 = (Ok r, s')" by blast
  with x show ?case by (intro exI [of _ "x # xs"]) (simp add: tryM_run)
qed

lemma foldM_pure: "foldM (\<lambda>acc x. returnM (f acc x)) acc xs s = (Ok (foldl f acc xs), s)"
  by (induction xs arbitrary: acc) simp_all

lemma iterates_complete: "iterates (map Inr xs) ys \<Longrightarrow> xs = ys"
  by (auto simp: iterates_def map_eq_append_conv Cons_eq_map_conv inj_map_eq_map)

lemma tryM_liftM_Ok [simp]: "tryM (liftM (Ok x)) f = f x"
  by (simp add: fun_eq_iff)

lemma tryM_Pair [simp]: "tryM (Pair (Ok x)) f = f x"
  by (simp add: fun_eq_iff tryM_def)

lemma plain_add_count: "n + 1 < 2 ^ 64 \<Longrightarrow> plain_add oc (of_nat n) 1 = Ok (of_nat (Suc n))"
proof -
  assume n: "n + 1 < 2 ^ 64"
  have "unat (of_nat n :: u64) = n" using n by (simp add: unat_of_nat take_bit_eq_mod)
  with n have "plain_add oc (of_nat n) 1 = Ok (of_nat n + 1)" by (simp add: plain_add_def)
  then show ?thesis by (simp add: add.commute)
qed

lemma next_item_run [simp]: "tryM (next_item (Inr x)) f = f x"
  by (simp add: next_item_def fun_eq_iff)

lemma fold_items: "foldM (\<lambda>acc item. tryM (next_item item) (f acc)) acc (map Inr xs) = foldM f acc xs"
  by (induction xs arbitrary: acc) simp_all

lemma loop_items: "loopM (\<lambda>acc item. tryM (next_item item) (f acc)) acc (map Inr xs) = loopM f acc xs"
  by (induction xs arbitrary: acc) simp_all

section \<open>Skipping foreign keys, stopping at a bound\<close>

text \<open>The body of such a loop over eight-byte keys.\<close>

definition bounded_row ::
  "(bytes \<Rightarrow> bool) \<Rightarrow> ('acc \<Rightarrow> bytes \<times> bytes \<Rightarrow> ('s, 'e, 'acc) operation) \<Rightarrow>
    'acc \<Rightarrow> bytes \<times> bytes \<Rightarrow> ('s, 'e, 'acc flow) operation" where
  "bounded_row beyond body acc row =
     (case row of (key, value) \<Rightarrow>
        if length key \<noteq> 8 then returnM (Continue acc)
        else if beyond key then returnM (Break acc)
        else tryM (body acc (key, value)) (\<lambda>acc'. returnM (Continue acc')))"

lemma bounded_loop:
  "loopM (bounded_row beyond body) acc rows =
     foldM body acc (filter (\<lambda>(k, _). length k = 8) (takeWhile (\<lambda>(k, _). \<not> (length k = 8 \<and> beyond k)) rows))"
  by (induction rows arbitrary: acc)
     (auto simp: bounded_row_def tryM_assoc intro!: ext split: prod.splits)

lemma bounded_rows:
  assumes sorted: "sorted_wrt bytes_less (map fst rows)"
    and mono: "\<And>k k'. length k = 8 \<Longrightarrow> length k' = 8 \<Longrightarrow> bytes_less k k' \<Longrightarrow> beyond k \<Longrightarrow> beyond k'"
  shows "filter (\<lambda>(k, _). length k = 8) (takeWhile (\<lambda>(k, _). \<not> (length k = 8 \<and> beyond k)) rows) =
     filter (\<lambda>(k, _). length k = 8 \<and> \<not> beyond k) rows"
  using sorted
proof (induction rows)
  case (Cons row rows)
  obtain k v where row: "row = (k, v)" by force
  show ?case
  proof (cases "length k = 8 \<and> beyond k")
    case True
    then have "beyond k'" if "(k', v') \<in> set rows" "length k' = 8" for k' v'
      using that Cons.prems mono [of k k'] by (force simp: row)
    then have "filter (\<lambda>(k, _). length k = 8 \<and> \<not> beyond k) rows = []"
      by (auto simp: filter_empty_conv)
    with True show ?thesis by (simp add: row)
  next
    case False
    with Cons show ?thesis by (auto simp: row)
  qed
qed simp

lemma epoch_keys_ordered:
  assumes "length k = 8" "length k' = 8" "bytes_less k k'"
  shows "decode_epoch_key k < decode_epoch_key k'"
proof -
  have "bytes_less (epoch_key (decode_epoch_key k)) (epoch_key (decode_epoch_key k'))"
    using assms by (simp add: keys_of_decode)
  then show ?thesis by (simp add: epoch_key_def to_be_bytes_mono)
qed

section \<open>Calls that succeed\<close>

locale live_deps = deps_laws D content + live: rocksdb_live "dp_rocks D" content
  for D :: "('d, 'b, 'h, 'g) deps" and content
begin

lemma live_steps:
  "cf \<in> set ALL_COLUMN_FAMILIES \<Longrightarrow> cf_handle D cf s = (Ok (), s)"
  "db_get D cf k s = (Ok (content (db s) cf k), s)"
  by (simp_all add: cf_handle_def db_get_def live.cf_live live.get_eq)

lemma live_handles [simp]:
  "cf_handle D CF_BLOCKS s = (Ok (), s)" "cf_handle D CF_HEADERS s = (Ok (), s)"
  "cf_handle D CF_ATTESTED s = (Ok (), s)" "cf_handle D CF_CANONICAL s = (Ok (), s)"
  "cf_handle D CF_CHECKPOINTS s = (Ok (), s)" "cf_handle D CF_METADATA s = (Ok (), s)"
  by (simp_all add: cf_handle_def)

lemma live_try [simp]:
  "tryM (cf_handle D CF_BLOCKS) f s = f () s" "tryM (cf_handle D CF_HEADERS) f s = f () s"
  "tryM (cf_handle D CF_ATTESTED) f s = f () s" "tryM (cf_handle D CF_CANONICAL) f s = f () s"
  "tryM (cf_handle D CF_CHECKPOINTS) f s = f () s" "tryM (cf_handle D CF_METADATA) f s = f () s"
  "tryM (db_get D cf k) f' s = f' (content (db s) cf k) s"
  by (simp_all add: tryM_run live_steps)

lemma live_put:
  obtains d where "db_put D cf k v s = (Ok (), s\<lparr>db := d\<rparr>)"
    and "content d = (content (db s))(cf := (content (db s) cf)(k \<mapsto> v))"
  using live.put_live [of "db s" cf k v] put_sound by (fastforce simp: db_put_def)

lemma live_write:
  obtains d where "db_write D b s = (Ok (), s\<lparr>db := d\<rparr>)" and "content d = apply_batch b (content (db s))"
  using live.write_live [of "db s" b] write_sound by (fastforce simp: db_write_def)

lemma live_from:
  obtains rows where "is_listing (content d cf) rows"
    and "rk_iterator_cf (dp_rocks D) d cf (IterFrom k) = map Inr (filter (\<lambda>(k', _). \<not> bytes_less k' k) rows)"
  using iter_from [of d cf k] live.iter_live [of _ d cf "IterFrom k"] that by (fastforce simp: iterates_def)

lemma live_start:
  obtains rows where "is_listing (content d cf) rows" and "rk_iterator_cf (dp_rocks D) d cf IterStart = map Inr rows"
  using live.iter_start_eq [of d cf] that by blast

lemma live_end:
  obtains rows where "is_listing (content d cf) rows" and "rk_iterator_cf (dp_rocks D) d cf IterEnd = map Inr (rev rows)"
  using iter_end [of d cf] live.iter_live [of _ d cf IterEnd] that by (fastforce simp: iterates_def)

end

end
