(* ===== verification/Reference.thy ===== *)
theory Reference
  imports Reorg Scans
begin

text \<open>
  A reference implementation of the third-party code, which shows that the laws the development
  assumes can all hold at once: a database as a list of rows, an LRU cache as a list of entries,
  codecs with self-delimiting fields, compressed frames with a tag octet. The locales of the
  laws are interpreted on it, and an empty store over it satisfies the store invariant. The
  witnesses of the properties run the operations of the store on it.
\<close>

section \<open>Database\<close>

text \<open>The newest row of a key comes first.\<close>

type_synonym ref_db = "((string \<times> bytes) \<times> bytes) list"

definition ref_content :: "ref_db \<Rightarrow> db_content" where
  "ref_content d cf k = map_of d (cf, k)"

fun insert_row :: "bytes \<Rightarrow> bytes \<Rightarrow> (bytes \<times> bytes) list \<Rightarrow> (bytes \<times> bytes) list" where
  "insert_row k v [] = [(k, v)]"
| "insert_row k v ((a, b) # t) =
     (if bytes_less k a then (k, v) # (a, b) # t
      else if k = a then (k, v) # t
      else (a, b) # insert_row k v t)"

fun ref_rows :: "string \<Rightarrow> ref_db \<Rightarrow> (bytes \<times> bytes) list" where
  "ref_rows cf [] = []"
| "ref_rows cf (((c, k), v) # d) = (if c = cf then insert_row k v (ref_rows cf d) else ref_rows cf d)"

fun ref_apply :: "batch_op \<Rightarrow> ref_db \<Rightarrow> ref_db" where
  "ref_apply (PutCf cf k v) d = ((cf, k), v) # filter (\<lambda>r. fst r \<noteq> (cf, k)) d"
| "ref_apply (DeleteCf cf k) d = filter (\<lambda>r. fst r \<noteq> (cf, k)) d"

definition ref_write :: "write_batch \<Rightarrow> ref_db \<Rightarrow> ref_db" where
  "ref_write b d = fold ref_apply b d"

definition ref_dropped :: "ref_db \<Rightarrow> string \<Rightarrow> (bytes \<Rightarrow> bytes \<Rightarrow> bool) \<Rightarrow> string \<Rightarrow> bytes \<Rightarrow> bool" where
  "ref_dropped d cf f c k \<longleftrightarrow> c = cf \<and> (case ref_content d c k of None \<Rightarrow> False | Some v \<Rightarrow> f k v)"

definition ref_rocks :: "ref_db rocksdb" where
  "ref_rocks = \<lparr>
     rk_cf_handle = (\<lambda>d cf. cf \<in> set ALL_COLUMN_FAMILIES),
     rk_get_cf = (\<lambda>d cf k. Inr (ref_content d cf k)),
     rk_get_cf_opt = (\<lambda>d cf k _. Inr (ref_content d cf k)),
     rk_multi_get_cf = (\<lambda>d. map (\<lambda>(cf, k). Inr (ref_content d cf k))),
     rk_put_cf = (\<lambda>d cf k v. Inr (ref_write [PutCf cf k v] d)),
     rk_write = (\<lambda>d b. Inr (ref_write b d)),
     rk_iterator_cf = (\<lambda>d cf mode. map Inr (case mode of
         IterStart \<Rightarrow> ref_rows cf d
       | IterEnd \<Rightarrow> rev (ref_rows cf d)
       | IterFrom k \<Rightarrow> filter (\<lambda>(k', _). \<not> bytes_less k' k) (ref_rows cf d))),
     rk_iterator_cf_opt = (\<lambda>d cf lo hi k. map Inr (filter (\<lambda>(k', _).
         \<not> bytes_less k' k \<and> \<not> bytes_less k' lo \<and>
         (case hi of None \<Rightarrow> True | Some u \<Rightarrow> bytes_less k' u)) (ref_rows cf d))),
     rk_property_int_cf = (\<lambda>d cf p. Inr (Some (of_nat (length (ref_rows cf d))))),
     rk_flush_wal = Inr,
     rk_flush = Inr,
     rk_compact_range_cf = (\<lambda>d cf f. filter (\<lambda>((c, k), _). \<not> ref_dropped d cf f c k) d) \<rparr>"

lemma fst_insert_row: "fst ` set (insert_row k v t) = insert k (fst ` set t)"
  by (induction k v t rule: insert_row.induct) auto

lemma insert_row_sorted:
  "sorted_wrt bytes_less (map fst t) \<Longrightarrow> sorted_wrt bytes_less (map fst (insert_row k v t))"
proof (induction k v t rule: insert_row.induct)
  case (2 k v a b t)
  have tail: "\<forall>x \<in> fst ` set t. bytes_less a x" "sorted_wrt bytes_less (map fst t)" using 2(2) by auto
  consider "bytes_less k a" | "k = a" | "bytes_less a k" "\<not> bytes_less k a" "k \<noteq> a"
    using bytes_less_linear [of k a] by (cases "bytes_less k a") auto
  then show ?case
  proof cases
    case 1
    with 2(2) show ?thesis by (auto intro: bytes_less_trans)
  next
    case 2
    with tail show ?thesis by simp
  next
    case 3
    have "\<forall>x \<in> fst ` set (insert_row k v t). bytes_less a x"
      unfolding fst_insert_row using tail(1) 3(1) by blast
    with 3 tail 2(1) show ?thesis by simp
  qed
qed simp

lemma insert_row_map: "map_of (insert_row k v t) = (map_of t)(k \<mapsto> v)"
  by (induction k v t rule: insert_row.induct) (auto simp: fun_eq_iff)

lemma ref_rows_listing: "is_listing (ref_content d cf) (ref_rows cf d)"
  unfolding is_listing_def
  by (induction cf d rule: ref_rows.induct)
     (auto simp: insert_row_sorted insert_row_map ref_content_def fun_eq_iff)

lemma ref_apply_content: "ref_content (ref_apply x d) = apply_op x (ref_content d)"
proof -
  have *: "map_of (filter (\<lambda>r. fst r \<noteq> key) d) k = (if k = key then None else map_of d k)" for key k
    by (induction d) auto
  show ?thesis
    by (cases x) (auto simp: ref_content_def fun_eq_iff * [unfolded prod.inject])
qed

lemma ref_write_content [simp]: "ref_content (ref_write b d) = apply_batch b (ref_content d)"
  unfolding ref_write_def by (induction b arbitrary: d) (simp_all add: ref_apply_content)

lemma ref_content_nil [simp]: "ref_content [] cf k = None"
  by (simp add: ref_content_def)

lemma ref_compact_content:
  "ref_content (rk_compact_range_cf ref_rocks d cf f) c k =
     (if ref_dropped d cf f c k then None else ref_content d c k)"
proof -
  have "map_of (filter (\<lambda>((c, k), _). \<not> P c k) d) (c, k) = (if P c k then None else map_of d (c, k))" for P
    by (induction d) auto
  then show ?thesis by (simp add: ref_rocks_def ref_content_def)
qed

interpretation ref_db: rocksdb_live ref_rocks ref_content
proof unfold_locales
  fix d :: ref_db and cf k
  show "\<exists>xs. is_listing (ref_content d cf) xs \<and> iterates (rk_iterator_cf ref_rocks d cf IterStart) xs"
    "\<exists>xs. is_listing (ref_content d cf) xs \<and> iterates (rk_iterator_cf ref_rocks d cf IterEnd) (rev xs)"
    "\<exists>xs. is_listing (ref_content d cf) xs \<and>
       iterates (rk_iterator_cf ref_rocks d cf (IterFrom k)) (filter (\<lambda>(k', _). \<not> bytes_less k' k) xs)"
    by (rule exI [of _ "ref_rows cf d"]; simp add: ref_rows_listing ref_rocks_def iterates_def)+
  show "\<exists>xs. is_listing (ref_content d cf) xs \<and> iterates (rk_iterator_cf_opt ref_rocks d cf lo hi k)
      (filter (\<lambda>(k', _). \<not> bytes_less k' k \<and> \<not> bytes_less k' lo \<and>
         (case hi of None \<Rightarrow> True | Some u \<Rightarrow> bytes_less k' u)) xs)" for lo hi
    by (rule exI [of _ "ref_rows cf d"]) (simp add: ref_rows_listing ref_rocks_def iterates_def)
  show "ref_content (rk_compact_range_cf ref_rocks d cf f) cf k = ref_content d cf k \<or>
      ref_content (rk_compact_range_cf ref_rocks d cf f) cf k = None \<and> (\<exists>v. ref_content d cf k = Some v \<and> f k v)" for f
    by (auto simp: ref_compact_content ref_dropped_def split: option.splits)
next
  fix d d' :: ref_db and b cf k v
  show "rk_write ref_rocks d b = Inr d' \<Longrightarrow> ref_content d' = apply_batch b (ref_content d)"
    "rk_put_cf ref_rocks d cf k v = Inr d' \<Longrightarrow> ref_content d' = (ref_content d)(cf := (ref_content d cf)(k \<mapsto> v))"
    by (auto simp: ref_rocks_def)
next
  fix cf' cf :: string and d f assume "cf' \<noteq> cf"
  then show "ref_content (rk_compact_range_cf ref_rocks d cf f) cf' = ref_content d cf'"
    by (simp add: fun_eq_iff ref_compact_content ref_dropped_def)
qed (auto simp: ref_rocks_def split: prod.splits)

lemma ref_rocks_simps [simp]:
  "rk_get_cf ref_rocks d cf k = Inr (ref_content d cf k)"
  "rk_put_cf ref_rocks d cf k v = Inr (ref_write [PutCf cf k v] d)"
  "rk_write ref_rocks d b = Inr (ref_write b d)"
  "rk_get_cf_opt ref_rocks d cf k ra = Inr (ref_content d cf k)"
  "rk_multi_get_cf ref_rocks d keys = map (\<lambda>(cf, k). Inr (ref_content d cf k)) keys"
  by (simp_all add: ref_rocks_def)

section \<open>LRU caches\<close>

type_synonym 'v ref_lru = "nat \<times> (bytes32 \<times> 'v) list"

definition ref_lru :: "('v ref_lru, 'v) lru_ops" where
  "ref_lru = \<lparr>
     lru_new = (\<lambda>cap. (cap, [])),
     lru_get = (\<lambda>(cap, es) k. case map_of es k of
         None \<Rightarrow> (None, (cap, es))
       | Some v \<Rightarrow> (Some v, (cap, (k, v) # filter (\<lambda>e. fst e \<noteq> k) es))),
     lru_put = (\<lambda>(cap, es) k v. (cap, take (max 1 cap) ((k, v) # filter (\<lambda>e. fst e \<noteq> k) es))),
     lru_peek = (\<lambda>(cap, es) k. map_of es k),
     lru_pop = (\<lambda>(cap, es) k. (cap, filter (\<lambda>e. fst e \<noteq> k) es)) \<rparr>"

lemma map_of_filter_key: "map_of (filter (\<lambda>e. fst e \<noteq> k) es) k' = (if k' = k then None else map_of es k')"
  by (induction es) auto

lemma map_of_takeD: "map_of (take n es) k = Some v \<Longrightarrow> map_of es k = Some v"
  by (induction es arbitrary: n) (auto simp: take_Cons split: nat.splits if_splits)

interpretation ref_cache: lru_laws ref_lru
proof unfold_locales
  fix k k' :: bytes32 and v w and l :: "'a ref_lru"
  assume ne: "k' \<noteq> k" and p: "lru_peek ref_lru (lru_put ref_lru l k v) k' = Some w"
  obtain cap es where l: "l = (cap, es)" by force
  from p have "map_of (take (max 1 cap) ((k, v) # filter (\<lambda>e. fst e \<noteq> k) es)) k' = Some w"
    by (simp add: l ref_lru_def)
  from map_of_takeD [OF this] ne show "lru_peek ref_lru l k' = Some w"
    by (simp add: l ref_lru_def map_of_filter_key)
next
  fix k :: bytes32 and v and l :: "'a ref_lru"
  show "lru_peek ref_lru (lru_put ref_lru l k v) k = Some v"
    by (cases l; cases "max 1 (fst l)") (simp_all add: ref_lru_def)
qed (auto simp: ref_lru_def map_of_filter_key split: prod.splits option.splits)

section \<open>Codecs\<close>

fun ref_field :: "bytes \<Rightarrow> bytes" where
  "ref_field [] = [0]"
| "ref_field (b # bs) = 1 # b # ref_field bs"

fun ref_fields :: "bytes \<Rightarrow> bytes \<Rightarrow> bytes list" where
  "ref_fields acc [] = []"
| "ref_fields acc (x # xs) =
     (if x = 0 then rev acc # ref_fields [] xs
      else case xs of [] \<Rightarrow> [] | b # rest \<Rightarrow> ref_fields (b # acc) rest)"

lemma ref_fields_field: "ref_fields acc (ref_field bs @ xs) = (rev acc @ bs) # ref_fields [] xs"
  by (induction bs arbitrary: acc rule: ref_field.induct) simp_all

lemma ref_fields_last: "ref_fields [] (ref_field bs) = [bs]"
  using ref_fields_field [of "[]" bs "[]"] by simp

lemma length_ref_field: "length (ref_field bs) = 2 * length bs + 1"
  by (induction bs rule: ref_field.induct) simp_all

definition ref_header_bytes :: "L2BlockHeader \<Rightarrow> bytes" where
  "ref_header_bytes h = concat (map ref_field
     [to_le_bytes (hd_height h), to_le_bytes (hd_epoch h), bytes32_octets (hd_parent_hash h),
      to_le_bytes (hd_timestamp h), u32_to_le_bytes (hd_proposer_index h),
      u32_to_le_bytes (hd_spend_bundle_count h), to_le_bytes (hd_total_cost h),
      to_le_bytes (hd_total_fees h), u32_to_le_bytes (hd_additions_count h),
      u32_to_le_bytes (hd_removals_count h), u32_to_le_bytes (hd_l1_height h),
      bytes32_octets (hd_l1_hash h), bytes32_octets (hd_state_root h), hd_rest h])"

definition ref_de_header :: "bytes \<Rightarrow> string + L2BlockHeader" where
  "ref_de_header bs =
     (let f = ref_fields [] bs in
      if length f \<noteq> 14 then Inl ''bad header''
      else Inr \<lparr>hd_height = from_le_bytes (f ! 0), hd_epoch = from_le_bytes (f ! 1),
        hd_parent_hash = bytes32_new (f ! 2), hd_timestamp = from_le_bytes (f ! 3),
        hd_proposer_index = u32_from_le_bytes (f ! 4), hd_spend_bundle_count = u32_from_le_bytes (f ! 5),
        hd_total_cost = from_le_bytes (f ! 6), hd_total_fees = from_le_bytes (f ! 7),
        hd_additions_count = u32_from_le_bytes (f ! 8), hd_removals_count = u32_from_le_bytes (f ! 9),
        hd_l1_height = u32_from_le_bytes (f ! 10), hd_l1_hash = bytes32_new (f ! 11),
        hd_state_root = bytes32_new (f ! 12), hd_rest = f ! 13\<rparr>)"

definition ref_block_bytes :: "L2Block \<Rightarrow> bytes" where
  "ref_block_bytes b = ref_field (ref_header_bytes (blk_header b)) @ ref_field (blk_rest b)"

definition ref_de_block :: "bytes \<Rightarrow> string + L2Block" where
  "ref_de_block bs = (case ref_fields [] bs of
     [h, r] \<Rightarrow> (case ref_de_header h of Inl e \<Rightarrow> Inl e | Inr hdr \<Rightarrow> Inr \<lparr>blk_header = hdr, blk_rest = r\<rparr>)
   | _ \<Rightarrow> Inl ''bad block'')"

lemma ref_header_roundtrip: "ref_de_header (ref_header_bytes h) = Inr h"
  by (simp add: ref_header_bytes_def ref_de_header_def ref_fields_field ref_fields_last)

lemma ref_block_roundtrip: "ref_de_block (ref_block_bytes b) = Inr b"
  by (simp add: ref_block_bytes_def ref_de_block_def ref_fields_field ref_fields_last ref_header_roundtrip)

text \<open>Attested blocks, checkpoints and manifests, in the same style.\<close>

definition ref_option :: "bytes option \<Rightarrow> bytes" where
  "ref_option x = (case x of None \<Rightarrow> [] | Some bs \<Rightarrow> 1 # bs)"

definition ref_de_option :: "bytes \<Rightarrow> bytes option" where
  "ref_de_option bs = (case bs of [] \<Rightarrow> None | _ # t \<Rightarrow> Some t)"

lemma ref_option_roundtrip [simp]: "ref_de_option (ref_option x) = x"
  by (cases x) (simp_all add: ref_option_def ref_de_option_def)

definition ref_attested_bytes :: "AttestedBlock \<Rightarrow> bytes" where
  "ref_attested_bytes a = ref_field (ref_block_bytes (ab_block a)) @ ref_field (ab_rest a)"

definition ref_de_attested :: "bytes \<Rightarrow> string + AttestedBlock" where
  "ref_de_attested bs = (case ref_fields [] bs of
     [b, r] \<Rightarrow> (case ref_de_block b of Inl e \<Rightarrow> Inl e | Inr blk \<Rightarrow> Inr \<lparr>ab_block = blk, ab_rest = r\<rparr>)
   | _ \<Rightarrow> Inl ''bad attested block'')"

lemma ref_attested_roundtrip: "ref_de_attested (ref_attested_bytes a) = Inr a"
  by (simp add: ref_attested_bytes_def ref_de_attested_def ref_fields_field ref_fields_last ref_block_roundtrip)

definition ref_checkpoint_bytes :: "StoredCheckpoint \<Rightarrow> bytes" where
  "ref_checkpoint_bytes c = concat (map ref_field
     [to_le_bytes (ck_epoch (sc_checkpoint c)), ck_rest (sc_checkpoint c), sc_signer_bitmap c,
      sc_aggregate_signature c, sc_aggregate_pubkey c, to_le_bytes (sc_score c), u32_to_le_bytes (sc_submitter c),
      ref_option (map_option u32_to_le_bytes (sc_l1_height c)),
      ref_option (map_option bytes32_octets (sc_l1_coin_id c)), to_le_bytes (sc_stored_at c)])"

definition ref_de_checkpoint :: "bytes \<Rightarrow> string + StoredCheckpoint" where
  "ref_de_checkpoint bs =
     (let f = ref_fields [] bs in
      if length f \<noteq> 10 then Inl ''bad checkpoint''
      else Inr \<lparr>sc_checkpoint = \<lparr>ck_epoch = from_le_bytes (f ! 0), ck_rest = f ! 1\<rparr>,
        sc_signer_bitmap = f ! 2, sc_aggregate_signature = f ! 3, sc_aggregate_pubkey = f ! 4,
        sc_score = from_le_bytes (f ! 5), sc_submitter = u32_from_le_bytes (f ! 6),
        sc_l1_height = map_option u32_from_le_bytes (ref_de_option (f ! 7)),
        sc_l1_coin_id = map_option bytes32_new (ref_de_option (f ! 8)),
        sc_stored_at = from_le_bytes (f ! 9)\<rparr>)"

lemma ref_checkpoint_roundtrip: "ref_de_checkpoint (ref_checkpoint_bytes c) = Inr c"
  by (simp add: ref_checkpoint_bytes_def ref_de_checkpoint_def ref_fields_field ref_fields_last
      option.map_comp comp_def option.map_ident)

definition ref_manifest_bytes :: "SnapshotManifest \<Rightarrow> bytes" where
  "ref_manifest_bytes m = u32_to_le_bytes (sm_version m) @ to_le_bytes (sm_start_height m) @
     to_le_bytes (sm_end_height m) @ to_le_bytes (sm_block_count m) @ bytes32_octets (sm_state_root m) @
     bytes32_octets (sm_checksum m)"

definition ref_de_manifest :: "bytes \<Rightarrow> string + SnapshotManifest \<times> bytes" where
  "ref_de_manifest bs =
     (if length bs < 92 then Inl ''unexpected end of file''
      else Inr (\<lparr>sm_version = u32_from_le_bytes (take 4 bs), sm_start_height = from_le_bytes (take 8 (drop 4 bs)),
        sm_end_height = from_le_bytes (take 8 (drop 12 bs)), sm_block_count = from_le_bytes (take 8 (drop 20 bs)),
        sm_state_root = bytes32_new (take 32 (drop 28 bs)), sm_checksum = bytes32_new (take 32 (drop 60 bs))\<rparr>,
        drop 92 bs))"

lemma ref_manifest_roundtrip: "ref_de_manifest (ref_manifest_bytes m @ rest) = Inr (m, rest)"
  by (simp add: ref_manifest_bytes_def ref_de_manifest_def)

section \<open>The reference dependencies\<close>

definition ref_deps :: "(ref_db, L2Block ref_lru, L2BlockHeader ref_lru, u64 ref_lru) deps" where
  "ref_deps = \<lparr>
     dp_rocks = ref_rocks, dp_block_lru = ref_lru, dp_header_lru = ref_lru, dp_height_lru = ref_lru,
     dp_io = \<lparr>io_err = (\<lambda>_. None), io_partial = 0\<rparr>, dp_oc = True,
     dp_header_hash = hd_state_root, dp_block_hash = hd_state_root \<circ> blk_header,
     dp_block_height = hd_height \<circ> blk_header,
     dp_is_canonical = (\<lambda>st. st \<noteq> Orphaned \<and> st \<noteq> Rejected),
     dp_show_hash = (\<lambda>_. ''hash''),
     dp_ser_block = (\<lambda>b. Inr (ref_block_bytes b)), dp_de_block = ref_de_block,
     dp_ser_header = (\<lambda>h. Inr (ref_header_bytes h)), dp_de_header = ref_de_header,
     dp_encode_all = (\<lambda>raw _. Inr (0 # raw)),
     dp_decode_all = (\<lambda>c. case c of x # raw \<Rightarrow> if x = 0 then Inr raw else Inl ''dictionary needed'' | [] \<Rightarrow> Inl ''empty''),
     dp_compressor = (\<lambda>_ _. Inr ()),
     dp_compress = (\<lambda>_ dict raw. Inr (1 # sum_list dict # raw)),
     dp_decompressor = (\<lambda>_. Inr ()),
     dp_decompress = (\<lambda>dict c cap. case c of
         x # y # raw \<Rightarrow>
           if x = 1 \<and> y = sum_list dict \<and> length raw \<le> unat cap then Inr raw
           else if x = 0 \<and> Suc (length raw) \<le> unat cap then Inr (y # raw) else Inl ''corrupt''
       | _ \<Rightarrow> Inl ''corrupt''),
     dp_shuffle = id,
     dp_from_samples = (\<lambda>samples _. Inr [7]),
     dp_block_size = 8, dp_record_size = 8,
     dp_first_height_in_epoch = (\<lambda>e. e * 2), dp_epoch_checkpoint_height = (\<lambda>e. e * 2 + 1),
     dp_show_join = (\<lambda>e. e),
     dp_ser_attested = (\<lambda>a. Inr (ref_attested_bytes a)), dp_de_attested = ref_de_attested,
     dp_ser_checkpoint = (\<lambda>c. Inr (ref_checkpoint_bytes c)), dp_de_checkpoint = ref_de_checkpoint,
     dp_ser_manifest = (\<lambda>m. Inr (ref_manifest_bytes m)), dp_de_manifest = ref_de_manifest,
     dp_sha256 = (\<lambda>bs. word_of_int (int (length bs))),
     dp_stream_block = (\<lambda>b. Inr (ref_block_bytes b)), dp_parse_block = ref_de_block \<rparr>"

interpretation ref: deps_laws ref_deps ref_content
  unfolding deps_laws_def
proof (intro conjI)
  show "codec_laws ref_deps"
    by unfold_locales
       (auto simp: ref_deps_def ref_block_roundtrip ref_header_roundtrip ref_attested_roundtrip
          ref_checkpoint_roundtrip ref_manifest_roundtrip split: list.splits if_splits)
qed (simp_all add: ref_deps_def ref_db.rocksdb_laws_axioms ref_cache.lru_laws_axioms)

interpretation ref_live: live_deps ref_deps ref_content
  unfolding live_deps_def
  using ref.deps_laws_axioms ref_db.rocksdb_live_axioms by (simp add: ref_deps_def)

section \<open>A store over the reference dependencies\<close>

type_synonym ref_store = "(ref_db, L2Block ref_lru, L2BlockHeader ref_lru, u64 ref_lru) store"

text \<open>One shard of two entries.\<close>

definition ref_cache :: "(bytes32 \<times> 'v) list \<Rightarrow> 'v ref_lru ShardedLruCache" where
  "ref_cache es = \<lparr>shards = [(2, es)], num_shards = 1\<rparr>"

lemma ref_cache_new: "ref_cache [] = sharded_new ref_lru 2 1"
  by (simp add: ref_cache_def sharded_new_def ref_lru_def)

lemma ref_cache_ops [simp]:
  "get_clone ref_lru (ref_cache es) k = (case map_of es k of None \<Rightarrow> (None, ref_cache es)
     | Some v \<Rightarrow> (Some v, ref_cache ((k, v) # filter (\<lambda>e. fst e \<noteq> k) es)))"
  "cache_insert ref_lru (ref_cache es) k v = ref_cache (take 2 ((k, v) # filter (\<lambda>e. fst e \<noteq> k) es))"
  "cache_remove ref_lru (ref_cache es) k = ref_cache (filter (\<lambda>e. fst e \<noteq> k) es)"
  "cache_peek ref_lru (ref_cache es) k = map_of es k"
  by (simp_all add: get_clone_def cache_insert_def cache_remove_def cache_peek_def shard_index_mod ref_cache_def
      ref_lru_def split: option.splits)

definition ref_empty :: ref_store where
  "ref_empty = \<lparr>
     db = [], compaction_filters = True, read_only = False, tip = None, warm_blocks_loaded = 0,
     compression_level = 3, use_compression_dict = False, max_decompressed_block_bytes = 1024,
     zstd_dict = None, record_cache = Map.empty, block_cache = ref_cache [],
     cf_blocks_physical_gets = 0, cf_blocks_multi_get_batches = 0, cf_blocks_stream_physical_gets = 0,
     readahead_size = 0, header_cache = ref_cache [], cf_headers_physical_gets = 0,
     pipeline_batch_size = 2, pipeline_flush_ms = 10, pipeline_channel_capacity = 4,
     pipeline_write_batches = 0, canonical_bin = Disabled,
     min_retained_height_cached = 0, canonical_height_cache = [], canonical_height_cache_capacity = 8,
     hash_to_height_cache = ref_cache [] \<rparr>"

definition ref_block :: "bytes32 \<Rightarrow> u64 \<Rightarrow> bytes32 \<Rightarrow> L2Block" where
  "ref_block hash height parent =
     \<lparr>blk_header = \<lparr>hd_height = height, hd_epoch = 0, hd_parent_hash = parent, hd_timestamp = 0,
        hd_proposer_index = 0, hd_spend_bundle_count = 0, hd_total_cost = 0, hd_total_fees = 0,
        hd_additions_count = 0, hd_removals_count = 0, hd_l1_height = 0, hd_l1_hash = 0,
        hd_state_root = hash, hd_rest = []\<rparr>,
      blk_rest = [1]\<rparr>"

lemma ref_deps_simps [simp]:
  "dp_block_hash ref_deps b = hd_state_root (blk_header b)" "dp_block_height ref_deps b = hd_height (blk_header b)"
  "dp_header_hash ref_deps h = hd_state_root h" "dp_rocks ref_deps = ref_rocks"
  "dp_block_lru ref_deps = ref_lru" "dp_header_lru ref_deps = ref_lru" "dp_height_lru ref_deps = ref_lru"
  "io_err (dp_io ref_deps) call = None" "dp_oc ref_deps" "dp_encode_all ref_deps raw lvl = Inr (0 # raw)"
  "dp_block_size ref_deps = 8" "dp_record_size ref_deps = 8" "dp_shuffle ref_deps = id"
  "dp_first_height_in_epoch ref_deps e = e * 2" "dp_epoch_checkpoint_height ref_deps e = e * 2 + 1"
  "dp_compressor ref_deps lvl dict = Inr ()" "dp_decompressor ref_deps dict = Inr ()"
  "dp_decode_all ref_deps (0 # raw) = Inr raw" "dp_de_header ref_deps (ref_header_bytes h) = Inr h"
  "dp_de_block ref_deps (ref_block_bytes b) = Inr b"
  "dp_ser_header ref_deps h = Inr (ref_header_bytes h)" "dp_ser_block ref_deps b = Inr (ref_block_bytes b)"
  "dp_ser_attested ref_deps a = Inr (ref_attested_bytes a)" "dp_de_attested ref_deps (ref_attested_bytes a) = Inr a"
  "dp_ser_checkpoint ref_deps c = Inr (ref_checkpoint_bytes c)"
  "dp_de_checkpoint ref_deps (ref_checkpoint_bytes c) = Inr c"
  "dp_ser_manifest ref_deps m = Inr (ref_manifest_bytes m)"
  "dp_de_manifest ref_deps (ref_manifest_bytes m @ rest) = Inr (m, rest)"
  "dp_sha256 ref_deps bs = word_of_int (int (length bs))"
  by (simp_all add: ref_deps_def ref_header_roundtrip ref_block_roundtrip ref_attested_roundtrip
      ref_checkpoint_roundtrip ref_manifest_roundtrip)

lemma record_of_header_fields [simp]:
  "br_hash (record_of_header D hdr) = dp_header_hash D hdr" "br_height (record_of_header D hdr) = hd_height hdr"
  "br_parent_hash (record_of_header D hdr) = hd_parent_hash hdr"
  by (simp_all add: record_of_header_def)

lemma ref_block_simps [simp]:
  "hd_state_root (blk_header (ref_block h n p)) = h" "hd_height (blk_header (ref_block h n p)) = n"
  "hd_parent_hash (blk_header (ref_block h n p)) = p"
  by (simp_all add: ref_block_def)

lemma ref_block_size [simp]: "length (ref_block_bytes (ref_block h n p)) = 656"
  by (simp add: ref_block_bytes_def ref_header_bytes_def length_ref_field ref_block_def)

lemma ref_empty_inv: "store_inv ref_deps ref_content ref_empty"
proof -
  have "bin_ok Disabled" "bin_slot Disabled n = None" for n
    by (simp_all add: bin_ok_def bin_slot_def dense_wf_def slot_of_def)
  then show ?thesis
    by (simp add: store_inv_def data_inv_def rows_ok_def blocks_cached_def headers_cached_def records_cached_def
        index_ok_def meta_ok_def ref_empty_def ref_content_def ref_cache_new cache_wf_new ref_cache.peek_new
        btree.get_empty btree.invar_empty)
qed

text \<open>
  A chain of three blocks, hashes 5, 6, 7 at heights 0, 1, 2, and a stored fork block 8 at
  height 1 on top of block 5.
\<close>

definition ref_rows_of :: "L2Block \<Rightarrow> write_batch" where
  "ref_rows_of b = block_rows ref_deps b (0 # ref_block_bytes b) (ref_header_bytes (blk_header b))"

definition ref_tip_row :: "ChainTip \<Rightarrow> batch_op" where
  "ref_tip_row t = PutCf CF_METADATA (as_bytes META_TIP) (tip_to_bytes t)"

definition ref_record :: "L2Block \<Rightarrow> BlockRecord" where
  "ref_record b = record_of_header ref_deps (blk_header b)"

definition ref_genesis :: ref_store where
  "ref_genesis = ref_empty\<lparr>
     db := ref_write (ref_rows_of (ref_block 5 0 0) @
       [PutCf CF_CANONICAL (height_key 0) (hash_key 5), ref_tip_row \<lparr>tip_hash = 5, tip_height = 0\<rparr>,
        PutCf CF_METADATA (as_bytes META_GENESIS_HASH) (bytes32_octets 5)]) [],
     tip := Some \<lparr>tip_hash = 5, tip_height = 0\<rparr>,
     record_cache := [5 \<mapsto> ref_record (ref_block 5 0 0)],
     block_cache := ref_cache [(5, ref_block 5 0 0)],
     header_cache := ref_cache [(5, blk_header (ref_block 5 0 0))]\<rparr>"

definition ref_two :: ref_store where
  "ref_two = ref_genesis\<lparr>
     db := ref_write [ref_tip_row \<lparr>tip_hash = 6, tip_height = 1\<rparr>]
       (ref_write (ref_rows_of (ref_block 6 1 5) @ [PutCf CF_CANONICAL (height_key 1) (hash_key 6)]) (db ref_genesis)),
     tip := Some \<lparr>tip_hash = 6, tip_height = 1\<rparr>,
     record_cache := [5 \<mapsto> ref_record (ref_block 5 0 0), 6 \<mapsto> ref_record (ref_block 6 1 5)],
     block_cache := ref_cache [(6, ref_block 6 1 5), (5, ref_block 5 0 0)],
     header_cache := ref_cache [(6, blk_header (ref_block 6 1 5)), (5, blk_header (ref_block 5 0 0))],
     canonical_height_cache := [(1, 6)], hash_to_height_cache := ref_cache [(6, 1)]\<rparr>"

definition ref_three :: ref_store where
  "ref_three = ref_two\<lparr>
     db := ref_write [ref_tip_row \<lparr>tip_hash = 7, tip_height = 2\<rparr>]
       (ref_write (ref_rows_of (ref_block 7 2 6) @ [PutCf CF_CANONICAL (height_key 2) (hash_key 7)]) (db ref_two)),
     tip := Some \<lparr>tip_hash = 7, tip_height = 2\<rparr>,
     record_cache := [5 \<mapsto> ref_record (ref_block 5 0 0), 6 \<mapsto> ref_record (ref_block 6 1 5),
       7 \<mapsto> ref_record (ref_block 7 2 6)],
     block_cache := ref_cache [(7, ref_block 7 2 6), (6, ref_block 6 1 5)],
     header_cache := ref_cache [(7, blk_header (ref_block 7 2 6)), (6, blk_header (ref_block 6 1 5))],
     canonical_height_cache := [(1, 6), (2, 7)], hash_to_height_cache := ref_cache [(7, 2), (6, 1)]\<rparr>"

definition ref_chain :: ref_store where
  "ref_chain = ref_three\<lparr>
     db := ref_write (ref_rows_of (ref_block 8 1 5)) (db ref_three),
     record_cache := [5 \<mapsto> ref_record (ref_block 5 0 0), 6 \<mapsto> ref_record (ref_block 6 1 5),
       7 \<mapsto> ref_record (ref_block 7 2 6), 8 \<mapsto> ref_record (ref_block 8 1 5)],
     block_cache := ref_cache [(8, ref_block 8 1 5), (7, ref_block 7 2 6)],
     header_cache := ref_cache [(8, blk_header (ref_block 8 1 5)), (7, blk_header (ref_block 7 2 6))],
     hash_to_height_cache := ref_cache [(8, 1), (7, 2)]\<rparr>"

lemmas ref_run = run_simps Let_def serialize_block_def serialize_header_def extend_write_def
  truncate_to_height_def in_rw_Ok cache_step_defs maybe_train_dictionary_def deserialize_block_Ok
  decompress_block_payload_def

lemmas ref_states = ref_chain_def ref_three_def ref_two_def ref_genesis_def ref_empty_def

lemmas ref_folds = ref_rows_of_def ref_tip_row_def ref_record_def

lemma tryM_eval:
  "tryM m f s = (case m s of (Ok x, s') \<Rightarrow> f x s' | (Err e, s') \<Rightarrow> (Err e, s') | (Panic p, s') \<Rightarrow> (Panic p, s'))"
  by (simp add: tryM_def)

lemmas ref_eval = tryM_eval Let_def serialize_block_def serialize_header_def extend_write_def truncate_to_height_def
  cf_handle_def db_get_def db_put_def db_write_def require_writable_def with_bin_def in_rw_def write_hash_def
  resize_remap_def io_try_def checked_len_def checked_add_def checked_mul_def mmap_active_def
  cache_step_defs block_cache_get_def header_cache_get_def insert_canonical_height_cache_def maybe_train_dictionary_def
  deserialize_block_def decompress_block_payload_def deserialize_header_def

lemma evict_lowest_small [simp]: "length t \<le> cap \<Longrightarrow> evict_lowest cap t = t"
  by (cases t) (auto simp: evict_lowest.simps)

lemma ref_genesis_run: "init_genesis ref_deps (ref_block 5 0 0) ref_empty = (Ok (), ref_genesis)"
  by (auto simp: ref_run init_genesis_def ref_states ref_folds)

lemmas ref_extend_defs = extend_chain_def put_def put_block_def set_tip_def has_block_def block_rows_def

lemma ref_two_run: "extend_chain ref_deps (ref_block 6 1 5) ref_genesis = (Ok True, ref_two)"
  by (auto simp: cache_contains_peek ref_run ref_extend_defs ref_states ref_folds)

lemma ref_three_run: "extend_chain ref_deps (ref_block 7 2 6) ref_two = (Ok True, ref_three)"
  by (auto simp: cache_contains_peek ref_run ref_extend_defs ref_states ref_folds)

lemma ref_chain_run: "put ref_deps (ref_block 8 1 5) False ref_three = (Ok True, ref_chain)"
  by (auto simp: ref_run ref_extend_defs ref_states ref_folds)

lemma ref_genesis_inv: "store_inv ref_deps ref_content ref_genesis"
  by (rule ref.init_genesis_Ok(1) [OF ref_empty_inv ref_genesis_run])
     (simp_all add: ref_empty_def btree.get_empty)

lemma ref_two_inv: "store_inv ref_deps ref_content ref_two"
  by (rule ref.extend_chain_Ok(1) [OF ref_genesis_inv ref_two_run])

lemma ref_three_inv: "store_inv ref_deps ref_content ref_three"
  by (rule ref.extend_chain_Ok(1) [OF ref_two_inv ref_three_run])

lemma ref_chain_inv: "store_inv ref_deps ref_content ref_chain"
  using ref.put_block_Ok [OF ref_three_inv ref_chain_run [unfolded put_def]] by simp

text \<open>Scans of the reference database.\<close>

lemma hash_order [simp]: "bytes_less (hash_key a) (hash_key b) \<longleftrightarrow> a < b"
proof -
  have "unat x < 256 ^ 32" for x :: bytes32 using unat_bound [of x] by simp
  then show ?thesis by (simp only: hash_key_def bytes32_octets_def be_octets_mono word_less_nat_alt)
qed

lemma ref_iter [simp]:
  "rk_iterator_cf ref_rocks d cf IterStart = map Inr (ref_rows cf d)"
  "rk_iterator_cf ref_rocks d cf IterEnd = map Inr (rev (ref_rows cf d))"
  by (simp_all add: ref_rocks_def)

lemmas ref_maintain = ref_write_def ref_content_def min_retained_height_def range_excl_def upt_rec bt_get_def
  get_hash_by_height_def read_hash_bytes_def db_iter_def next_item_def

end
