(* ===== verification/Atomicity.thy ===== *)
theory Atomicity
  imports Reorg
begin

text \<open>
  What an operation leaves in the database whatever it returns. Each of \<open>put_block\<close>,
  \<open>init_genesis\<close>, \<open>set_canonical_batch\<close> and \<open>apply_reorg\<close> commits through one write batch, so an
  error or a panic at any point leaves either none or all of the rows of that batch.
\<close>

section \<open>A calculus for all outcomes\<close>

text \<open>\<open>ends P m Q\<close>: from a state in \<open>P\<close>, \<open>m\<close> leaves a state in \<open>Q\<close> whatever it returns.\<close>

definition ends :: "('s \<Rightarrow> bool) \<Rightarrow> ('s, 'e, 'a) operation \<Rightarrow> ('s \<Rightarrow> bool) \<Rightarrow> bool" where
  "ends P m Q \<longleftrightarrow> (\<forall>s. P s \<longrightarrow> Q (snd (m s)))"

named_theorems ends_rules \<open>final states whatever an operation returns\<close>

lemma endsD: "ends P m Q \<Longrightarrow> P s \<Longrightarrow> m s = (r, s') \<Longrightarrow> Q s'"
  by (metis ends_def snd_conv)

lemma ends_preserves: "preserves P m \<Longrightarrow> (\<And>s. P s \<Longrightarrow> Q s) \<Longrightarrow> ends P m Q"
  by (auto simp: ends_def preserves_def)

lemma ends_bind:
  assumes "preserves P m" and "\<And>x. ends P (f x) Q" and "\<And>s. P s \<Longrightarrow> Q s"
  shows "ends P (tryM m f) Q"
  unfolding ends_def
proof (intro allI impI)
  fix s assume P: "P s"
  obtain r t where m: "m s = (r, t)" by force
  from preservesD [OF assms(1) P m] assms(2,3) m show "Q (snd (tryM m f s))"
    by (cases r) (auto simp: tryM_def ends_def)
qed

lemma ends_basic [ends_rules]:
  "(\<And>s. P s \<Longrightarrow> Q s) \<Longrightarrow> ends P (returnM x) Q" "(\<And>s. P s \<Longrightarrow> Q s) \<Longrightarrow> ends P (failM e) Q"
  by (auto simp: ends_def)

lemma ends_split [ends_rules]:
  "(b \<Longrightarrow> ends P m Q) \<Longrightarrow> (\<not> b \<Longrightarrow> ends P m' Q) \<Longrightarrow> ends P (if b then m else m') Q"
  by auto

text \<open>A step that does not touch the database.\<close>

lemma ends_unchanged_db [ends_rules]:
  assumes "unchanged db m" and "\<And>x. ends (\<lambda>t. db t = d) (f x) Q" and "\<And>t. db t = d \<Longrightarrow> Q t"
  shows "ends (\<lambda>t. db t = d) (tryM m f) Q"
  by (rule ends_bind) (use assms in \<open>auto simp: preserves_def unchanged_def\<close>)

lemma ends_final:
  "unchanged db m \<Longrightarrow> (\<And>t. db t = d \<Longrightarrow> Q t) \<Longrightarrow> ends (\<lambda>t. db t = d) m Q"
  by (auto simp: ends_def unchanged_def)

text \<open>The commit.\<close>

lemma ends_write:
  assumes "\<And>d'. rk_write (dp_rocks D) d b = Inr d' \<Longrightarrow> ends (\<lambda>t. db t = d') (f ()) Q"
    and "\<And>t. db t = d \<Longrightarrow> Q t"
  shows "ends (\<lambda>t. db t = d) (tryM (db_write D b) f) Q"
  using assms by (auto simp: ends_def tryM_def db_write_def split: sum.splits)

section \<open>Frames: the steps that leave the database alone\<close>

lemma unchanged_get_record_db [frame_rules]: "unchanged db (get_record D h)"
  unfolding get_record_def by (intro frame_rules) simp_all

lemma unchanged_get_hash_db [frame_rules]: "unchanged db (get_hash_by_height D n)"
  unfolding get_hash_by_height_def by (intro frame_rules) simp_all

lemma unchanged_validate_db [frame_rules]: "unchanged db (validate_hashes D hashes)"
  unfolding validate_hashes_def by (intro frame_rules)

lemma unchanged_collect_db [frame_rules]: "unchanged db (collect_heights (get_hash_by_height D) ns)"
  unfolding collect_heights_def by (intro frame_rules)

lemma unchanged_flag_records [frame_rules]:
  "(\<And>s x. g (s\<lparr>record_cache := x\<rparr>) = g s) \<Longrightarrow> unchanged g (flag_records c hashes)"
  unfolding flag_records_def by (intro frame_rules) simp

section \<open>One batch per operation\<close>

definition put_rows :: "('d, 'b, 'h, 'g) deps \<Rightarrow> L2Block \<Rightarrow> bool \<Rightarrow> bytes \<Rightarrow> bytes \<Rightarrow> write_batch" where
  "put_rows D b canonical c c' = block_rows D b c c' @
     (if canonical then [PutCf CF_CANONICAL (height_key (dp_block_height D b)) (hash_key (dp_block_hash D b))]
      else [])"

definition genesis_rows :: "('d, 'b, 'h, 'g) deps \<Rightarrow> L2Block \<Rightarrow> bytes \<Rightarrow> bytes \<Rightarrow> write_batch" where
  "genesis_rows D b c c' = block_rows D b c c' @
     [PutCf CF_CANONICAL (height_key 0) (hash_key (dp_block_hash D b)),
      PutCf CF_METADATA (as_bytes META_TIP) (tip_to_bytes \<lparr>tip_hash = dp_block_hash D b, tip_height = 0\<rparr>),
      PutCf CF_METADATA (as_bytes META_GENESIS_HASH) (bytes32_octets (dp_block_hash D b))]"

context deps_laws
begin

lemma ends_train:
  assumes "\<And>t. same_rows (content d) (content (db t)) \<Longrightarrow> Q t"
  shows "ends (\<lambda>t. db t = d) (maybe_train_dictionary D) Q"
    and "ends (\<lambda>t. db t = d) (tryM (maybe_train_dictionary D) (\<lambda>_. returnM x)) Q"
proof -
  have "Q s'" if "maybe_train_dictionary D s = (r, s')" "db s = d" for r s s'
    using maybe_train_effect(1) [OF refl that(1)] that(2) assms by simp
  then show "ends (\<lambda>t. db t = d) (maybe_train_dictionary D) Q"
    "ends (\<lambda>t. db t = d) (tryM (maybe_train_dictionary D) (\<lambda>_. returnM x)) Q"
    by (auto simp: ends_def tryM_def split: prod.splits outcome.splits) (metis prod.collapse)
qed

lemma put_block_ends:
  "ends (\<lambda>t. db t = d) (put_block D b canonical)
     (\<lambda>t. same_rows (content d) (content (db t)) \<or>
        (\<exists>c c'. same_rows (apply_batch (put_rows D b canonical c c') (content d)) (content (db t))))"
  unfolding put_block_def Let_def put_rows_def [symmetric]
  by (intro ends_write ends_train ends_rules frame_rules)
     (auto dest!: write_sound simp: unchanged_def, (metis same_rows_refl)+)

lemma init_genesis_ends:
  "ends (\<lambda>t. db t = d) (init_genesis D b)
     (\<lambda>t. same_rows (content d) (content (db t)) \<or>
        (\<exists>c c'. same_rows (apply_batch (genesis_rows D b c c') (content d)) (content (db t))))"
  unfolding init_genesis_def Let_def genesis_rows_def [symmetric]
  by (intro ends_write ends_train ends_rules frame_rules) (auto dest!: write_sound simp: unchanged_def, (metis same_rows_refl)+)

lemma set_canonical_batch_ends:
  "ends (\<lambda>t. db t = d) (set_canonical_batch D hashes)
     (\<lambda>t. content (db t) = content d \<or> (\<exists>vs. content (db t) = apply_batch (canonical_puts vs) (content d)))"
  unfolding set_canonical_batch_def canonical_puts_def
  by (intro ends_write ends_rules frame_rules ends_final) (auto dest: write_sound)

lemma apply_reorg_ends:
  "ends (\<lambda>t. db t = d) (apply_reorg D ancestor hashes)
     (\<lambda>t. content (db t) = content d \<or>
        (\<exists>heights vs t'. content (db t) = apply_batch (reorg_rows heights vs t') (content d)))"
  unfolding apply_reorg_def Let_def canonical_puts_def [symmetric] reorg_rows_def [symmetric]
  by (intro ends_write ends_rules frame_rules) (auto dest!: write_sound)

end
end
