(* ===== verification/Totality.thy ===== *)
theory Totality
  imports Reads Scans
begin

text \<open>
  Reads that return. Over a database whose calls succeed, and when the frames in it can be decoded
  within the limit of the store, a read of a store in its invariant does not only return the right
  value if it returns: it returns. The one exception is the height at which \<open>canonical.bin\<close> panics.

  \<open>succeeds P m\<close>: from every state in \<open>P\<close> the run of \<open>m\<close> ends with \<open>Ok\<close>. The states after a step
  come from the facts about what reads yield.
\<close>

section \<open>Runs that succeed\<close>

definition succeeds :: "('s \<Rightarrow> bool) \<Rightarrow> ('s, 'e, 'a) operation \<Rightarrow> bool" where
  "succeeds P m \<longleftrightarrow> (\<forall>s. P s \<longrightarrow> (\<exists>x s'. m s = (Ok x, s')))"

lemma succeedsD: "succeeds P m \<Longrightarrow> P s \<Longrightarrow> \<exists>x s'. m s = (Ok x, s')"
  by (simp add: succeeds_def)

lemma succeeds_bind:
  assumes "yields P m R" and "succeeds P m" and "\<And>x. R x \<Longrightarrow> succeeds P (f x)"
  shows "succeeds P (tryM m f)"
  unfolding succeeds_def
proof (intro allI impI)
  fix s assume P: "P s"
  from succeedsD [OF assms(2) P] obtain x s' where m: "m s = (Ok x, s')" by blast
  from yields_OkD [OF assms(1) P m] have "P s'" "R x" by auto
  with succeedsD [OF assms(3)] obtain y s'' where "f x s' = (Ok y, s'')" by blast
  with m show "\<exists>x s'. tryM m f s = (Ok x, s')" by (simp add: tryM_run(1))
qed

lemma succeeds_basic:
  "succeeds P (returnM x)" "succeeds P (getM g)" "succeeds P (modifyM h)" "r = Ok x \<Longrightarrow> succeeds P (liftM r)"
  by (simp_all add: succeeds_def)

lemma succeeds_liftM: "r = Ok x \<Longrightarrow> succeeds P (f x) \<Longrightarrow> succeeds P (tryM (liftM r) f)"
  by (simp add: succeeds_def)

lemma succeeds_option:
  "(x = None \<Longrightarrow> succeeds P m) \<Longrightarrow> (\<And>a. x = Some a \<Longrightarrow> succeeds P (f a)) \<Longrightarrow>
    succeeds P (case x of None \<Rightarrow> m | Some a \<Rightarrow> f a)"
  by (cases x) auto

lemma succeeds_if:
  "(b \<Longrightarrow> succeeds P m) \<Longrightarrow> (\<not> b \<Longrightarrow> succeeds P m') \<Longrightarrow> succeeds P (if b then m else m')"
  by simp

lemma succeeds_foldM:
  assumes "\<And>acc x. x \<in> set xs \<Longrightarrow> yields P (f acc x) (\<lambda>_. True)" and "\<And>acc x. x \<in> set xs \<Longrightarrow> succeeds P (f acc x)"
  shows "succeeds P (foldM f acc xs)"
  using assms
proof (induction xs arbitrary: acc)
  case Nil
  show ?case unfolding foldM.simps by (rule succeeds_basic(1))
next
  case (Cons x xs)
  show ?case unfolding foldM.simps
  proof (rule succeeds_bind)
    show "yields P (f acc x) (\<lambda>_. True)" "succeeds P (f acc x)" using Cons.prems by simp_all
    show "succeeds P (foldM f acc' xs)" for acc' using Cons by simp
  qed
qed

section \<open>What must work\<close>

text \<open>The dictionary decoder exists and every dictionary frame of a body fits its limit.\<close>

definition decodable ::
  "('d, 'b, 'h, 'g) deps \<Rightarrow> ('d \<Rightarrow> db_content) \<Rightarrow> ('d, 'b, 'h, 'g) store \<Rightarrow> bool" where
  "decodable D content s \<longleftrightarrow> (\<forall>dict. active_dict s = Some dict \<longrightarrow> dp_decompressor D dict = Inr () \<and>
     (\<forall>k c raw lvl. content (db s) CF_BLOCKS k = Some c \<longrightarrow> dp_compress D lvl dict raw = Inr c \<longrightarrow>
        length raw \<le> unat (max_decompressed_block_bytes s)))"

text \<open>The sidecar is mapped: no remapping of it has failed.\<close>

definition bin_mapped :: "CanonicalBin \<Rightarrow> bool" where
  "bin_mapped bin \<longleftrightarrow> (case bin of Rw d \<Rightarrow> df_mapped d | _ \<Rightarrow> True)"

lemma read_slice_returns:
  assumes "unat n \<noteq> 2 ^ 59 - 1" and "checked_mul n 32 = Some off"
  shows "\<exists>r. read_slice_nonzero oc bs off = Ok r"
proof -
  have mul: "unat n * unat (32 :: u64) < 2 ^ 64" and off: "off = n * 32"
    using assms(2) by (auto simp: checked_mul_def split: if_splits)
  have un: "unat off = 32 * unat n" using unat_mul_below [OF mul] off by simp
  have b: "unat off + unat (32 :: u64) < 2 ^ 64" using mul un assms(1) by simp
  have "\<not> off + 32 < off" by (simp add: word_less_nat_alt unat_add_below [OF b])
  with b show ?thesis by (auto simp: read_slice_nonzero_def plain_add_def Let_def)
qed

lemma read_hash_bytes_returns:
  assumes "bin_mapped bin" and "unat n \<noteq> 2 ^ 59 - 1"
  shows "\<exists>r. read_hash_bytes oc bin n = Ok r"
  using assms read_slice_returns [OF assms(2)]
  by (auto simp: read_hash_bytes_def read_slot_nonzero_bytes_def bin_mapped_def split: CanonicalBin.splits option.splits)

section \<open>Reads return\<close>

context live_deps
begin

lemma deserialize_returns:
  assumes "decodable D content s" and "content (db s) CF_BLOCKS k = Some c" and "block_frame D (active_dict s) b c"
  shows "deserialize_block D c s = (Ok b, s)"
proof -
  obtain raw where ser: "dp_ser_block D b = Inr raw" and fr: "frame_of D (active_dict s) raw c"
    using assms(3) by (auto simp: block_frame_def)
  have "decompress_block_payload D s c = Inr raw"
  proof (cases "active_dict s")
    case None
    with fr show ?thesis by (auto simp: decompress_active frame_of_def dest: plain_frame)
  next
    case (Some dict)
    with assms(1,2) have dec: "dp_decompressor D dict = Inr ()"
      and fits: "\<And>raw lvl. dp_compress D lvl dict raw = Inr c \<Longrightarrow> length raw \<le> unat (max_decompressed_block_bytes s)"
      by (auto simp: decodable_def)
    from fr Some consider lvl where "dp_encode_all D raw lvl = Inr c" | lvl where "dp_compress D lvl dict raw = Inr c"
      by (auto simp: frame_of_def)
    then show ?thesis
    proof cases
      case 1
      with Some dec plain_frame [OF 1] plain_under_dict [OF 1] show ?thesis
        by (auto simp: decompress_active split: sum.splits)
    next
      case 2
      with Some dec dict_frame_fits [OF 2 fits [OF 2]] show ?thesis by (simp add: decompress_active)
    qed
  qed
  with de_ser_block [OF ser] show ?thesis by (auto simp: deserialize_block_Ok)
qed

lemma reading_succeeds:
  "succeeds (reading D content s0) (db_get D cf k)"
  "succeeds (reading D content s0) (cf_handle D CF_BLOCKS)" "succeeds (reading D content s0) (cf_handle D CF_HEADERS)"
  "succeeds (reading D content s0) (cf_handle D CF_CANONICAL)"
  "succeeds P (hash_to_height_insert D h n)" "succeeds P (block_cache_get D h)" "succeeds P (header_cache_get D h)"
  "succeeds P (block_cache_insert D h b)" "succeeds P (header_cache_insert D h hdr)" "succeeds P (record_cache_insert h rc)"
  "succeeds P (insert_canonical_height_cache n h)"
  by (simp_all add: succeeds_def live_steps hash_to_height_insert_def block_cache_get_def header_cache_get_def
      block_cache_insert_def header_cache_insert_def record_cache_insert_def insert_canonical_height_cache_def split_beta)

lemma reading_deserialize_succeeds:
  assumes "decodable D content s0" and "content (db s0) CF_BLOCKS k = Some c" and "block_frame D (active_dict s0) b c"
  shows "succeeds (reading D content s0) (deserialize_block D c)"
  unfolding succeeds_def
proof (intro allI impI)
  fix s assume "reading D content s0 s"
  then have "core s = core s0" by (simp add: reading_def)
  from assms core_eqD(1,8,9) [OF this] have "decodable D content s" "content (db s) CF_BLOCKS k = Some c"
    "block_frame D (active_dict s) b c" by (simp_all add: decodable_def)
  from deserialize_returns [OF this] show "\<exists>x s'. deserialize_block D c s = (Ok x, s')" by blast
qed

lemmas read_binds = succeeds_bind [OF reading_steps(1) reading_succeeds(2)] succeeds_bind [OF reading_steps(1) reading_succeeds(3)]
  succeeds_bind [OF reading_steps(1) reading_succeeds(4)] succeeds_bind [OF reading_steps(2) reading_succeeds(1)]
  succeeds_bind [OF reading_steps(3) reading_succeeds(5)] succeeds_bind [OF reading_steps(4) reading_succeeds(6)]
  succeeds_bind [OF reading_steps(5) reading_succeeds(7)] succeeds_bind [OF reading_steps(6) succeeds_basic(2)]
  succeeds_bind [OF reading_counters(1) succeeds_basic(3)] succeeds_bind [OF reading_counters(2) succeeds_basic(3)]
  succeeds_bind [OF reading_counters(3) succeeds_basic(3)]
  succeeds_bind [OF reading_inserts(1) reading_succeeds(8)] succeeds_bind [OF reading_inserts(2) reading_succeeds(9)]
  succeeds_bind [OF reading_inserts(3) reading_succeeds(10)] succeeds_bind [OF reading_inserts(4) reading_succeeds(11)]

lemma get_block_succeeds:
  assumes inv: "store_inv D content s0" and dec: "decodable D content s0"
  shows "succeeds (reading D content s0) (get_block D h)"
proof -
  have found: "succeeds (reading D content s0) (tryM (deserialize_block D c) (\<lambda>block.
      tryM (block_cache_insert D h block) (\<lambda>_. tryM (header_cache_insert D h (blk_header block)) (\<lambda>_.
      tryM (hash_to_height_insert D h (dp_block_height D block)) (\<lambda>_. returnM (Some block))))))"
    if row: "content (db s0) CF_BLOCKS (hash_key h) = Some c" for c
  proof -
    obtain b where fr: "block_frame D (active_dict s0) b c" and known: "known_block D content s0 h b"
      "known_header D content s0 h (blk_header b)" using block_row [OF inv row] by blast
    show ?thesis
      by (rule succeeds_bind [OF reading_deserialize [OF fr] reading_deserialize_succeeds [OF dec row fr]])
        (auto simp: known intro!: read_binds succeeds_basic(1))
  qed
  show ?thesis unfolding get_block_def
    by (intro read_binds succeeds_option succeeds_basic) (auto intro: found)
qed

lemma header_decodes:
  assumes inv: "store_inv D content s0" and row: "Some c = content (db s0) CF_HEADERS (hash_key h)"
  shows "\<exists>hdr. deserialize_header D c = Ok hdr \<and> known_header D content s0 h hdr"
proof -
  obtain hdr where "dp_ser_header D hdr = Inr c" using inv row [symmetric] unfolding store_inv_def data_inv_def rows_ok_def by blast
  from de_ser_header [OF this] have "deserialize_header D c = Ok hdr" by (simp add: deserialize_header_Ok)
  with header_row(1) [OF inv row] show ?thesis by blast
qed

lemma get_header_succeeds:
  assumes inv: "store_inv D content s0"
  shows "succeeds (reading D content s0) (get_header D h)"
  unfolding get_header_def
  by (intro read_binds succeeds_option succeeds_basic)
    (auto dest!: header_decodes [OF inv] intro!: succeeds_liftM read_binds succeeds_basic)

lemma get_record_succeeds:
  assumes inv: "store_inv D content s0"
  shows "succeeds (reading D content s0) (get_record D h)"
  unfolding get_record_def
  by (intro read_binds succeeds_option succeeds_basic)
    (auto dest!: header_decodes [OF inv] intro!: succeeds_liftM read_binds succeeds_basic known_record_of_header)

lemma has_block_succeeds: "succeeds (reading D content s0) (has_block D h)"
  unfolding has_block_def
  by (intro succeeds_bind [where m = "getM id" and R = "\<lambda>_. True"] yields_basic read_binds succeeds_if succeeds_basic) simp_all

lemma get_hash_by_height_succeeds:
  assumes inv: "store_inv D content s0" and mapped: "bin_mapped (canonical_bin s0)" and n: "unat n \<noteq> 2 ^ 59 - 1"
  shows "succeeds (reading D content s0) (get_hash_by_height D n)"
  unfolding succeeds_def
proof (intro allI impI)
  fix s assume s: "reading D content s0 s"
  then have c: "core s = core s0" and inv_s: "store_inv D content s" by (auto simp: reading_def)
  obtain slot where slot: "read_hash_bytes (dp_oc D) (canonical_bin s) n = Ok slot"
    using read_hash_bytes_returns [OF mapped n] core_eqD(6) [OF c] by metis
  have "length v = 32" if "content (db s) CF_CANONICAL (height_key n) = Some v" for v
    using inv_s that unfolding store_inv_def index_ok_def by blast
  with slot show "\<exists>x s'. get_hash_by_height D n s = (Ok x, s')"
    by (auto simp: get_hash_by_height_def insert_canonical_height_cache_def tryM_def live_steps split: option.splits)
qed

lemma by_height_succeeds:
  assumes inv: "store_inv D content s0" and dec: "decodable D content s0"
    and mapped: "bin_mapped (canonical_bin s0)" and n: "unat n \<noteq> 2 ^ 59 - 1"
  shows "succeeds (reading D content s0) (get_block_by_height D n)"
    and "succeeds (reading D content s0) (get_record_by_height D n)"
    and "succeeds (reading D content s0) (get_header_by_height D n)"
  unfolding get_block_by_height_def get_record_by_height_def get_header_by_height_def
  by (intro succeeds_bind [OF get_hash_by_height_yields [OF inv] get_hash_by_height_succeeds [OF inv mapped n]]
      succeeds_option succeeds_basic(1) get_block_succeeds [OF inv dec] get_record_succeeds [OF inv]
      get_header_succeeds [OF inv])+

end

end
