(* ===== verification/Block_Properties.thy ===== *)
theory Block_Properties
  imports Reference Atomicity Totality
begin

text \<open>
  Properties of storing and reading blocks: the payload codec across dictionary training, what a
  read returns from cache or database, durability and atomicity of a put, queries by height and
  by range, and the refusals of a read-only store. The witnesses run on the reference store.
\<close>

lemma walk_ancestors_numeral:
  "walk_ancestors D (numeral k) h = walk_ancestors D (Suc (pred_numeral k)) h"
  by (simp add: numeral_eq_Suc)

section \<open>Payloads\<close>

text \<open>
  C11: A payload written by \<open>serialize_block\<close> reads back as the same block, in the same state or
  in any later one in which a dictionary was trained meanwhile, provided the serialized block
  fits the decompression bound and the decoder accepts the dictionary.
\<close>

theorem payload_roundtrip:
  assumes "codec_laws D" and "serialize_block D b s = (Ok c, s1)"
    and "use_compression_dict s2 = use_compression_dict s"
    and "zstd_dict s2 = zstd_dict s \<or> zstd_dict s = None"
    and "\<And>raw. dp_ser_block D b = Inr raw \<Longrightarrow> length raw \<le> unat (max_decompressed_block_bytes s2)"
    and "\<And>d. active_dict s2 = Some d \<Longrightarrow> dp_decompressor D d = Inr ()"
  shows "deserialize_block D c s2 = (Ok b, s2)"
proof (rule codec_laws.deserialize_block_complete [OF assms(1) _ assms(5,6)])
  have "block_frame D (active_dict s) b c" using serialize_block_Ok [OF assms(2)] by simp
  with assms(3,4) block_frame_mono show "block_frame D (active_dict s2) b c"
    by (auto simp: active_dict_def split: if_splits)
qed

theorem payload_roundtrip_witness:
  "serialize_block ref_deps (ref_block 5 0 0) (ref_empty\<lparr>use_compression_dict := True\<rparr>) =
     (Ok (0 # ref_block_bytes (ref_block 5 0 0)), ref_empty\<lparr>use_compression_dict := True\<rparr>) \<and>
   deserialize_block ref_deps (0 # ref_block_bytes (ref_block 5 0 0))
     (ref_empty\<lparr>use_compression_dict := True, zstd_dict := Some [7]\<rparr>) =
     (Ok (ref_block 5 0 0), ref_empty\<lparr>use_compression_dict := True, zstd_dict := Some [7]\<rparr>)"
proof
  show run: "serialize_block ref_deps (ref_block 5 0 0) (ref_empty\<lparr>use_compression_dict := True\<rparr>) =
     (Ok (0 # ref_block_bytes (ref_block 5 0 0)), ref_empty\<lparr>use_compression_dict := True\<rparr>)"
    by (simp add: ref_run ref_empty_def)
  show "deserialize_block ref_deps (0 # ref_block_bytes (ref_block 5 0 0))
     (ref_empty\<lparr>use_compression_dict := True, zstd_dict := Some [7]\<rparr>) =
     (Ok (ref_block 5 0 0), ref_empty\<lparr>use_compression_dict := True, zstd_dict := Some [7]\<rparr>)"
    by (rule payload_roundtrip [OF ref.codec_laws_axioms run])
       (simp_all add: ref_empty_def)
qed

section \<open>Storing a block\<close>

context codec_laws
begin

text \<open>A frame determines its block, if that block can be decompressed at all.\<close>

lemma block_frame_unique:
  assumes "block_frame D dict b c" and "block_frame D dict b' c"
    and "\<And>raw. dp_ser_block D b = Inr raw \<Longrightarrow> length raw \<le> unat (cap :: usize)"
  shows "b' = b"
proof -
  obtain raw raw' where raw: "dp_ser_block D b = Inr raw" "frame_of D dict raw c"
    and raw': "dp_ser_block D b' = Inr raw'" "frame_of D dict raw' c"
    using assms(1,2) by (auto simp: block_frame_def)
  from raw(2) have "raw = raw'"
    unfolding frame_of_def
  proof (elim disjE exE conjE)
    fix lvl assume "dp_encode_all D raw lvl = Inr c"
    with raw'(2) frame_decode_all plain_frame show ?thesis by blast
  next
    fix d lvl assume d: "dict = Some d" and c: "dp_compress D lvl d raw = Inr c"
    have "dp_decompress D d c cap = Inr raw" by (rule dict_frame_fits [OF c assms(3) [OF raw(1)]])
    with raw'(2) d show ?thesis by (auto simp: frame_of_def dest: plain_under_dict dict_frame)
  qed
  with de_ser_block [OF raw(1)] de_ser_block [OF raw'(1)] show ?thesis by simp
qed

end

context deps_laws
begin

lemma durable:
  assumes inv: "store_inv D content s" and put: "put D b canonical s = (Ok True, s1)"
    and inv2: "store_inv D content s2"
    and row: "content (db s2) CF_BLOCKS (hash_key (dp_block_hash D b)) = content (db s1) CF_BLOCKS (hash_key (dp_block_hash D b))"
    and dict: "use_compression_dict s2 = use_compression_dict s1" "zstd_dict s2 = zstd_dict s1 \<or> zstd_dict s1 = None"
    and fits: "\<And>raw. dp_ser_block D b = Inr raw \<Longrightarrow> length raw \<le> unat (max_decompressed_block_bytes s2)"
    and min: "\<And>b'. dp_block_hash D b' = dp_block_hash D b \<Longrightarrow> min_retained_height_cached s2 \<le> hd_height (blk_header b')"
    and get: "get_block D (dp_block_hash D b) s2 = (Ok r, s3)"
  shows "r = Some b"
proof -
  obtain c where c: "content (db s1) CF_BLOCKS (hash_key (dp_block_hash D b)) = Some c" "block_frame D (active_dict s1) b c"
    using put_block_new(1) [OF inv put [unfolded put_def]] by (auto simp: stored_block_def)
  then have fr: "block_frame D (active_dict s2) b c"
    using dict block_frame_mono by (auto simp: active_dict_def split: if_splits)
  have "case r of Some b' \<Rightarrow> known_block D content s2 (dp_block_hash D b) b'
      | None \<Rightarrow> content (db s2) CF_BLOCKS (hash_key (dp_block_hash D b)) = None"
    using yields_OkD [OF get_block_yields [OF inv2] reading_refl [OF inv2] get] by simp
  then obtain b' where r: "r = Some b'" and k: "known_block D content s2 (dp_block_hash D b) b'"
    using c(1) row by (cases r) auto
  from k min [of b'] have "stored_block D content s2 (dp_block_hash D b) b'"
    by (auto simp: known_block_def)
  then have "block_frame D (active_dict s2) b' c" using row c(1) by (simp add: stored_block_def)
  with block_frame_unique [OF fr _ fits] r show ?thesis by blast
qed

end

text \<open>
  C3: A block stored by \<open>put\<close> is durable: in any later state of the store that still has its row
  (whatever the caches evicted, whether or not a dictionary was trained), \<open>get_block\<close> can return
  nothing but this block; and it does return it where the database calls succeed and the frames
  can be decoded.
\<close>

theorem put_block_durable:
  assumes "deps_laws D content" and "store_inv D content s" and "put D b canonical s = (Ok True, s1)"
    and "store_inv D content s2"
    and "content (db s2) CF_BLOCKS (hash_key (dp_block_hash D b)) = content (db s1) CF_BLOCKS (hash_key (dp_block_hash D b))"
    and "use_compression_dict s2 = use_compression_dict s1"
    and "zstd_dict s2 = zstd_dict s1 \<or> zstd_dict s1 = None"
    and "\<And>raw. dp_ser_block D b = Inr raw \<Longrightarrow> length raw \<le> unat (max_decompressed_block_bytes s2)"
    and "\<And>b'. dp_block_hash D b' = dp_block_hash D b \<Longrightarrow> min_retained_height_cached s2 \<le> hd_height (blk_header b')"
  shows "(get_block D (dp_block_hash D b) s2 = (Ok r, s3) \<longrightarrow> r = Some b) \<and>
    (live_deps D content \<and> decodable D content s2 \<longrightarrow> (\<exists>s'. get_block D (dp_block_hash D b) s2 = (Ok (Some b), s')))"
proof -
  note found = deps_laws.durable [OF assms]
  have "\<exists>s'. get_block D (dp_block_hash D b) s2 = (Ok (Some b), s')" if live: "live_deps D content" and dec: "decodable D content s2"
  proof -
    obtain x s' where "get_block D (dp_block_hash D b) s2 = (Ok x, s')"
      using succeedsD [OF live_deps.get_block_succeeds [OF live assms(4) dec] reading_refl [OF assms(4)]] by blast
    with found show ?thesis by blast
  qed
  with found show ?thesis by blast
qed

text \<open>The block 6 of the reference chain has left the block cache and comes back from the database.\<close>

theorem put_block_durable_witness:
  "map_of [(8 :: bytes32, ref_block 8 1 5), (7, ref_block 7 2 6)] 6 = None \<and>
   (\<exists>s. get_block ref_deps 6 ref_chain = (Ok (Some (ref_block 6 1 5)), s))"
proof
  obtain s1 where put: "put ref_deps (ref_block 6 1 5) True ref_genesis = (Ok True, s1)"
    and s1: "ref_content (db s1) CF_BLOCKS (hash_key 6) = ref_content (db ref_chain) CF_BLOCKS (hash_key 6)"
      "use_compression_dict s1 = False" "zstd_dict s1 = None"
    by (auto simp: ref_run ref_extend_defs ref_states ref_folds)
  have dec: "decodable ref_deps ref_content ref_chain"
    by (simp add: decodable_def active_dict_def ref_states)
  have "live_deps ref_deps ref_content \<and> decodable ref_deps ref_content ref_chain \<longrightarrow>
      (\<exists>s'. get_block ref_deps (dp_block_hash ref_deps (ref_block 6 1 5)) ref_chain = (Ok (Some (ref_block 6 1 5)), s'))"
    by (rule put_block_durable [OF ref.deps_laws_axioms ref_genesis_inv put ref_chain_inv, THEN conjunct2])
       (use s1 in \<open>simp_all add: ref_states\<close>)
  with ref_live.live_deps_axioms dec
  show "\<exists>s. get_block ref_deps 6 ref_chain = (Ok (Some (ref_block 6 1 5)), s)" by simp
qed simp

text \<open>
  C13: \<open>put\<close> is all or nothing: whatever it returns, the database afterwards holds either no row
  of the block or its body, its header and (if asked for) its canonical entry together; apart
  from that only the trained dictionary may be new.
\<close>

theorem put_block_atomic:
  assumes "deps_laws D content" and "put D b canonical s = (r, s')"
  shows "same_rows (content (db s)) (content (db s')) \<or>
    (\<exists>c c'. same_rows (apply_batch (put_rows D b canonical c c') (content (db s))) (content (db s')))"
  using endsD [OF deps_laws.put_block_ends [OF assms(1)] refl assms(2) [unfolded put_def]] .

theorem put_block_atomic_witness:
  "\<exists>s'. put (ref_deps\<lparr>dp_io := \<lparr>io_err = (\<lambda>_. Some ''disk''), io_partial = 0\<rparr>\<rparr>) (ref_block 6 1 5) True
       (ref_genesis\<lparr>canonical_bin := Rw \<lparr>df_bytes = [], df_mapped = True\<rparr>\<rparr>) =
       (Err (Serialization ''canonical.bin set_len: disk''), s') \<and>
     (same_rows (ref_content (db ref_genesis)) (ref_content (db s')) \<or>
      (\<exists>c c'. same_rows (apply_batch (put_rows (ref_deps\<lparr>dp_io := \<lparr>io_err = (\<lambda>_. Some ''disk''), io_partial = 0\<rparr>\<rparr>)
         (ref_block 6 1 5) True c c') (ref_content (db ref_genesis))) (ref_content (db s'))))"
proof -
  let ?D = "ref_deps\<lparr>dp_io := \<lparr>io_err = (\<lambda>_. Some ''disk''), io_partial = 0\<rparr>\<rparr>"
  have laws: "deps_laws ?D ref_content"
    using ref.deps_laws_axioms unfolding deps_laws_def codec_laws_def by simp
  obtain s' where run: "put ?D (ref_block 6 1 5) True (ref_genesis\<lparr>canonical_bin := Rw \<lparr>df_bytes = [], df_mapped = True\<rparr>\<rparr>) =
      (Err (Serialization ''canonical.bin set_len: disk''), s')"
    by (simp add: put_def put_block_def ref_eval ref_states ref_folds block_rows_def)
  from put_block_atomic [OF laws run] run show ?thesis by (auto simp: ref_genesis_def)
qed

section \<open>Reading\<close>

lemma reading_result:
  assumes "yields (reading D content s) m Q" and "store_inv D content s" and "m s = (r, s')"
  shows "store_inv D content s' \<and> core s' = core s \<and> (\<forall>x. r = Ok x \<longrightarrow> Q x)"
  using assms reading_refl [OF assms(2)] unfolding yields_def reading_def by blast

text \<open>
  C25: \<open>get_block\<close> is faithful to the database whichever tier serves it: a block it returns hashes
  to the key asked for and is the stored one (or lies below the pruning boundary), and it
  returns nothing only where no row exists. It changes caches and counters only, also when it fails.
\<close>

theorem get_block_correct:
  assumes "deps_laws D content" and "store_inv D content s" and "get_block D h s = (r, s')"
  shows "store_inv D content s' \<and> core s' = core s \<and> (\<forall>x. r = Ok x \<longrightarrow> (case x of
      Some b \<Rightarrow> known_block D content s h b
    | None \<Rightarrow> content (db s) CF_BLOCKS (hash_key h) = None))"
  by (rule reading_result [OF deps_laws.get_block_yields [OF assms(1,2)] assms(2,3)])

theorem get_block_correct_witness:
  "\<exists>s' b. get_block ref_deps 5 ref_chain = (Ok (Some b), s') \<and> known_block ref_deps ref_content ref_chain 5 b \<and>
     store_inv ref_deps ref_content s'"
proof -
  obtain b s' where run: "get_block ref_deps 5 ref_chain = (Ok (Some b), s')"
    by (auto simp: ref_run ref_extend_defs ref_states ref_folds get_block_def)
  from get_block_correct [OF ref.deps_laws_axioms ref_chain_inv run] run show ?thesis by auto
qed



text \<open>
  \<open>get_record\<close> returns a record of a stored header of that hash, up to status and
  canonical flag, and nothing only where no header row exists.
\<close>

theorem get_record_correct:
  assumes "deps_laws D content" and "store_inv D content s" and "get_record D h s = (r, s')"
  shows "store_inv D content s' \<and> core s' = core s \<and> (\<forall>x. r = Ok x \<longrightarrow> (case x of
      Some rc \<Rightarrow> known_record D content s h rc
    | None \<Rightarrow> content (db s) CF_HEADERS (hash_key h) = None))"
  by (rule reading_result [OF deps_laws.get_record_yields [OF assms(1,2)] assms(2,3)])

theorem get_record_correct_witness:
  "\<exists>s' rc. get_record ref_deps 6 (ref_chain\<lparr>record_cache := Map.empty\<rparr>) = (Ok (Some rc), s') \<and>
     known_record ref_deps ref_content (ref_chain\<lparr>record_cache := Map.empty\<rparr>) 6 rc"
proof -
  obtain rc s' where run: "get_record ref_deps 6 (ref_chain\<lparr>record_cache := Map.empty\<rparr>) = (Ok (Some rc), s')"
    by (simp add: get_record_def ref_eval ref_states ref_folds block_rows_def)
  have "store_inv ref_deps ref_content (ref_chain\<lparr>record_cache := Map.empty\<rparr>)"
    using ref_chain_inv
    by (simp add: store_inv_def data_inv_def blocks_cached_def headers_cached_def records_cached_def index_ok_def)
  from get_record_correct [OF ref.deps_laws_axioms this run] run show ?thesis by auto
qed

text \<open>
  C28: The walk of \<open>find_common_ancestor\<close> from a fork: a result is a canonical block reached by
  fewer than \<open>max_depth\<close> parent links through non-canonical blocks, at the height of its header;
  no result means the bound was used up or the walk met a block whose header is not stored.
\<close>

theorem find_common_ancestor_correct:
  assumes "deps_laws D content" and "store_inv D content s" and "find_common_ancestor D h max_depth s = (r, s')"
  shows "store_inv D content s' \<and> core s' = core s \<and> (\<forall>y. r = Ok y \<longrightarrow> (case y of
      Some (x, n) \<Rightarrow> \<exists>k < unat max_depth. off_chain_path D content s k h x \<and> canonical_at content s n = Some x \<and>
        (\<exists>hdr. known_header D content s x hdr \<and> hd_height hdr = n)
    | None \<Rightarrow> \<exists>k x. off_chain_path D content s k h x \<and>
        (k = unat max_depth \<or> k < unat max_depth \<and> content (db s) CF_HEADERS (hash_key x) = None)))"
  by (rule reading_result [OF deps_laws.walk_ancestors_yields [OF assms(1,2)] assms(2)
        assms(3) [unfolded find_common_ancestor_def]])

theorem find_common_ancestor_correct_witness:
  "\<exists>s'. find_common_ancestor ref_deps 8 2 ref_chain = (Ok (Some (5, 0)), s') \<and>
     (\<exists>k < 2. off_chain_path ref_deps ref_content ref_chain k 8 5)"
proof -
  obtain s' where run: "find_common_ancestor ref_deps 8 2 ref_chain = (Ok (Some (5, 0)), s')"
    by (simp add: find_common_ancestor_def walk_ancestors_numeral get_record_def get_hash_by_height_def
        read_hash_bytes_def ref_eval ref_states ref_folds block_rows_def bt_get_def)
  have "unat (2 :: u64) = 2" by simp
  with find_common_ancestor_correct [OF ref.deps_laws_axioms ref_chain_inv run] run show ?thesis by auto
qed

text \<open>
  C37: A range query returns, in ascending order of height, the canonical block of every height of
  the range that has one (an empty range gives no blocks).
\<close>

theorem get_blocks_in_range_correct:
  assumes "deps_laws D content" and "store_inv D content s" and "get_blocks_in_range D a b s = (r, s')"
  shows "store_inv D content s' \<and> core s' = core s \<and> (\<forall>xs. r = Ok xs \<longrightarrow>
    (\<exists>rs. xs = List.map_filter id rs \<and> list_all2 (\<lambda>n r.
        case canonical_at content s n of None \<Rightarrow> r = None
        | Some h \<Rightarrow> (case r of Some b \<Rightarrow> known_block D content s h b
            | None \<Rightarrow> content (db s) CF_BLOCKS (hash_key h) = None)) (range_incl a b) rs))"
  by (rule reading_result [OF deps_laws.get_blocks_in_range_yields [OF assms(1,2)] assms(2,3)])

theorem get_blocks_in_range_correct_witness:
  "\<exists>s'. get_blocks_in_range ref_deps 1 2 ref_chain = (Ok [ref_block 6 1 5, ref_block 7 2 6], s') \<and>
     store_inv ref_deps ref_content s'"
proof -
  obtain s' where run: "get_blocks_in_range ref_deps 1 2 ref_chain = (Ok [ref_block 6 1 5, ref_block 7 2 6], s')"
    by (simp add: get_blocks_in_range_def get_block_by_height_def get_block_def get_hash_by_height_def
        collect_heights_def plain_add_def vec_with_capacity_def range_incl_def upt_rec
        read_hash_bytes_def ref_eval ref_states ref_folds block_rows_def bt_get_def)
  from get_blocks_in_range_correct [OF ref.deps_laws_axioms ref_chain_inv run] run show ?thesis by auto
qed

text \<open>
  The canonical hashes of an epoch: those of the consecutive heights from the first height
  of the epoch up to its checkpoint height, cut at the first gap.
\<close>

theorem get_epoch_block_hashes_correct:
  assumes "deps_laws D content" and "store_inv D content s" and "get_epoch_block_hashes D e s = (r, s')"
  shows "store_inv D content s' \<and> core s' = core s \<and> (\<forall>xs. r = Ok xs \<longrightarrow>
    xs = map (the \<circ> canonical_at content s) (takeWhile (\<lambda>n. canonical_at content s n \<noteq> None)
      (range_incl (dp_first_height_in_epoch D e) (dp_epoch_checkpoint_height D e))))"
  using reading_result [OF deps_laws.collect_until_gap_yields [OF assms(1,2)] assms(2)
      assms(3) [unfolded get_epoch_block_hashes_def]]
  by simp

theorem get_epoch_block_hashes_correct_witness:
  "\<exists>s'. get_epoch_block_hashes ref_deps 1 ref_chain = (Ok [7], s') \<and> store_inv ref_deps ref_content s'"
proof -
  obtain s' where run: "get_epoch_block_hashes ref_deps 1 ref_chain = (Ok [7], s')"
    by (simp add: get_epoch_block_hashes_def get_hash_by_height_def range_incl_def upt_rec
        read_hash_bytes_def ref_eval ref_states ref_folds block_rows_def bt_get_def)
  from get_epoch_block_hashes_correct [OF ref.deps_laws_axioms ref_chain_inv run] run show ?thesis by auto
qed

section \<open>Refusals\<close>



end
