(* ===== verification/Chain_Spec.thy ===== *)
theory Chain_Spec
  imports Reorg
begin

text \<open>
  The abstract canonical chain: a hash for every canonical height, the tip, the minimum retained
  height. Each operation that moves the chain has a specification as a function on abstract
  chains; the lemmas show that a successful run of the operation, with its database rows, its
  sidecar file and its caches, refines that function.
\<close>

section \<open>Abstract chains\<close>

record chain =
  ch_at :: "u64 \<Rightarrow> bytes32 option"
  ch_tip :: "ChainTip option"
  ch_min :: u64

definition abs_chain :: "('d \<Rightarrow> db_content) \<Rightarrow> ('d, 'b, 'h, 'g) store \<Rightarrow> chain" where
  "abs_chain content s =
     \<lparr>ch_at = canonical_at content s, ch_tip = tip s, ch_min = min_retained_height_cached s\<rparr>"

text \<open>Making a block canonical: heights below the minimum stay unresolved.\<close>

definition spec_set :: "u64 \<Rightarrow> bytes32 \<Rightarrow> chain \<Rightarrow> chain" where
  "spec_set n h c = c\<lparr>ch_at := (\<lambda>m. if m = n \<and> ch_min c \<le> n then Some h else ch_at c m)\<rparr>"

definition spec_extend :: "u64 \<Rightarrow> bytes32 \<Rightarrow> chain \<Rightarrow> chain" where
  "spec_extend n h c = (spec_set n h c)\<lparr>ch_tip := Some \<lparr>tip_hash = h, tip_height = n\<rparr>\<rparr>"

text \<open>The canonical hashes strictly above a height, from the tip downwards.\<close>

definition spec_above :: "u64 \<Rightarrow> chain \<Rightarrow> bytes32 list" where
  "spec_above target c = (case ch_tip c of
     None \<Rightarrow> []
   | Some t \<Rightarrow> if tip_height t \<le> target then []
       else List.map_filter (ch_at c) (rev (range_incl (target + 1) (tip_height t))))"

definition spec_cut :: "u64 \<Rightarrow> chain \<Rightarrow> u64 \<Rightarrow> bytes32 option" where
  "spec_cut target c n = (case ch_tip c of
     Some t \<Rightarrow> if target < n \<and> n \<le> tip_height t then None else ch_at c n
   | None \<Rightarrow> ch_at c n)"

definition spec_rollback :: "u64 \<Rightarrow> chain \<Rightarrow> chain" where
  "spec_rollback target c = (case ch_tip c of
     None \<Rightarrow> c
   | Some t \<Rightarrow> if target = tip_height t then c
       else c\<lparr>ch_at := spec_cut target c,
              ch_tip := (case ch_at c target of
                None \<Rightarrow> Some t | Some x \<Rightarrow> Some \<lparr>tip_hash = x, tip_height = target\<rparr>)\<rparr>)"

text \<open>
  Replacing everything above an ancestor by a list of blocks, given by height and hash, the last
  of which becomes the tip.
\<close>

definition spec_reorg :: "u64 \<Rightarrow> (u64 \<times> bytes32) list \<Rightarrow> chain \<Rightarrow> chain" where
  "spec_reorg ancestor blocks c =
     (fold (\<lambda>(n, h). spec_set n h) blocks (c\<lparr>ch_at := spec_cut ancestor c\<rparr>))
       \<lparr>ch_tip := Some \<lparr>tip_hash = snd (last blocks), tip_height = fst (last blocks)\<rparr>\<rparr>"

text \<open>Pruning raises the minimum and clears the heights below it; a lower bound changes nothing.\<close>

definition spec_prune :: "u64 \<Rightarrow> chain \<Rightarrow> chain" where
  "spec_prune height c =
     (if height \<le> ch_min c then c
      else c\<lparr>ch_at := (\<lambda>n. if n < height then None else ch_at c n), ch_min := height\<rparr>)"

lemma spec_set_simps [simp]:
  "ch_at (spec_set n h c) = (\<lambda>m. if m = n \<and> ch_min c \<le> n then Some h else ch_at c m)"
  "ch_tip (spec_set n h c) = ch_tip c" "ch_min (spec_set n h c) = ch_min c"
  by (simp_all add: spec_set_def)

lemma fold_spec_set:
  "ch_at (fold (\<lambda>(n, h). spec_set n h) blocks c) m =
     (if m < ch_min c then ch_at c m
      else case map_of (rev blocks) m of None \<Rightarrow> ch_at c m | Some h \<Rightarrow> Some h)"
  "ch_tip (fold (\<lambda>(n, h). spec_set n h) blocks c) = ch_tip c"
  "ch_min (fold (\<lambda>(n, h). spec_set n h) blocks c) = ch_min c"
  by (induction blocks arbitrary: c) (auto simp: map_add_def split: option.splits)

section \<open>The tip on the chain\<close>

definition tip_on_chain :: "chain \<Rightarrow> bool" where
  "tip_on_chain c \<longleftrightarrow> (case ch_tip c of None \<Rightarrow> True | Some t \<Rightarrow> ch_at c (tip_height t) = Some (tip_hash t))"

lemma tip_on_chain_extend: "ch_min c \<le> n \<Longrightarrow> tip_on_chain (spec_extend n h c)"
  by (simp add: tip_on_chain_def spec_extend_def)

lemma tip_on_chain_rollback:
  assumes "tip_on_chain c" and "ch_at c target \<noteq> None"
  shows "tip_on_chain (spec_rollback target c)"
  using assms by (auto simp: tip_on_chain_def spec_rollback_def spec_cut_def split: option.splits)

lemma map_of_rev_last: "xs \<noteq> [] \<Longrightarrow> map_of (rev xs) (fst (last xs)) = Some (snd (last xs))"
  by (induction xs rule: rev_induct) auto

lemma tip_on_chain_reorg:
  assumes "blocks \<noteq> []" and "ch_min c \<le> fst (last blocks)"
  shows "tip_on_chain (spec_reorg ancestor blocks c)"
  using assms map_of_rev_last [OF assms(1)]
  by (auto simp: tip_on_chain_def spec_reorg_def fold_spec_set linorder_not_less [symmetric] split: option.splits)

section \<open>Refinement\<close>

context deps_laws
begin

lemma refines_extend:
  assumes "store_inv D content s" and "extend_chain D b s = (Ok True, s')"
  shows "abs_chain content s' = spec_extend (dp_block_height D b) (dp_block_hash D b) (abs_chain content s)"
  by (rule chain.equality)
     (use extend_chain_Ok(2) [OF assms] in \<open>auto simp: abs_chain_def spec_extend_def fun_eq_iff\<close>)

lemma refines_put:
  assumes "store_inv D content s" and "put D b canonical s = (Ok True, s')"
  shows "abs_chain content s' = (if canonical then spec_set (dp_block_height D b) (dp_block_hash D b) (abs_chain content s)
     else abs_chain content s)"
  by (rule chain.equality)
     (use put_block_new(3,4,6) [OF assms(1) assms(2) [unfolded put_def]] in \<open>auto simp: abs_chain_def fun_eq_iff\<close>)

lemma refines_set_canonical:
  assumes "store_inv D content s" and "set_canonical D h s = (Ok u, s')"
  shows "\<exists>hdr. known_header D content s h hdr \<and>
    abs_chain content s' = spec_set (hd_height hdr) h (abs_chain content s)"
proof -
  from set_canonical_Ok [OF assms] obtain hdr where hdr: "known_header D content s h hdr"
    and rows: "content (db s') = (content (db s))(CF_CANONICAL :=
      (content (db s) CF_CANONICAL)(height_key (hd_height hdr) \<mapsto> hash_key h))"
    and c: "core (s'\<lparr>db := db s, canonical_bin := canonical_bin s\<rparr>) = core s" by auto
  have "canonical_at content s' = (\<lambda>m. if m = hd_height hdr \<and> min_retained_height_cached s \<le> hd_height hdr
      then Some h else canonical_at content s m)"
    using c by (auto simp: fun_eq_iff canonical_at_def rows core_def hash_key_def)
  with hdr c show ?thesis
    by (intro exI [of _ hdr] conjI chain.equality) (auto simp: abs_chain_def core_def)
qed

lemma refines_rollback:
  assumes "store_inv D content s" and "rollback_to_height D target s = (Ok reverted, s')"
  shows "abs_chain content s' = spec_rollback target (abs_chain content s)"
    and "reverted = spec_above target (abs_chain content s)"
proof -
  obtain t where t: "tip s = Some t" "min_retained_height_cached s \<le> target" "target \<le> tip_height t"
    "store_inv D content s'"
    "reverted = List.map_filter (canonical_at content s)
          (rev (if target = tip_height t then [] else range_incl (target + 1) (tip_height t)))"
    "\<And>n. canonical_at content s' n = (if target < n \<and> n \<le> tip_height t then None else canonical_at content s n)"
    "tip s' = (if target = tip_height t then Some t
          else case canonical_at content s target of
            None \<Rightarrow> Some t | Some x \<Rightarrow> Some \<lparr>tip_hash = x, tip_height = target\<rparr>)"
    "min_retained_height_cached s' = min_retained_height_cached s"
    by (rule rollback_Ok [OF assms]) (erule that)
  show "abs_chain content s' = spec_rollback target (abs_chain content s)"
    by (rule chain.equality) (use t in \<open>auto simp: abs_chain_def spec_rollback_def spec_cut_def fun_eq_iff\<close>)
  show "reverted = spec_above target (abs_chain content s)"
    using t(1,3,5) by (auto simp: abs_chain_def spec_above_def List.map_filter_def)
qed

lemma refines_reorg:
  assumes "store_inv D content s" and "apply_reorg D ancestor hashes s = (Ok rr, s')"
    and "ancestor + 1 \<noteq> 0" and "canonical_height_cache_capacity s \<noteq> 0"
  shows "\<exists>blocks. map snd blocks = hashes \<and> hashes \<noteq> [] \<and>
     (\<forall>(n, h) \<in> set blocks. \<exists>hdr. known_header D content s h hdr \<and> hd_height hdr = n) \<and>
     abs_chain content s' = spec_reorg ancestor blocks (abs_chain content s) \<and>
     rr = \<lparr>rr_reverted = spec_above ancestor (abs_chain content s), rr_applied = hashes,
           rr_new_tip = the (ch_tip (abs_chain content s'))\<rparr>"
proof (rule apply_reorg_Ok [OF assms])
  fix t vs
  assume t: "tip s = Some t" and ne: "hashes \<noteq> []" and vs: "map fst vs = hashes"
    and known: "\<forall>(h, r) \<in> set vs. known_record D content s h r"
    and rev: "rr_reverted rr = List.map_filter (canonical_at content s) (rev (range_incl (ancestor + 1) (tip_height t)))"
    and app: "rr_applied rr = hashes"
    and new: "rr_new_tip rr = \<lparr>tip_hash = last hashes, tip_height = br_height (snd (last vs))\<rparr>"
    and tip': "tip s' = Some (rr_new_tip rr)" and min': "min_retained_height_cached s' = min_retained_height_cached s"
    and at: "\<And>n. canonical_at content s' n =
      (if n < min_retained_height_cached s then None
       else case entries_at vs n of Some h \<Rightarrow> Some h
         | None \<Rightarrow> if ancestor < n \<and> n \<le> tip_height t then None else canonical_at content s n)"
  let ?blocks = "map (\<lambda>(h, r). (br_height r, h)) vs"
  have "vs \<noteq> []" using ne vs by auto
  have "map snd ?blocks = hashes" using vs by (simp add: case_prod_unfold comp_def)
  moreover have "\<forall>(n, h) \<in> set ?blocks. \<exists>hdr. known_header D content s h hdr \<and> hd_height hdr = n"
    using known by (fastforce simp: known_record_def dest: record_matches_fields(2))
  moreover have "abs_chain content s' = spec_reorg ancestor ?blocks (abs_chain content s)"
  proof -
    have "canonical_at content s n = None" if "n < min_retained_height_cached s" for n
      using that by (simp add: canonical_at_def)
    moreover have "last hashes = fst (last vs)" using vs \<open>vs \<noteq> []\<close> by (metis last_map)
    ultimately show ?thesis
      using t tip' min' new \<open>vs \<noteq> []\<close>
      by (intro chain.equality)
         (auto simp: abs_chain_def spec_reorg_def fold_spec_set [unfolded case_prod_unfold] spec_cut_def fun_eq_iff at entries_at_def
           last_map case_prod_unfold split: option.splits)
  qed
  moreover have "rr_reverted rr = spec_above ancestor (abs_chain content s)"
  proof (cases "tip_height t \<le> ancestor")
    case True
    have "unat (ancestor + 1) = Suc (unat ancestor)" using assms(3) unatSuc [of ancestor] by (simp add: add.commute)
    with True have "range_incl (ancestor + 1) (tip_height t) = []"
      by (simp add: range_incl_def word_le_nat_alt)
    with True rev t show ?thesis by (simp add: spec_above_def abs_chain_def List.map_filter_def)
  next
    case False
    with rev t show ?thesis by (simp add: spec_above_def abs_chain_def)
  qed
  moreover have "rr_new_tip rr = the (ch_tip (abs_chain content s'))" by (simp add: abs_chain_def tip')
  ultimately show ?thesis
    using ne app by (intro exI [of _ ?blocks] conjI ReorgResult.equality) simp_all
qed

end

end
