(* ===== verification/Chain_Properties.thy ===== *)
theory Chain_Properties
  imports Block_Properties Chain_Spec
begin

text \<open>
  Properties of the canonical chain. The operations that move the chain keep the store invariant
  and refine their specifications on abstract chains (\<open>Chain_Spec\<close>); the height index agrees with
  the abstract chain; the errors of rollback and reorganization; and the cases in which the code
  leaves its index or its tip behind. The witnesses run on the reference store.
\<close>

lemmas ref_walk = get_hash_by_height_def read_hash_bytes_def collect_heights_def flag_records_def set_tip_def
  min_retained_height_def plain_add_def range_incl_def upt_rec bt_get_def ok_or_def

section \<open>Moving the chain\<close>

lemma abs_chain_core:
  fixes s s' :: "('d, 'b, 'h, 'g) store"
  assumes "core s' = core s"
  shows "abs_chain content s' = abs_chain content s"
  by (simp add: abs_chain_def core_known(6) [OF assms] core_eqD(3,7) [OF assms])

text \<open>
  C7: \<open>get_hash_by_height\<close>, through height cache, \<open>canonical.bin\<close> and \<open>CF_CANONICAL\<close>, returns the
  hash of the abstract chain at that height, and keeps the invariant whatever it returns.
\<close>

theorem get_hash_by_height_correct:
  assumes "deps_laws D content" and "store_inv D content s" and "get_hash_by_height D n s = (r, s')"
  shows "store_inv D content s' \<and> abs_chain content s' = abs_chain content s \<and>
    (\<forall>x. r = Ok x \<longrightarrow> x = ch_at (abs_chain content s) n)"
proof -
  note r = reading_result [OF deps_laws.get_hash_by_height_yields [OF assms(1,2)] assms(2,3)]
  then have "abs_chain content s' = abs_chain content s" by (intro abs_chain_core) simp
  with r show ?thesis by (simp add: abs_chain_def)
qed

theorem get_hash_by_height_correct_witness:
  "\<exists>s'. get_hash_by_height ref_deps 0 ref_chain = (Ok (Some 5), s') \<and>
     ch_at (abs_chain ref_content ref_chain) 0 = Some 5"
proof -
  obtain s' where run: "get_hash_by_height ref_deps 0 ref_chain = (Ok (Some 5), s')"
    by (simp add: get_hash_by_height_def read_hash_bytes_def ref_eval ref_states ref_folds block_rows_def bt_get_def)
  from get_hash_by_height_correct [OF ref.deps_laws_axioms ref_chain_inv run] run show ?thesis by auto
qed

text \<open>
  C8: A block appended by \<open>extend_chain\<close> is stored, is the canonical block of its height and the
  new tip; the rest of the chain and the invariant stay.
\<close>

theorem extend_chain_refines:
  assumes "deps_laws D content" and "store_inv D content s" and "extend_chain D b s = (Ok True, s')"
  shows "store_inv D content s' \<and> stored_block D content s' (dp_block_hash D b) b \<and>
    abs_chain content s' = spec_extend (dp_block_height D b) (dp_block_hash D b) (abs_chain content s)"
  using deps_laws.extend_chain_Ok [OF assms] deps_laws.refines_extend [OF assms] by simp

theorem extend_chain_refines_witness:
  "extend_chain ref_deps (ref_block 7 2 6) ref_two = (Ok True, ref_three) \<and>
   abs_chain ref_content ref_three = spec_extend 2 7 (abs_chain ref_content ref_two)"
  using extend_chain_refines [OF ref.deps_laws_axioms ref_two_inv ref_three_run] ref_three_run by simp

text \<open>
  \<open>extend_chain\<close> is idempotent: it answers \<open>false\<close> exactly when a body or header of that hash is
  known already, and then changes nothing but caches.
\<close>

theorem extend_chain_duplicate:
  assumes "deps_laws D content" and "store_inv D content s" and "extend_chain D b s = (Ok False, s')"
  shows "store_inv D content s' \<and> core s' = core s \<and>
    ((\<exists>hdr. known_header D content s (dp_block_hash D b) hdr) \<or> (\<exists>b'. known_block D content s (dp_block_hash D b) b'))"
  using deps_laws.extend_chain_Ok [OF assms] by blast

theorem extend_chain_duplicate_witness:
  "extend_chain ref_deps (ref_block 7 2 6) ref_chain = (Ok False, ref_chain) \<and>
   ((\<exists>hdr. known_header ref_deps ref_content ref_chain 7 hdr) \<or> (\<exists>b'. known_block ref_deps ref_content ref_chain 7 b'))"
proof -
  have run: "extend_chain ref_deps (ref_block 7 2 6) ref_chain = (Ok False, ref_chain)"
    by (simp add: extend_chain_def has_block_def cache_contains_peek ref_eval ref_states)
  from extend_chain_duplicate [OF ref.deps_laws_axioms ref_chain_inv run] run show ?thesis by simp
qed



text \<open>
  C29: \<open>set_canonical\<close> makes a known block canonical at the height of its header, replacing the block
  that was canonical there, and keeps the invariant; the tip stays.
\<close>

theorem set_canonical_refines:
  assumes "deps_laws D content" and "store_inv D content s" and "set_canonical D h s = (Ok u, s')"
  shows "store_inv D content s' \<and> (\<exists>hdr. known_header D content s h hdr \<and>
    abs_chain content s' = spec_set (hd_height hdr) h (abs_chain content s))"
  using deps_laws.set_canonical_Ok [OF assms] deps_laws.refines_set_canonical [OF assms] by simp

theorem set_canonical_refines_witness:
  "\<exists>s' (hdr :: L2BlockHeader). set_canonical ref_deps 8 ref_chain = (Ok (), s') \<and> store_inv ref_deps ref_content s' \<and>
     abs_chain ref_content s' = spec_set (hd_height hdr) 8 (abs_chain ref_content ref_chain)"
proof -
  obtain s' where run: "set_canonical ref_deps 8 ref_chain = (Ok (), s')"
    by (simp add: set_canonical_def get_record_def mark_canonical_def ref_eval ref_states ref_folds block_rows_def)
  from set_canonical_refines [OF ref.deps_laws_axioms ref_chain_inv run] run show ?thesis by blast
qed



text \<open>\<open>blocks_to_revert\<close> predicts the list that \<open>rollback_to_height\<close> returns from the same state.\<close>

theorem blocks_to_revert_predicts_rollback:
  assumes "deps_laws D content" and "store_inv D content s"
    and "blocks_to_revert D target s = (Ok predicted, s1)" and "rollback_to_height D target s = (Ok reverted, s2)"
  shows "predicted = reverted"
  using reading_result [OF deps_laws.blocks_to_revert_yields [OF assms(1,2)] assms(2,3)]
    deps_laws.refines_rollback(2) [OF assms(1,2,4)]
  by (auto simp: spec_above_def abs_chain_def split: option.splits)

theorem blocks_to_revert_predicts_rollback_witness:
  "\<exists>s1 s2. blocks_to_revert ref_deps 0 ref_chain = (Ok [7, 6], s1) \<and>
     rollback_to_height ref_deps 0 ref_chain = (Ok [7, 6], s2)"
proof -
  obtain s1 where btr: "blocks_to_revert ref_deps 0 ref_chain = (Ok [7, 6], s1)"
    by (simp add: blocks_to_revert_def ref_walk ref_eval ref_states)
  obtain reverted s2 where rb: "rollback_to_height ref_deps 0 ref_chain = (Ok reverted, s2)"
    by (simp add: rollback_to_height_def ref_walk ref_eval ref_states ref_folds block_rows_def)
  from blocks_to_revert_predicts_rollback [OF ref.deps_laws_axioms ref_chain_inv btr rb] btr rb
  show ?thesis by auto
qed



text \<open>
  A reorganization commits atomically: whatever \<open>apply_reorg\<close> returns, the database afterwards
  is the one before or that with the whole batch applied, which clears the old heights, writes
  the new ones and moves the stored tip.
\<close>

theorem apply_reorg_atomic:
  assumes "deps_laws D content" and "apply_reorg D ancestor hashes s = (r, s')"
  shows "content (db s') = content (db s) \<or>
    (\<exists>heights vs t. content (db s') = apply_batch (reorg_rows heights vs t) (content (db s)))"
  using endsD [OF deps_laws.apply_reorg_ends [OF assms(1)] refl assms(2)] .

theorem apply_reorg_atomic_witness:
  "\<exists>s'. apply_reorg ref_deps 0 [9] ref_chain = (Err (BlockNotInStore 9), s') \<and>
     (ref_content (db s') = ref_content (db ref_chain) \<or>
      (\<exists>heights vs t. ref_content (db s') = apply_batch (reorg_rows heights vs t) (ref_content (db ref_chain))))"
proof -
  obtain s' where run: "apply_reorg ref_deps 0 [9] ref_chain = (Err (BlockNotInStore 9), s')"
    by (simp add: apply_reorg_def validate_hashes_def get_record_def ref_walk ref_eval ref_states ref_folds block_rows_def)
  from apply_reorg_atomic [OF ref.deps_laws_axioms run] run show ?thesis by blast
qed

text \<open>
  The tip stays on the chain: if the hash of the tip is the canonical hash of its height, that
  holds again after a rollback onto a height that has a canonical block.
\<close>

theorem rollback_keeps_tip_on_chain:
  assumes "deps_laws D content" and "store_inv D content s" and "rollback_to_height D target s = (Ok reverted, s')"
    and "tip_on_chain (abs_chain content s)" and "canonical_at content s target \<noteq> None"
  shows "tip_on_chain (abs_chain content s')"
  using deps_laws.refines_rollback(1) [OF assms(1-3)] tip_on_chain_rollback [OF assms(4), of target] assms(5)
  by (simp add: abs_chain_def)

theorem rollback_keeps_tip_on_chain_witness:
  "\<exists>s'. rollback_to_height ref_deps 1 ref_chain = (Ok [7], s') \<and> tip_on_chain (abs_chain ref_content s')"
proof -
  obtain s' where run: "rollback_to_height ref_deps 1 ref_chain = (Ok [7], s')"
    by (simp add: rollback_to_height_def ref_walk ref_eval ref_states ref_folds block_rows_def)
  have "tip_on_chain (abs_chain ref_content ref_chain)" "canonical_at ref_content ref_chain 1 \<noteq> None"
    by (simp_all add: tip_on_chain_def abs_chain_def canonical_at_def ref_states ref_folds block_rows_def hash_key_def)
  with rollback_keeps_tip_on_chain [OF ref.deps_laws_axioms ref_chain_inv run] run show ?thesis by blast
qed

section \<open>Errors\<close>

text \<open>
  A rollback is rejected, with the state untouched, exactly for the reasons the API names: no
  tip, a target above the tip, a target below the minimum retained height; and a reorganization
  without blocks is rejected.
\<close>

theorem chain_moves_rejected:
  assumes "\<not> read_only s"
  shows "(tip s = None \<longrightarrow> rollback_to_height D target s = (Err NoTip, s) \<and> apply_reorg D ancestor hashes s = (Err NoTip, s)) \<and>
    (\<forall>t. tip s = Some t \<longrightarrow>
      (tip_height t < target \<longrightarrow> rollback_to_height D target s = (Err (RollbackAboveTip target (tip_height t)), s)) \<and>
      (target \<le> tip_height t \<and> target < min_retained_height_cached s \<longrightarrow>
         rollback_to_height D target s = (Err (RollbackBelowMin target (min_retained_height_cached s)), s)) \<and>
      apply_reorg D ancestor [] s = (Err EmptyReorgChain, s))"
  using assms
  by (auto simp: rollback_to_height_def apply_reorg_def require_writable_def min_retained_height_def tryM_eval ok_or_def)

theorem chain_moves_rejected_witness:
  "rollback_to_height ref_deps 3 ref_chain = (Err (RollbackAboveTip 3 2), ref_chain)"
proof -
  have "\<not> read_only ref_chain" "tip ref_chain = Some \<lparr>tip_hash = 7, tip_height = 2\<rparr>" by (simp_all add: ref_states)
  from chain_moves_rejected [OF this(1)] this(2) show ?thesis by simp
qed

section \<open>The height cache\<close>

text \<open>
  The eviction loop of the height cache, which pops the lowest key while the cache is over its
  capacity, is the same as dropping the lowest entries at once; the result is within the
  capacity and keeps the entries of the highest heights.
\<close>

theorem evict_lowest_is_drop:
  assumes "bt_wf t"
  shows "evict_lowest cap t = drop (length t - cap) t \<and> length (evict_lowest cap t) \<le> cap"
proof -
  have rm: "bt_remove k ((k, v) # t) = t" if "bt_wf ((k, v) # t)" for k and v :: bytes32 and t
  proof -
    from that have "\<forall>x \<in> set t. fst x \<noteq> k" by (auto simp: bt_wf_def)
    then show ?thesis by (auto simp: bt_remove_def filter_id_conv)
  qed
  have "evict_lowest cap t = drop (length t - cap) t"
    using assms
  proof (induction cap t rule: evict_lowest.induct)
    case (2 cap k v t)
    have wf: "bt_wf t" using bt_wf_tl [OF 2(2)] by simp
    show ?case
      using 2(1) rm [OF 2(2)] wf by (auto simp: evict_lowest.simps(2) Suc_diff_le)
  qed (simp add: evict_lowest.simps)
  with evict_lowest_length show ?thesis by blast
qed

theorem evict_lowest_is_drop_witness:
  "evict_lowest 1 [(3, 7), (4, 8)] = [(4, 8)]"
  using evict_lowest_is_drop [of "[(3, 7), (4, 8)]" 1] by (simp add: bt_wf_def)

section \<open>Where index and tip fall behind\<close>

text \<open>
  \<open>set_canonical_batch\<close> does not refresh the height cache: on the reference chain, after a batch
  that makes block 8 canonical at height 1, the database says 8 while \<open>get_hash_by_height\<close> still
  answers 6.
\<close>

theorem set_canonical_batch_stale:
  "\<exists>s1 s2. set_canonical_batch ref_deps [8] ref_chain = (Ok (), s1) \<and>
     canonical_at ref_content s1 1 = Some 8 \<and> get_hash_by_height ref_deps 1 s1 = (Ok (Some 6), s2)"
  by (simp add: set_canonical_batch_def validate_hashes_def get_record_def mark_canonical_def canonical_at_def
      ref_walk ref_eval ref_states ref_folds block_rows_def hash_key_def)

text \<open>
  A rollback onto a gap: where the target height has no canonical block, \<open>rollback_to_height\<close>
  succeeds, clears the heights above and leaves the tip, in memory and in the database, on a
  block it has just reverted.
\<close>

theorem rollback_onto_gap:
  "\<exists>s1 s2. extend_chain ref_deps (ref_block 9 5 7) ref_chain = (Ok True, s1) \<and>
     rollback_to_height ref_deps 3 s1 = (Ok [9], s2) \<and>
     tip s2 = Some \<lparr>tip_hash = 9, tip_height = 5\<rparr> \<and> canonical_at ref_content s2 5 = None"
  by (simp add: extend_chain_def has_block_def put_def put_block_def cache_contains_peek rollback_to_height_def
      canonical_at_def ref_walk ref_eval ref_states ref_folds block_rows_def hash_key_def)

end
