(* ===== verification/Pruning.thy ===== *)
theory Pruning
  imports Reorg Scans
begin

text \<open>
  Pruning of old blocks (\<open>prune_before_height\<close> of \<open>src/store.rs\<close>). The lemmas determine exactly
  which rows a pruning removes and show that the invariant holds for the new minimum height.
\<close>

section \<open>Operations\<close>

text \<open>The rows of one pruned block.\<close>

definition delete_block_rows :: "bytes32 \<Rightarrow> write_batch" where
  "delete_block_rows hash =
     [DeleteCf CF_BLOCKS (hash_key hash), DeleteCf CF_HEADERS (hash_key hash),
      DeleteCf CF_ATTESTED (hash_key hash)]"

text \<open>Phase 1: the canonical blocks from the current minimum up to the new one.\<close>

definition prune_canonical ::
  "('d, 'b, 'h, 'g) deps \<Rightarrow> u64 list \<Rightarrow> ('d, 'b, 'h, 'g, write_batch \<times> bytes32 list) store_op" where
  "prune_canonical D heights =
     foldM (\<lambda>(batch, pruned) n.
         tryM (get_hash_by_height D n) (\<lambda>r.
         returnM (case r of
             Some hash \<Rightarrow> (batch @ delete_block_rows hash @ [DeleteCf CF_CANONICAL (height_key n)], pruned @ [hash])
           | None \<Rightarrow> (batch, pruned)))) ([], []) heights"

text \<open>Phase 2: one row of the scan of \<open>CF_HEADERS\<close>.\<close>

definition prune_header_row ::
  "('d, 'b, 'h, 'g) deps \<Rightarrow> u64 \<Rightarrow> bytes32 list \<Rightarrow> write_batch \<times> bytes32 list \<Rightarrow> bytes \<times> bytes \<Rightarrow>
    write_batch \<times> bytes32 list" where
  "prune_header_row D height canonical acc row =
     (case (acc, row) of ((batch, pruned), (key, value)) \<Rightarrow>
        if length key \<noteq> 32 then (batch, pruned)
        else let hash = bytes32_new key in
          if hash \<in> set canonical then (batch, pruned)
          else case deserialize_header D value of
              Ok header \<Rightarrow>
                if hd_height header < height
                then (batch @ delete_block_rows hash, pruned @ [hash])
                else (batch, pruned)
            | _ \<Rightarrow> (batch, pruned))"

text \<open>After the commit: drop the pruned hashes from every cache.\<close>

definition evict_block :: "('d, 'b, 'h, 'g) deps \<Rightarrow> bytes32 \<Rightarrow> ('d, 'b, 'h, 'g, unit) store_op" where
  "evict_block D hash =
     modifyM (\<lambda>s. s\<lparr>block_cache := cache_remove (dp_block_lru D) (block_cache s) hash,
       header_cache := cache_remove (dp_header_lru D) (header_cache s) hash,
       record_cache := (record_cache s)(hash := None),
       hash_to_height_cache := cache_remove (dp_height_lru D) (hash_to_height_cache s) hash\<rparr>)"

definition prune_before_height ::
  "('d, 'b, 'h, 'g) deps \<Rightarrow> u64 \<Rightarrow> ('d, 'b, 'h, 'g, usize) store_op" where
  "prune_before_height D height =
     tryM require_writable (\<lambda>_.
     tryM min_retained_height (\<lambda>current_min.
     if height \<le> current_min then returnM 0
     else
       tryM (cf_handle D CF_BLOCKS) (\<lambda>_.
       tryM (cf_handle D CF_HEADERS) (\<lambda>_.
       tryM (cf_handle D CF_ATTESTED) (\<lambda>_.
       tryM (cf_handle D CF_CANONICAL) (\<lambda>_.
       tryM (cf_handle D CF_METADATA) (\<lambda>_.
       tryM (prune_canonical D (range_excl current_min height)) (\<lambda>(batch1, canonical).
       tryM (db_iter D CF_HEADERS IterStart) (\<lambda>items.
       tryM (foldM (\<lambda>acc item.
               tryM (next_item item) (\<lambda>row. returnM (prune_header_row D height canonical acc row)))
             (batch1, canonical) items) (\<lambda>(batch, pruned).
       tryM (db_write D (batch @ [PutCf CF_METADATA (as_bytes META_MIN_HEIGHT) (to_le_bytes height)])) (\<lambda>_.
       tryM (modifyM (\<lambda>s. s\<lparr>min_retained_height_cached := height\<rparr>)) (\<lambda>_.
       tryM (forM pruned (evict_block D)) (\<lambda>_.
       tryM (modifyM (\<lambda>s. s\<lparr>canonical_height_cache :=
               fold bt_remove (bt_keys_below height (canonical_height_cache s)) (canonical_height_cache s)\<rparr>)) (\<lambda>_.
       returnM (of_nat (length pruned))))))))))))))))"

section \<open>Batches of deletions\<close>

lemma apply_only_deletes:
  "(\<forall>x \<in> set b. \<exists>cf k. x = DeleteCf cf k) \<Longrightarrow>
    apply_batch b c cf k = (if DeleteCf cf k \<in> set b then None else c cf k)"
proof (induction b arbitrary: c)
  case (Cons x b)
  then obtain cf' k' where "x = DeleteCf cf' k'" by auto
  with Cons show ?case by auto
qed simp

section \<open>What a pruning collects\<close>

text \<open>The blocks a pruning removes: canonical ones below the height, and all with a header below it.\<close>

definition prunes ::
  "('d, 'b, 'h, 'g) deps \<Rightarrow> ('d \<Rightarrow> db_content) \<Rightarrow> ('d, 'b, 'h, 'g) store \<Rightarrow> u64 \<Rightarrow> bytes32 \<Rightarrow> bool" where
  "prunes D content s height h \<longleftrightarrow>
     (\<exists>n < height. canonical_at content s n = Some h) \<or>
     (\<exists>hdr. stored_header D content s h hdr \<and> hd_height hdr < height)"

definition block_deletes :: "bytes32 set \<Rightarrow> batch_op set" where
  "block_deletes H = {DeleteCf cf (hash_key h) | cf h. cf \<in> {CF_BLOCKS, CF_HEADERS, CF_ATTESTED} \<and> h \<in> H}"

definition canonical_deletes :: "u64 set \<Rightarrow> batch_op set" where
  "canonical_deletes N = {DeleteCf CF_CANONICAL (height_key n) | n. n \<in> N}"

lemma block_deletes_simps:
  "block_deletes {} = {}" "block_deletes (H \<union> H') = block_deletes H \<union> block_deletes H'"
  "block_deletes {h} = set (delete_block_rows h)"
  by (auto simp: block_deletes_def delete_block_rows_def)

lemma canonical_deletes_simps:
  "canonical_deletes {} = {}" "canonical_deletes (N \<union> N') = canonical_deletes N \<union> canonical_deletes N'"
  "canonical_deletes {n} = {DeleteCf CF_CANONICAL (height_key n)}"
  by (auto simp: canonical_deletes_def)

context deps_laws
begin

lemma prune_canonical_yields:
  assumes inv: "store_inv D content s0"
  shows "yields (reading D content s0) (prune_canonical D heights)
    (\<lambda>(batch, pruned).
       set pruned = {h. \<exists>n \<in> set heights. canonical_at content s0 n = Some h} \<and>
       set batch = block_deletes (set pruned) \<union>
         canonical_deletes {n \<in> set heights. canonical_at content s0 n \<noteq> None})"
  unfolding prune_canonical_def
proof (rule yields_foldM)
  fix ys n zs and acc :: "write_batch \<times> bytes32 list"
  obtain batch pruned where acc: "acc = (batch, pruned)" by force
  assume "heights = ys @ n # zs"
    and "case acc of (batch, pruned) \<Rightarrow>
       set pruned = {h. \<exists>n \<in> set ys. canonical_at content s0 n = Some h} \<and>
       set batch = block_deletes (set pruned) \<union> canonical_deletes {n \<in> set ys. canonical_at content s0 n \<noteq> None}"
  then have pruned: "set pruned = {h. \<exists>n \<in> set ys. canonical_at content s0 n = Some h}"
    and batch: "set batch = block_deletes (set pruned) \<union> canonical_deletes {n \<in> set ys. canonical_at content s0 n \<noteq> None}"
    by (simp_all add: acc)
  show "yields (reading D content s0)
      ((\<lambda>(batch, pruned) n. tryM (get_hash_by_height D n) (\<lambda>r. returnM (case r of
             Some hash \<Rightarrow> (batch @ delete_block_rows hash @ [DeleteCf CF_CANONICAL (height_key n)], pruned @ [hash])
           | None \<Rightarrow> (batch, pruned)))) acc n)
      (\<lambda>(batch, pruned). set pruned = {h. \<exists>m \<in> set (ys @ [n]). canonical_at content s0 m = Some h} \<and>
         set batch = block_deletes (set pruned) \<union>
           canonical_deletes {m \<in> set (ys @ [n]). canonical_at content s0 m \<noteq> None})"
    unfolding acc prod.case
  proof (intro yields_bind [OF get_hash_by_height_yields [OF inv]] yields_basic(1))
    fix r assume r: "r = canonical_at content s0 n"
    show "case case r of Some hash \<Rightarrow>
             (batch @ delete_block_rows hash @ [DeleteCf CF_CANONICAL (height_key n)], pruned @ [hash])
           | None \<Rightarrow> (batch, pruned) of
        (batch, pruned) \<Rightarrow> set pruned = {h. \<exists>m \<in> set (ys @ [n]). canonical_at content s0 m = Some h} \<and>
         set batch = block_deletes (set pruned) \<union>
           canonical_deletes {m \<in> set (ys @ [n]). canonical_at content s0 m \<noteq> None}"
    proof (cases r)
      case None
      then have same: "{m \<in> set (ys @ [n]). canonical_at content s0 m \<noteq> None} = {m \<in> set ys. canonical_at content s0 m \<noteq> None}"
        "{h. \<exists>m \<in> set (ys @ [n]). canonical_at content s0 m = Some h} = {h. \<exists>n \<in> set ys. canonical_at content s0 n = Some h}"
        using r by auto
      show ?thesis unfolding same None option.case prod.case using pruned batch by (rule conjI)
    next
      case (Some h)
      then have N: "{m \<in> set (ys @ [n]). canonical_at content s0 m \<noteq> None} =
          {m \<in> set ys. canonical_at content s0 m \<noteq> None} \<union> {n}" using r by auto
      have H: "set (pruned @ [h]) = set pruned \<union> {h}" by auto
      have "set (pruned @ [h]) = {h. \<exists>m \<in> set (ys @ [n]). canonical_at content s0 m = Some h}"
        using Some r pruned by auto
      moreover have "set (batch @ delete_block_rows h @ [DeleteCf CF_CANONICAL (height_key n)]) =
          block_deletes (set (pruned @ [h])) \<union> canonical_deletes {m \<in> set (ys @ [n]). canonical_at content s0 m \<noteq> None}"
        unfolding N H block_deletes_simps canonical_deletes_simps using batch by auto
      ultimately show ?thesis using Some by simp
    qed
  qed
qed (auto simp: block_deletes_simps canonical_deletes_simps)

lemma prune_header_rows:
  assumes "foldl (prune_header_row D height canonical) (batch1, canonical) rows = (batch, pruned)"
    and "set batch1 = block_deletes (set canonical) \<union> X"
  shows "set batch = block_deletes (set pruned) \<union> X"
    and "set pruned = set canonical \<union>
      {h. \<exists>c hdr. (hash_key h, c) \<in> set rows \<and> deserialize_header D c = Ok hdr \<and> hd_height hdr < height}"
proof -
  let ?new = "\<lambda>rows. {h. \<exists>c hdr. (hash_key h, c) \<in> set rows \<and> deserialize_header D c = Ok hdr \<and> hd_height hdr < height}"
  have "set batch = block_deletes (set pruned) \<union> X \<and> set pruned = set canonical \<union> ?new rows"
    using assms(1)
  proof (induction rows arbitrary: batch pruned rule: rev_induct)
    case Nil
    with assms(2) show ?case by auto
  next
    case (snoc row rows)
    obtain b p where bp: "foldl (prune_header_row D height canonical) (batch1, canonical) rows = (b, p)" by force
    from snoc.IH [OF bp] have IH: "set b = block_deletes (set p) \<union> X" "set p = set canonical \<union> ?new rows" by auto
    obtain k v where row: "row = (k, v)" by force
    have step: "prune_header_row D height canonical (b, p) (k, v) = (batch, pruned)"
      using snoc.prems bp by (simp add: row)
    show ?case
    proof (cases "length k = 32 \<and> bytes32_new k \<notin> set canonical \<and>
        (\<exists>hdr. deserialize_header D v = Ok hdr \<and> hd_height hdr < height)")
      case True
      then have k: "hash_key (bytes32_new k) = k" by (simp add: hash_key_def bytes32_octets_new)
      have new: "batch = b @ delete_block_rows (bytes32_new k)" "set pruned = set p \<union> {bytes32_new k}"
        using step True by (auto simp: prune_header_row_def Let_def)
      have rows: "?new (rows @ [row]) = ?new rows \<union> {bytes32_new k}"
        using True k by (auto simp: row hash_key_def)
      have "set batch = block_deletes (set pruned) \<union> X"
        unfolding new block_deletes_simps set_append IH(1) by auto
      moreover have "set pruned = set canonical \<union> ?new (rows @ [row])"
        unfolding new rows IH(2) by auto
      ultimately show ?thesis ..
    next
      case False
      then have same: "batch = b" "pruned = p"
        using step by (auto simp: prune_header_row_def Let_def split: if_splits outcome.splits)
      have "?new (rows @ [row]) \<subseteq> ?new rows \<union> set canonical"
        using False by (auto simp: row hash_key_def)
      moreover have "?new rows \<subseteq> ?new (rows @ [row])" by auto
      ultimately have "set p = set canonical \<union> ?new (rows @ [row])" using IH(2) by blast
      with IH(1) same show ?thesis by simp
    qed
  qed
  then show "set batch = block_deletes (set pruned) \<union> X" "set pruned = set canonical \<union> ?new rows" by auto
qed

lemma prunes_rows:
  assumes inv: "store_inv D content s" and rows: "is_listing (content (db s) CF_HEADERS) rows"
  shows "{h. \<exists>n \<in> set (range_excl (min_retained_height_cached s) height). canonical_at content s n = Some h} \<union>
     {h. \<exists>c hdr. (hash_key h, c) \<in> set rows \<and> deserialize_header D c = Ok hdr \<and> hd_height hdr < height} =
     {h. prunes D content s height h}" (is "?C \<union> ?H = _")
proof -
  have "(\<exists>c hdr. (hash_key h, c) \<in> set rows \<and> deserialize_header D c = Ok hdr \<and> hd_height hdr < height) \<longleftrightarrow>
      (\<exists>hdr. stored_header D content s h hdr \<and> hd_height hdr < height)" for h
  proof (intro iffI; elim exE conjE)
    fix c hdr assume "(hash_key h, c) \<in> set rows" and de: "deserialize_header D c = Ok hdr" and "hd_height hdr < height"
    then have "Some c = content (db s) CF_HEADERS (hash_key h)" using is_listing_mem [OF rows] by simp
    from header_row(2) [OF inv this de] \<open>hd_height hdr < height\<close>
    show "\<exists>hdr. stored_header D content s h hdr \<and> hd_height hdr < height" by blast
  next
    fix hdr assume "stored_header D content s h hdr" and less: "hd_height hdr < height"
    then obtain c where "(hash_key h, c) \<in> set rows" "dp_ser_header D hdr = Inr c"
      using is_listing_mem [OF rows] by (auto simp: stored_header_def)
    with less de_ser_header show "\<exists>c hdr. (hash_key h, c) \<in> set rows \<and> deserialize_header D c = Ok hdr \<and> hd_height hdr < height"
      by (metis deserialize_header_Ok)
  qed
  moreover have "?C = {h. \<exists>n < height. canonical_at content s n = Some h}"
  proof -
    have "min_retained_height_cached s \<le> n" if "canonical_at content s n = Some h" for n h
      using that by (simp add: canonical_at_def linorder_not_less split: if_splits)
    then show ?thesis by auto
  qed
  ultimately show ?thesis by (auto simp: prunes_def)
qed

lemma evict_blocks:
  "forM hs (evict_block D) s = (Ok u, s') \<longleftrightarrow>
     s' = s\<lparr>block_cache := fold (\<lambda>h c. cache_remove (dp_block_lru D) c h) hs (block_cache s),
       header_cache := fold (\<lambda>h c. cache_remove (dp_header_lru D) c h) hs (header_cache s),
       record_cache := fold (\<lambda>h m. m(h := None)) hs (record_cache s),
       hash_to_height_cache := fold (\<lambda>h c. cache_remove (dp_height_lru D) c h) hs (hash_to_height_cache s)\<rparr>"
  by (induction hs arbitrary: s) (auto simp: evict_block_def run_simps)

lemma fold_map_remove: "fold (\<lambda>h m. m(h := None)) hs m h = (if h \<in> set hs then None else m h)"
  by (induction hs arbitrary: m) auto

text \<open>The run up to the commit.\<close>

lemma prune_run:
  assumes inv: "store_inv D content s" and run: "prune_before_height D height s = (Ok count, s')"
    and above: "min_retained_height_cached s < height"
  obtains s1 d batch pruned where "reading D content s s1" and "\<not> read_only s"
    and "set pruned = {h. prunes D content s height h}" and "count = of_nat (length pruned)"
    and "set batch = block_deletes (set pruned) \<union>
      canonical_deletes {n. n < height \<and> canonical_at content s n \<noteq> None}"
    and "content d = apply_batch (batch @ [PutCf CF_METADATA (as_bytes META_MIN_HEIGHT) (to_le_bytes height)]) (content (db s))"
    and "s' = s1\<lparr>db := d, min_retained_height_cached := height,
       block_cache := fold (\<lambda>h c. cache_remove (dp_block_lru D) c h) pruned (block_cache s1),
       header_cache := fold (\<lambda>h c. cache_remove (dp_header_lru D) c h) pruned (header_cache s1),
       record_cache := fold (\<lambda>h m. m(h := None)) pruned (record_cache s1),
       hash_to_height_cache := fold (\<lambda>h c. cache_remove (dp_height_lru D) c h) pruned (hash_to_height_cache s1),
       canonical_height_cache := fold bt_remove (bt_keys_below height (canonical_height_cache s1)) (canonical_height_cache s1)\<rparr>"
proof -
  let ?ns = "range_excl (min_retained_height_cached s) height"
  obtain b1 canonical s1 batch pruned s2 d where
    can: "prune_canonical D ?ns s = (Ok (b1, canonical), s1)" and rw: "\<not> read_only s"
    and loop: "foldM (\<lambda>acc item. tryM (next_item item) (\<lambda>row. returnM (prune_header_row D height canonical acc row)))
        (b1, canonical) (rk_iterator_cf (dp_rocks D) (db s1) CF_HEADERS IterStart) s1 = (Ok (batch, pruned), s2)"
    and wr: "rk_write (dp_rocks D) (db s2) (batch @ [PutCf CF_METADATA (as_bytes META_MIN_HEIGHT) (to_le_bytes height)]) = Inr d"
    and count: "count = of_nat (length pruned)"
    and s': "s' = s2\<lparr>db := d, min_retained_height_cached := height,
       block_cache := fold (\<lambda>h c. cache_remove (dp_block_lru D) c h) pruned (block_cache s2),
       header_cache := fold (\<lambda>h c. cache_remove (dp_header_lru D) c h) pruned (header_cache s2),
       record_cache := fold (\<lambda>h m. m(h := None)) pruned (record_cache s2),
       hash_to_height_cache := fold (\<lambda>h c. cache_remove (dp_height_lru D) c h) pruned (hash_to_height_cache s2),
       canonical_height_cache := fold bt_remove (bt_keys_below height (canonical_height_cache s2)) (canonical_height_cache s2)\<rparr>"
    using run above
    by (auto simp: prune_before_height_def tryM_Ok small_steps_Ok min_retained_height_def evict_blocks split: if_splits)
  have read: "reading D content s s1"
    and C: "set canonical = {h. \<exists>n \<in> set ?ns. canonical_at content s n = Some h}"
    and B: "set b1 = block_deletes (set canonical) \<union> canonical_deletes {n \<in> set ?ns. canonical_at content s n \<noteq> None}"
    using yields_OkD [OF prune_canonical_yields [OF inv] reading_refl [OF inv] can] by auto
  have db1: "db s1 = db s" using read core_eqD(1) by (auto simp: reading_def)
  obtain rows where items: "rk_iterator_cf (dp_rocks D) (db s1) CF_HEADERS IterStart = map Inr rows"
    and s2: "s2 = s1" and fl: "foldl (prune_header_row D height canonical) (b1, canonical) rows = (batch, pruned)"
    using iter_loop [OF loop] unfolding foldM_pure by auto
  have listing: "is_listing (content (db s) CF_HEADERS) rows"
    using iter_start [of "db s1" CF_HEADERS] iterates_complete unfolding items by (auto simp: db1)
  note H = prune_header_rows [OF fl B]
  have P: "set pruned = {h. prunes D content s height h}" using H(2) prunes_rows [OF inv listing] C by simp
  have N: "{n \<in> set ?ns. canonical_at content s n \<noteq> None} = {n. n < height \<and> canonical_at content s n \<noteq> None}"
  proof -
    have "min_retained_height_cached s \<le> n" if "canonical_at content s n \<noteq> None" for n
      using that by (simp add: canonical_at_def linorder_not_less split: if_splits)
    then show ?thesis by auto
  qed
  show ?thesis
  proof (rule that [OF read rw P count H(1) [unfolded N]])
    show "content d = apply_batch (batch @ [PutCf CF_METADATA (as_bytes META_MIN_HEIGHT) (to_le_bytes height)]) (content (db s))"
      using write_sound [OF wr] by (simp only: s2 db1)
  qed (rule s' [unfolded s2])
qed

lemma prune_Ok:
  assumes inv: "store_inv D content s" and run: "prune_before_height D height s = (Ok count, s')"
    and above: "min_retained_height_cached s < height"
  shows "store_inv D content s'"
    and "min_retained_height_cached s' = height" and "tip s' = tip s"
    and "cf \<in> {CF_BLOCKS, CF_HEADERS, CF_ATTESTED} \<Longrightarrow> content (db s') cf (hash_key h) =
      (if prunes D content s height h then None else content (db s) cf (hash_key h))"
    and "canonical_at content s' n = (if n < height then None else canonical_at content s n)"
proof -
  obtain s1 d batch pruned where read: "reading D content s s1" and rw: "\<not> read_only s"
    and P: "set pruned = {h. prunes D content s height h}"
    and B: "set batch = block_deletes (set pruned) \<union> canonical_deletes {n. n < height \<and> canonical_at content s n \<noteq> None}"
    and X: "content d = apply_batch (batch @ [PutCf CF_METADATA (as_bytes META_MIN_HEIGHT) (to_le_bytes height)]) (content (db s))"
    and s': "s' = s1\<lparr>db := d, min_retained_height_cached := height,
       block_cache := fold (\<lambda>h c. cache_remove (dp_block_lru D) c h) pruned (block_cache s1),
       header_cache := fold (\<lambda>h c. cache_remove (dp_header_lru D) c h) pruned (header_cache s1),
       record_cache := fold (\<lambda>h m. m(h := None)) pruned (record_cache s1),
       hash_to_height_cache := fold (\<lambda>h c. cache_remove (dp_height_lru D) c h) pruned (hash_to_height_cache s1),
       canonical_height_cache := fold bt_remove (bt_keys_below height (canonical_height_cache s1)) (canonical_height_cache s1)\<rparr>"
    by (rule prune_run [OF inv run above]) (rule that; assumption)
  from read have inv1: "store_inv D content s1" and core1: "core s1 = core s" by (auto simp: reading_def)
  note c = core_eqD [OF core1] and k = core_known [OF core1]
  have dels: "\<forall>x \<in> set batch. \<exists>cf k. x = DeleteCf cf k"
    unfolding B by (auto simp: block_deletes_def canonical_deletes_def)
  have db: "content d = (apply_batch batch (content (db s)))(CF_METADATA :=
      (apply_batch batch (content (db s)) CF_METADATA)(as_bytes META_MIN_HEIGHT \<mapsto> to_le_bytes height))"
    by (simp add: X)
  have rows: "content d cf (hash_key h) = (if h \<in> set pruned then None else content (db s) cf (hash_key h))"
    if "cf \<in> {CF_BLOCKS, CF_HEADERS, CF_ATTESTED}" for cf h
    using that unfolding db by (auto simp: apply_only_deletes [OF dels] B block_deletes_def canonical_deletes_def)
  have canon: "content d CF_CANONICAL k =
      (if \<exists>n < height. k = height_key n \<and> canonical_at content s n \<noteq> None then None else content (db s) CF_CANONICAL k)" for k
    unfolding db by (auto simp: apply_only_deletes [OF dels] B block_deletes_def canonical_deletes_def)
  have canon_at: "content d CF_CANONICAL (height_key n) = content (db s) CF_CANONICAL (height_key n)" if "height \<le> n" for n
    using that by (auto simp: canon)
  have meta: "content d CF_METADATA = (content (db s) CF_METADATA)(as_bytes META_MIN_HEIGHT \<mapsto> to_le_bytes height)"
    unfolding db by (auto simp: fun_eq_iff apply_only_deletes [OF dels] B block_deletes_def canonical_deletes_def)
  have act: "active_dict s' = active_dict s" using c by (simp add: s' active_dict_def)
  have min: "min_retained_height_cached s' = height" by (simp add: s')
  have data1: "data_inv D content s1" and idx1: "index_ok content s1" and meta1: "meta_ok content s1"
    using inv1 by (simp_all add: store_inv_def)
  have data: "data_inv D content s'"
  proof (rule data_inv_shrink [OF data1, where kept = "\<lambda>h. h \<notin> set pruned"])
    show "active_dict s' = active_dict s1" by (simp add: s' active_dict_def)
    show "min_retained_height_cached s1 \<le> min_retained_height_cached s'" using above by (simp add: min c)
    have "cache_wf (block_cache s1)" "cache_wf (header_cache s1)"
      using data1 by (simp_all add: data_inv_def blocks_cached_def headers_cached_def)
    then show "cache_wf (block_cache s')" "cache_wf (header_cache s')"
      "cache_peek (dp_block_lru D) (block_cache s') h = Some b \<Longrightarrow>
        cache_peek (dp_block_lru D) (block_cache s1) h = Some b \<and> h \<notin> set pruned"
      "cache_peek (dp_header_lru D) (header_cache s') h = Some hdr \<Longrightarrow>
        cache_peek (dp_header_lru D) (header_cache s1) h = Some hdr \<and> h \<notin> set pruned" for h b hdr
      by (simp_all add: s' blru.sharded.fold_remove_wf hlru.sharded.fold_remove_wf
          blru.sharded.fold_remove_peek hlru.sharded.fold_remove_peek split: if_splits)
  qed (auto simp: s' rows c fold_map_remove stored_block_def stored_header_def split: if_splits)
  have hc: "content (db s) CF_CANONICAL (height_key n) = Some (hash_key x)"
    if "min_retained_height_cached s \<le> n" "bt_get (canonical_height_cache s1) n = Some x" for n x
    using idx1 that by (simp add: index_ok_def c)
  have sl: "content (db s) CF_CANONICAL (height_key n) = Some (hash_key x)"
    if "min_retained_height_cached s \<le> n" "bin_slot (canonical_bin s1) n = Some x" for n x
    using idx1 that by (simp add: index_ok_def c)
  have wf1: "bt_wf (canonical_height_cache s1)" "bin_ok (canonical_bin s1)" "bin_writable (canonical_bin s1)"
    "canonical_height_cache_capacity s1 = 0 \<Longrightarrow> canonical_height_cache s1 = []"
    using idx1 rw by (simp_all add: index_ok_def c)
  have idx: "index_ok content s'"
  proof (rule index_okI)
    fix kk v assume "content (db s') CF_CANONICAL kk = Some v"
    then have "content (db s1) CF_CANONICAL kk = Some v" by (simp add: s' canon c split: if_splits)
    then show "length kk = 8 \<and> length v = 32" using idx1 unfolding index_ok_def by blast
  next
    fix n x assume "min_retained_height_cached s' \<le> n" and x: "bt_get (canonical_height_cache s') n = Some x"
    then have n: "height \<le> n" by (simp add: min)
    from x have "bt_get (canonical_height_cache s1) n = Some x"
      by (simp add: s' btree.get_fold_remove split: if_splits)
    from hc [OF _ this] n above have "content (db s) CF_CANONICAL (height_key n) = Some (hash_key x)" by simp
    with n show "content (db s') CF_CANONICAL (height_key n) = Some (hash_key x)" by (simp add: s' canon_at)
  next
    fix n x assume "min_retained_height_cached s' \<le> n" and x: "bin_slot (canonical_bin s') n = Some x"
    then have n: "height \<le> n" by (simp add: min)
    from x have "bin_slot (canonical_bin s1) n = Some x" by (simp add: s')
    from sl [OF _ this] n above have "content (db s) CF_CANONICAL (height_key n) = Some (hash_key x)" by simp
    with n show "content (db s') CF_CANONICAL (height_key n) = Some (hash_key x)" by (simp add: s' canon_at)
  qed (use wf1 in \<open>auto simp: s' btree.invar_fold_remove btree_fold_remove_nil\<close>)
  have "meta_ok content s'"
    using meta1 c by (simp add: meta_ok_def s' meta)
  with data idx show "store_inv D content s'" by (simp add: store_inv_def)
  show "min_retained_height_cached s' = height" by (rule min)
  show "tip s' = tip s" using c by (simp add: s')
  show "content (db s') cf (hash_key h) = (if prunes D content s height h then None else content (db s) cf (hash_key h))"
    if "cf \<in> {CF_BLOCKS, CF_HEADERS, CF_ATTESTED}" for cf h
    using rows [OF that] P by (simp add: s')
  show "canonical_at content s' n = (if n < height then None else canonical_at content s n)" for n
    using above by (auto simp: canonical_at_def min linorder_not_less) (auto simp: s' canon_at)
qed

end

end
