(* ===== verification/Column_Families.thy ===== *)
theory Column_Families
  imports Compression
begin

text \<open>
  The column family options (\<open>src/cf_options.rs\<close>): compaction style, bloom filter, compression and
  BlobDB settings, and the compaction filters that drop rows below the pruning threshold.

  RocksDB itself interprets the settings; what the crate's own code decides is the table of
  settings and the verdict of the filters, and these are what the lemmas are about.
\<close>

section \<open>Options\<close>

datatype DBCompactionStyle = LevelCompaction | UniversalCompaction

datatype DBCompressionType = NoCompression | ZstdCompression

datatype Decision = Keep | Remove

text \<open>
  The settings this crate makes; \<open>None\<close> leaves RocksDB's default. A filter carries its name and
  its verdict for a threshold and a value.
\<close>

record cf_options =
  opt_compaction_style :: "DBCompactionStyle option"
  opt_enable_blob_files :: bool
  opt_min_blob_size :: "u64 option"
  opt_blob_compression :: "DBCompressionType option"
  opt_bloom_bits :: "int option"
  opt_compression :: "DBCompressionType option"
  opt_target_file_size_base :: "u64 option"
  opt_compaction_filter :: "(string \<times> (u64 \<Rightarrow> bytes \<Rightarrow> Decision)) option"

definition default_options :: cf_options where
  "default_options =
     \<lparr> opt_compaction_style = None, opt_enable_blob_files = False, opt_min_blob_size = None,
       opt_blob_compression = None, opt_bloom_bits = None, opt_compression = None,
       opt_target_file_size_base = None, opt_compaction_filter = None \<rparr>"

definition BLOCKS_BLOB_MIN_SIZE :: u64 where
  "BLOCKS_BLOB_MIN_SIZE = 512"

definition CHECKPOINTS_TARGET_FILE_SIZE_BASE :: u64 where
  "CHECKPOINTS_TARGET_FILE_SIZE_BASE = 256 * 1024 * 1024"

section \<open>Compaction filters\<close>

definition block_height_filter :: "('d, 'b, 'h, 'g) deps \<Rightarrow> u64 \<Rightarrow> bytes \<Rightarrow> Decision" where
  "block_height_filter D min_height value =
     (if min_height = 0 then Keep
      else case dp_decode_all D value of
        Inl _ \<Rightarrow> Keep
      | Inr raw \<Rightarrow>
          (case dp_de_block D raw of
             Inr block \<Rightarrow> if dp_block_height D block < min_height then Remove else Keep
           | Inl _ \<Rightarrow> Keep))"

definition header_height_filter :: "('d, 'b, 'h, 'g) deps \<Rightarrow> u64 \<Rightarrow> bytes \<Rightarrow> Decision" where
  "header_height_filter D min_height value =
     (if min_height = 0 then Keep
      else case dp_de_header D value of
        Inr header \<Rightarrow> if hd_height header < min_height then Remove else Keep
      | Inl _ \<Rightarrow> Keep)"

definition attested_height_filter :: "('d, 'b, 'h, 'g) deps \<Rightarrow> u64 \<Rightarrow> bytes \<Rightarrow> Decision" where
  "attested_height_filter D min_height value =
     (if min_height = 0 then Keep
      else case dp_de_attested D value of
        Inr ab \<Rightarrow> if dp_block_height D (ab_block ab) < min_height then Remove else Keep
      | Inl _ \<Rightarrow> Keep)"

section \<open>The table of families\<close>

text \<open>\<open>pruning\<close> tells whether a pruning threshold was given (\<open>prune_threshold\<close> is \<open>Some\<close>).\<close>

definition blocks_cf_options :: "('d, 'b, 'h, 'g) deps \<Rightarrow> BlockStoreConfig \<Rightarrow> bool \<Rightarrow> cf_options" where
  "blocks_cf_options D config pruning =
     (let opts = default_options\<lparr>opt_compaction_style := Some UniversalCompaction\<rparr>;
          opts = (if cfg_enable_blob_db config
                  then opts\<lparr>opt_enable_blob_files := True, opt_min_blob_size := Some BLOCKS_BLOB_MIN_SIZE,
                         opt_blob_compression := Some ZstdCompression\<rparr>
                  else opts)
      in if pruning
         then opts\<lparr>opt_compaction_filter := Some (''prn003_block_height_filter'', block_height_filter D)\<rparr>
         else opts)"

definition headers_cf_options :: "('d, 'b, 'h, 'g) deps \<Rightarrow> bool \<Rightarrow> cf_options" where
  "headers_cf_options D pruning =
     (let opts = default_options\<lparr>opt_bloom_bits := Some DEFAULT_BLOOM_BITS_PER_KEY,
            opt_compaction_style := Some LevelCompaction, opt_compression := Some NoCompression\<rparr>
      in if pruning
         then opts\<lparr>opt_compaction_filter := Some (''prn003_header_height_filter'', header_height_filter D)\<rparr>
         else opts)"

definition attested_cf_options :: "('d, 'b, 'h, 'g) deps \<Rightarrow> bool \<Rightarrow> cf_options" where
  "attested_cf_options D pruning =
     (let opts = default_options\<lparr>opt_bloom_bits := Some DEFAULT_BLOOM_BITS_PER_KEY,
            opt_compaction_style := Some LevelCompaction\<rparr>
      in if pruning
         then opts\<lparr>opt_compaction_filter := Some (''prn003_attested_height_filter'', attested_height_filter D)\<rparr>
         else opts)"

definition canonical_cf_options :: cf_options where
  "canonical_cf_options =
     default_options\<lparr>opt_compaction_style := Some LevelCompaction, opt_compression := Some NoCompression\<rparr>"

definition checkpoints_cf_options :: cf_options where
  "checkpoints_cf_options =
     default_options\<lparr>opt_compaction_style := Some LevelCompaction,
       opt_target_file_size_base := Some CHECKPOINTS_TARGET_FILE_SIZE_BASE\<rparr>"

definition metadata_cf_options :: cf_options where
  "metadata_cf_options = default_options\<lparr>opt_compaction_style := Some LevelCompaction\<rparr>"

text \<open>The options of one family; an unknown name runs into \<open>unreachable!\<close>.\<close>

definition cf_options_of ::
  "('d, 'b, 'h, 'g) deps \<Rightarrow> BlockStoreConfig \<Rightarrow> bool \<Rightarrow> string \<Rightarrow> cf_options result" where
  "cf_options_of D config pruning name =
     (if name = CF_BLOCKS then Ok (blocks_cf_options D config pruning)
      else if name = CF_HEADERS then Ok (headers_cf_options D pruning)
      else if name = CF_ATTESTED then Ok (attested_cf_options D pruning)
      else if name = CF_CANONICAL then Ok canonical_cf_options
      else if name = CF_CHECKPOINTS then Ok checkpoints_cf_options
      else if name = CF_METADATA then Ok metadata_cf_options
      else Panic (''ALL_COLUMN_FAMILIES drifted from TYP-001 names: '' @ name))"

definition column_family_descriptors ::
  "('d, 'b, 'h, 'g) deps \<Rightarrow> BlockStoreConfig \<Rightarrow> bool \<Rightarrow> (string \<times> cf_options) list result" where
  "column_family_descriptors D config pruning =
     foldR (\<lambda>cfs name. tryR (cf_options_of D config pruning name) (\<lambda>opts. Ok (cfs @ [(name, opts)])))
       [] ALL_COLUMN_FAMILIES"

section \<open>What the filters drop\<close>

text \<open>
  Whether the filter installed for a family wants a row gone: the descriptors were built when the
  database was opened, with the pruning filters or without.
\<close>

definition filter_drops :: "('d, 'b, 'h, 'g) deps \<Rightarrow> bool \<Rightarrow> u64 \<Rightarrow> string \<Rightarrow> bytes \<Rightarrow> bytes \<Rightarrow> bool" where
  "filter_drops D pruning threshold name key value =
     (case cf_options_of D default_config pruning name of
        Ok opts \<Rightarrow>
          (case opt_compaction_filter opts of
             Some (_, verdict) \<Rightarrow> verdict threshold value = Remove
           | None \<Rightarrow> False)
      | _ \<Rightarrow> False)"

lemma column_family_descriptors_ok:
  "\<exists>opts. column_family_descriptors D config pruning = Ok opts \<and> map fst opts = ALL_COLUMN_FAMILIES \<and>
     (\<forall>(name, opt) \<in> set opts. cf_options_of D config pruning name = Ok opt)"
  by (simp add: column_family_descriptors_def cf_options_of_def ALL_COLUMN_FAMILIES_def)

lemma filter_of_any_config:
  assumes "cf_options_of D config pruning name = Ok opts"
  shows "filter_drops D pruning threshold name key value \<longleftrightarrow>
    (\<exists>n f. opt_compaction_filter opts = Some (n, f) \<and> f threshold value = Remove)"
  using assms
  by (cases pruning) (auto simp: filter_drops_def cf_options_of_def blocks_cf_options_def Let_def
      split: if_splits option.splits)

lemma filter_drops_iff:
  "filter_drops D pruning threshold name key value \<longleftrightarrow> pruning \<and> threshold \<noteq> 0 \<and>
     (name = CF_BLOCKS \<and> (\<exists>raw b. dp_decode_all D value = Inr raw \<and> dp_de_block D raw = Inr b \<and>
          dp_block_height D b < threshold) \<or>
      name = CF_HEADERS \<and> (\<exists>hdr. dp_de_header D value = Inr hdr \<and> hd_height hdr < threshold) \<or>
      name = CF_ATTESTED \<and> (\<exists>a. dp_de_attested D value = Inr a \<and> dp_block_height D (ab_block a) < threshold))"
  by (auto simp: filter_drops_def cf_options_of_def blocks_cf_options_def headers_cf_options_def
      attested_cf_options_def canonical_cf_options_def checkpoints_cf_options_def metadata_cf_options_def
      default_options_def block_height_filter_def header_height_filter_def attested_height_filter_def Let_def
      split: sum.splits if_splits)

end
