(* ===== verification/Compaction.thy ===== *)
theory Compaction
  imports Column_Families Store_Inv
begin

text \<open>
  \<open>compact\<close> and \<open>flush\<close> of \<open>src/store.rs\<close>. A compaction runs the filters of \<open>src/cf_options.rs\<close>
  behind the back of the caches, and RocksDB may also start one by itself. The lemmas show that it
  drops nothing but rows of blocks, headers and attestations below the minimum retained height, so
  that the invariant and everything a caller can see above that height stay.
\<close>

section \<open>Operations\<close>

text \<open>\<open>compact_range_cf\<close> over the whole key range of one family.\<close>

definition compact_family :: "('d, 'b, 'h, 'g) deps \<Rightarrow> string \<Rightarrow> ('d, 'b, 'h, 'g, unit) store_op" where
  "compact_family D name =
     modifyM (\<lambda>s. s\<lparr>db := rk_compact_range_cf (dp_rocks D) (db s) name
       (filter_drops D (compaction_filters s) (min_retained_height_cached s) name)\<rparr>)"

definition compact :: "('d, 'b, 'h, 'g) deps \<Rightarrow> ('d, 'b, 'h, 'g, unit) store_op" where
  "compact D =
     forM ALL_COLUMN_FAMILIES (\<lambda>name. tryM (cf_handle D name) (\<lambda>_. compact_family D name))"

definition flush :: "('d, 'b, 'h, 'g) deps \<Rightarrow> ('d, 'b, 'h, 'g, unit) store_op" where
  "flush D =
     tryM (\<lambda>s. case rk_flush_wal (dp_rocks D) (db s) of
         Inl e \<Rightarrow> (Err (RocksDb e), s) | Inr d \<Rightarrow> (Ok (), s\<lparr>db := d\<rparr>)) (\<lambda>_.
     \<lambda>s. case rk_flush (dp_rocks D) (db s) of
         Inl e \<Rightarrow> (Err (RocksDb e), s) | Inr d \<Rightarrow> (Ok (), s\<lparr>db := d\<rparr>))"

section \<open>What a compaction may drop\<close>

definition compacted ::
  "('d, 'b, 'h, 'g) deps \<Rightarrow> ('d \<Rightarrow> db_content) \<Rightarrow> ('d, 'b, 'h, 'g) store \<Rightarrow> ('d, 'b, 'h, 'g) store \<Rightarrow> bool" where
  "compacted D content s s' \<longleftrightarrow> (\<exists>d. s' = s\<lparr>db := d\<rparr> \<and>
     (\<forall>cf k. content d cf k = content (db s) cf k \<or>
        content d cf k = None \<and> (\<exists>v. content (db s) cf k = Some v \<and>
          filter_drops D (compaction_filters s) (min_retained_height_cached s) cf k v)))"

lemma compacted_refl: "compacted D content s s"
  unfolding compacted_def by (rule exI [of _ "db s"]) simp

lemma compacted_trans:
  assumes "compacted D content s s'" "compacted D content s' s''"
  shows "compacted D content s s''"
  using assms unfolding compacted_def by (elim exE conjE) (simp, metis)

context deps_laws
begin

lemma compact_family_drops:
  "compacted D content s (s\<lparr>db := rk_compact_range_cf (dp_rocks D) (db s) name
     (filter_drops D (compaction_filters s) (min_retained_height_cached s) name)\<rparr>)"
proof -
  let ?f = "filter_drops D (compaction_filters s) (min_retained_height_cached s)"
  let ?d = "rk_compact_range_cf (dp_rocks D) (db s) name (?f name)"
  have "content ?d cf k = content (db s) cf k \<or>
      content ?d cf k = None \<and> (\<exists>v. content (db s) cf k = Some v \<and> ?f cf k v)" for cf k
    using compact_other [of cf name "db s" "?f name"] compact_row [of "db s" name "?f name" k]
    by (cases "cf = name") auto
  then show ?thesis unfolding compacted_def by blast
qed

lemma compact_drops: "compact D s = (r, s') \<Longrightarrow> compacted D content s s'"
proof -
  have "preserves (compacted D content s) (compact_family D name)" for name
    by (rule preservesI) (auto simp: compact_family_def intro: compacted_trans [OF _ compact_family_drops])
  then have "preserves (compacted D content s) (compact D)"
    unfolding compact_def by (intro preserve_rules preserves_unchanged [OF unchanged_reads(1)])
  then show "compact D s = (r, s') \<Longrightarrow> compacted D content s s'"
    using compacted_refl [of D content s] by (rule preservesD)
qed

lemma stored_header_unique:
  "stored_header D content s h hdr \<Longrightarrow> stored_header D content s h hdr' \<Longrightarrow> hdr = hdr'"
  unfolding stored_header_def using de_ser_header by (metis option.inject sum.inject(2))

text \<open>A dropped row is the row of a block, respectively header, below the minimum.\<close>

lemma dropped_block:
  assumes inv: "rows_ok D content s" and row: "content (db s) CF_BLOCKS (hash_key h) = Some c"
    and drop: "filter_drops D pruning (min_retained_height_cached s) CF_BLOCKS k c"
  shows "stored_block D content s h b \<Longrightarrow> hd_height (blk_header b) < min_retained_height_cached s"
    and "stored_header D content s h hdr \<Longrightarrow> hd_height hdr < min_retained_height_cached s"
proof -
  have frames: "hd_height (blk_header b) < min_retained_height_cached s" if "block_frame D (active_dict s) b c" for b
    using drop that frame_decode_all de_ser_block block_height_header
    by (fastforce simp: filter_drops_iff block_frame_def)
  show "stored_block D content s h b \<Longrightarrow> hd_height (blk_header b) < min_retained_height_cached s"
    using frames row by (simp add: stored_block_def)
  obtain b where b: "block_frame D (active_dict s) b c"
    "stored_header D content s h (blk_header b) \<or> content (db s) CF_HEADERS (hash_key h) = None"
    using inv row unfolding rows_ok_def by blast
  show "hd_height hdr < min_retained_height_cached s" if st: "stored_header D content s h hdr"
  proof -
    have "stored_header D content s h (blk_header b)" using b(2) st by (auto simp: stored_header_def)
    from stored_header_unique [OF this st] frames [OF b(1)] show ?thesis by simp
  qed
qed

lemma dropped_header:
  "stored_header D content s h hdr \<Longrightarrow> content (db s) CF_HEADERS (hash_key h) = Some c \<Longrightarrow>
    filter_drops D pruning threshold CF_HEADERS k c \<Longrightarrow> hd_height hdr < threshold"
  using de_ser_header by (fastforce simp: stored_header_def filter_drops_iff)

lemma compacted_keeps:
  assumes inv: "store_inv D content s" and comp: "compacted D content s s'"
  shows "store_inv D content s'"
    and "cf \<notin> {CF_BLOCKS, CF_HEADERS, CF_ATTESTED} \<Longrightarrow> content (db s') cf = content (db s) cf"
    and "stored_block D content s h b \<Longrightarrow> min_retained_height_cached s \<le> hd_height (blk_header b) \<Longrightarrow>
      stored_block D content s' h b"
    and "stored_header D content s h hdr \<Longrightarrow> min_retained_height_cached s \<le> hd_height hdr \<Longrightarrow>
      stored_header D content s' h hdr"
    and "stored_block D content s' h b \<Longrightarrow> stored_block D content s h b"
    and "stored_header D content s' h hdr \<Longrightarrow> stored_header D content s h hdr"
proof -
  obtain d where s': "s' = s\<lparr>db := d\<rparr>"
    and rows: "\<And>cf k. content d cf k = content (db s) cf k \<or>
      content d cf k = None \<and> (\<exists>v. content (db s) cf k = Some v \<and>
        filter_drops D (compaction_filters s) (min_retained_height_cached s) cf k v)"
    using comp unfolding compacted_def by auto
  have act: "active_dict s' = active_dict s" by (simp add: s' active_dict_def)
  have ok: "rows_ok D content s" and data: "data_inv D content s" using inv by (simp_all add: store_inv_def data_inv_def)
  show other: "content (db s') cf = content (db s) cf" if "cf \<notin> {CF_BLOCKS, CF_HEADERS, CF_ATTESTED}" for cf
    using that rows [of cf] by (auto simp: s' fun_eq_iff filter_drops_iff)
  have data': "data_inv D content s'"
  proof (rule data_inv_shrink [OF data act, where kept = "\<lambda>_. True"])
    show "content (db s') cf (hash_key h) \<in> {None, content (db s) cf (hash_key h)}" for cf h
      using rows [of cf "hash_key h"] by (auto simp: s')
    show "hd_height (blk_header b) < min_retained_height_cached s'"
      if "stored_block D content s h b" "content (db s') CF_BLOCKS (hash_key h) = None" for h b
      using that rows [of CF_BLOCKS "hash_key h"] dropped_block(1) [OF ok] by (auto simp: s' stored_block_def)
    show "hd_height hdr < min_retained_height_cached s'"
      if "stored_header D content s h hdr" "content (db s') CF_HEADERS (hash_key h) = None" for h hdr
      using that rows [of CF_HEADERS "hash_key h"] dropped_header by (auto simp: s' stored_header_def)
    show "hd_height hdr < min_retained_height_cached s'"
      if "content (db s) CF_BLOCKS (hash_key h) = Some c" "stored_header D content s h hdr"
        "content (db s') CF_BLOCKS (hash_key h) = None" for h c hdr
      using that rows [of CF_BLOCKS "hash_key h"] dropped_block(2) [OF ok] by (auto simp: s')
  qed (use data in \<open>auto simp: s' data_inv_def blocks_cached_def headers_cached_def\<close>)
  moreover have "index_ok content s'"
    using inv other [of CF_CANONICAL] by (simp add: store_inv_def index_ok_def s')
  moreover have "meta_ok content s'"
    using inv other [of CF_METADATA] by (simp add: store_inv_def meta_ok_def s' cong: option.case_cong)
  ultimately show "store_inv D content s'" by (simp add: store_inv_def)
  show "stored_block D content s' h b \<Longrightarrow> stored_block D content s h b"
    "stored_header D content s' h hdr \<Longrightarrow> stored_header D content s h hdr"
    using rows [of CF_BLOCKS "hash_key h"] rows [of CF_HEADERS "hash_key h"]
    by (auto simp: stored_block_def stored_header_def act) (auto simp: s')
  show "stored_block D content s' h b"
    if st: "stored_block D content s h b" and min: "min_retained_height_cached s \<le> hd_height (blk_header b)"
  proof -
    obtain c where c: "content (db s) CF_BLOCKS (hash_key h) = Some c" and fr: "block_frame D (active_dict s) b c"
      using st by (auto simp: stored_block_def)
    have "\<not> filter_drops D pruning (min_retained_height_cached s) CF_BLOCKS k c" for pruning k
      using dropped_block(1) [OF ok c _ st] min by (meson leD)
    with rows [of CF_BLOCKS "hash_key h"] c have "content d CF_BLOCKS (hash_key h) = Some c" by auto
    with fr show ?thesis by (auto simp: stored_block_def s' active_dict_def)
  qed
  show "stored_header D content s' h hdr"
    if st: "stored_header D content s h hdr" and min: "min_retained_height_cached s \<le> hd_height hdr"
  proof -
    obtain c where c: "content (db s) CF_HEADERS (hash_key h) = Some c" "dp_ser_header D hdr = Inr c"
      using st by (auto simp: stored_header_def)
    have "\<not> filter_drops D pruning (min_retained_height_cached s) CF_HEADERS k c" for pruning k
      using dropped_header [OF st c(1)] min by (meson leD)
    with rows [of CF_HEADERS "hash_key h"] c have "content d CF_HEADERS (hash_key h) = Some c" by auto
    with c show ?thesis by (auto simp: stored_header_def s')
  qed
qed

text \<open>A flush changes nothing that can be seen.\<close>

lemma flush_keeps:
  assumes "flush D s = (r, s')"
  shows "\<exists>d. s' = s\<lparr>db := d\<rparr> \<and> content d = content (db s)"
proof (cases "rk_flush_wal (dp_rocks D) (db s)")
  case (Inl e)
  with assms show ?thesis by (auto simp: flush_def tryM_def intro: exI [of _ "db s"])
next
  case (Inr d)
  show ?thesis
  proof (cases "rk_flush (dp_rocks D) d")
    case (Inl e)
    with Inr assms flush_wal_sound [OF Inr] show ?thesis by (auto simp: flush_def tryM_def)
  next
    case (Inr d')
    with \<open>rk_flush_wal (dp_rocks D) (db s) = Inr d\<close> assms flush_wal_sound [of "db s" d] flush_sound [of d d']
    show ?thesis by (auto simp: flush_def tryM_def)
  qed
qed

end

end
