(* ===== verification/Checkpoints.thy ===== *)
theory Checkpoints
  imports Scans
begin

text \<open>
  Attestations and checkpoints (\<open>src/store.rs\<close>, the codec of \<open>src/types/stored_checkpoint.rs\<close>):
  plain rows of \<open>CF_ATTESTED\<close> and \<open>CF_CHECKPOINTS\<close>, without a cache in front.

  The checkpoint family implements a finite map from epochs to checkpoints (\<open>checkpoint_at\<close>): the
  lemmas show what each operation does to it or reads from it, under the invariant that every row
  is the encoding of a checkpoint under the key of its epoch.
\<close>

section \<open>Operations\<close>

definition put_attestation ::
  "('d, 'b, 'h, 'g) deps \<Rightarrow> bytes32 \<Rightarrow> AttestedBlock \<Rightarrow> ('d, 'b, 'h, 'g, unit) store_op" where
  "put_attestation D hash attested =
     tryM require_writable (\<lambda>_.
     tryM (liftM (of_sum Serialization (dp_ser_attested D attested))) (\<lambda>bytes.
     tryM (cf_handle D CF_ATTESTED) (\<lambda>_.
     db_put D CF_ATTESTED (hash_key hash) bytes)))"

definition get_attestation ::
  "('d, 'b, 'h, 'g) deps \<Rightarrow> bytes32 \<Rightarrow> ('d, 'b, 'h, 'g, AttestedBlock option) store_op" where
  "get_attestation D hash =
     tryM (cf_handle D CF_ATTESTED) (\<lambda>_.
     tryM (db_get D CF_ATTESTED (hash_key hash)) (\<lambda>r.
     case r of
       None \<Rightarrow> returnM None
     | Some raw \<Rightarrow>
         tryM (liftM (of_sum (\<lambda>e. Serialization (''get_attestation: bincode deserialize failed: '' @ e))
                (dp_de_attested D raw))) (\<lambda>attested.
         returnM (Some attested))))"

text \<open>\<open>StoredCheckpoint::encode_bincode\<close> and \<open>decode_bincode\<close>.\<close>

definition encode_bincode :: "('d, 'b, 'h, 'g) deps \<Rightarrow> StoredCheckpoint \<Rightarrow> string + bytes" where
  "encode_bincode D checkpoint = dp_ser_checkpoint D checkpoint"

definition decode_bincode :: "('d, 'b, 'h, 'g) deps \<Rightarrow> bytes \<Rightarrow> string + StoredCheckpoint" where
  "decode_bincode D bytes = dp_de_checkpoint D bytes"

abbreviation sc_epoch :: "StoredCheckpoint \<Rightarrow> u64" where
  "sc_epoch checkpoint \<equiv> ck_epoch (sc_checkpoint checkpoint)"

definition put_checkpoint ::
  "('d, 'b, 'h, 'g) deps \<Rightarrow> StoredCheckpoint \<Rightarrow> ('d, 'b, 'h, 'g, unit) store_op" where
  "put_checkpoint D checkpoint =
     tryM require_writable (\<lambda>_.
     tryM (liftM (of_sum Serialization (encode_bincode D checkpoint))) (\<lambda>value.
     tryM (cf_handle D CF_CHECKPOINTS) (\<lambda>_.
     db_put D CF_CHECKPOINTS (epoch_key (sc_epoch checkpoint)) value)))"

definition get_checkpoint ::
  "('d, 'b, 'h, 'g) deps \<Rightarrow> u64 \<Rightarrow> ('d, 'b, 'h, 'g, StoredCheckpoint option) store_op" where
  "get_checkpoint D epoch =
     tryM (cf_handle D CF_CHECKPOINTS) (\<lambda>_.
     tryM (db_get D CF_CHECKPOINTS (epoch_key epoch)) (\<lambda>r.
     case r of
       None \<Rightarrow> returnM None
     | Some bytes \<Rightarrow>
         tryM (liftM (of_sum Serialization (decode_bincode D bytes))) (\<lambda>checkpoint.
         returnM (Some checkpoint))))"

definition get_latest_checkpoint ::
  "('d, 'b, 'h, 'g) deps \<Rightarrow> ('d, 'b, 'h, 'g, StoredCheckpoint option) store_op" where
  "get_latest_checkpoint D =
     tryM (cf_handle D CF_CHECKPOINTS) (\<lambda>_.
     tryM (db_iter D CF_CHECKPOINTS IterEnd) (\<lambda>items.
     case items of
       [] \<Rightarrow> returnM None
     | item # _ \<Rightarrow>
         tryM (next_item item) (\<lambda>(key, value).
         tryM (liftM (of_sum Serialization (decode_bincode D value))) (\<lambda>checkpoint.
         returnM (Some checkpoint)))))"

definition get_checkpoints_in_range ::
  "('d, 'b, 'h, 'g) deps \<Rightarrow> u64 \<Rightarrow> u64 \<Rightarrow> ('d, 'b, 'h, 'g, StoredCheckpoint list) store_op" where
  "get_checkpoints_in_range D start_epoch end_epoch =
     (if end_epoch < start_epoch then returnM []
      else
        tryM (cf_handle D CF_CHECKPOINTS) (\<lambda>_.
        tryM (db_iter D CF_CHECKPOINTS (IterFrom (epoch_key start_epoch))) (\<lambda>items.
        loopM (\<lambda>acc item. tryM (next_item item)
            (bounded_row (\<lambda>key. end_epoch < decode_epoch_key key)
              (\<lambda>result (key, value).
                 tryM (liftM (of_sum Serialization (decode_bincode D value))) (\<lambda>checkpoint.
                 returnM (result @ [checkpoint]))) acc)) [] items)))"

definition prune_checkpoint_row ::
  "('d, 'b, 'h, 'g) deps \<Rightarrow> write_batch \<times> usize \<Rightarrow> bytes \<times> bytes \<Rightarrow>
    ('d, 'b, 'h, 'g, write_batch \<times> usize) store_op" where
  "prune_checkpoint_row D acc row =
     (case (acc, row) of ((batch, count), (key, value)) \<Rightarrow>
        tryM (liftM (plain_add (dp_oc D) count 1)) (\<lambda>count'.
        returnM (batch @ [DeleteCf CF_CHECKPOINTS key], count')))"

definition prune_checkpoints_before_epoch ::
  "('d, 'b, 'h, 'g) deps \<Rightarrow> u64 \<Rightarrow> ('d, 'b, 'h, 'g, usize) store_op" where
  "prune_checkpoints_before_epoch D epoch =
     tryM require_writable (\<lambda>_.
     if epoch = 0 then returnM 0
     else
       tryM (cf_handle D CF_CHECKPOINTS) (\<lambda>_.
       tryM (db_iter D CF_CHECKPOINTS IterStart) (\<lambda>items.
       tryM (loopM (\<lambda>acc item. tryM (next_item item)
            (bounded_row (\<lambda>key. epoch \<le> decode_epoch_key key) (prune_checkpoint_row D) acc)) ([], 0) items)
         (\<lambda>(batch, count).
       tryM (if 0 < count then db_write D batch else returnM ()) (\<lambda>_.
       returnM count)))))"

section \<open>The map of checkpoints\<close>

definition checkpoint_at ::
  "('d, 'b, 'h, 'g) deps \<Rightarrow> ('d \<Rightarrow> db_content) \<Rightarrow> ('d, 'b, 'h, 'g) store \<Rightarrow> u64 \<Rightarrow> StoredCheckpoint option" where
  "checkpoint_at D content s epoch =
     (case content (db s) CF_CHECKPOINTS (epoch_key epoch) of
        None \<Rightarrow> None
      | Some v \<Rightarrow> (case dp_de_checkpoint D v of Inl _ \<Rightarrow> None | Inr ck \<Rightarrow> Some ck))"

definition checkpoints_ok ::
  "('d, 'b, 'h, 'g) deps \<Rightarrow> ('d \<Rightarrow> db_content) \<Rightarrow> ('d, 'b, 'h, 'g) store \<Rightarrow> bool" where
  "checkpoints_ok D content s \<longleftrightarrow>
     (\<forall>k v. content (db s) CF_CHECKPOINTS k = Some v \<longrightarrow>
        (\<exists>ck. k = epoch_key (sc_epoch ck) \<and> dp_ser_checkpoint D ck = Inr v))"

text \<open>The row of a checkpoint.\<close>

definition checkpoint_row_of :: "('d, 'b, 'h, 'g) deps \<Rightarrow> StoredCheckpoint \<Rightarrow> bytes \<times> bytes" where
  "checkpoint_row_of D ck = (epoch_key (sc_epoch ck), projr (dp_ser_checkpoint D ck))"

context codec_laws
begin

lemma checkpoint_row:
  assumes "checkpoints_ok D content s" and "content (db s) CF_CHECKPOINTS k = Some v"
  obtains ck where "k = epoch_key (sc_epoch ck)" and "dp_de_checkpoint D v = Inr ck"
    and "checkpoint_at D content s (sc_epoch ck) = Some ck"
  using assms de_ser_checkpoint unfolding checkpoints_ok_def checkpoint_at_def by fastforce

lemma checkpoint_at_epoch:
  assumes "checkpoints_ok D content s" and "checkpoint_at D content s e = Some ck"
  shows "sc_epoch ck = e" and "\<exists>v. content (db s) CF_CHECKPOINTS (epoch_key e) = Some v \<and> dp_de_checkpoint D v = Inr ck"
proof -
  obtain v where v: "content (db s) CF_CHECKPOINTS (epoch_key e) = Some v" "dp_de_checkpoint D v = Inr ck"
    using assms(2) by (auto simp: checkpoint_at_def split: option.splits sum.splits)
  with checkpoint_row [OF assms(1) v(1)] show "sc_epoch ck = e" by auto
  from v show "\<exists>v. content (db s) CF_CHECKPOINTS (epoch_key e) = Some v \<and> dp_de_checkpoint D v = Inr ck" by blast
qed

lemma checkpoints_put:
  assumes ok: "checkpoints_ok D content s" and ser: "dp_ser_checkpoint D ck = Inr v"
    and rows: "content (db s') CF_CHECKPOINTS = (content (db s) CF_CHECKPOINTS)(epoch_key (sc_epoch ck) \<mapsto> v)"
  shows "checkpoints_ok D content s'"
    and "checkpoint_at D content s' = (checkpoint_at D content s)(sc_epoch ck \<mapsto> ck)"
  using ok ser de_ser_checkpoint [OF ser] by (auto simp: checkpoints_ok_def checkpoint_at_def rows fun_eq_iff)

lemma checkpoint_rows:
  assumes ok: "checkpoints_ok D content s" and rows: "is_listing (content (db s) CF_CHECKPOINTS) rows"
  obtains cks where "rows = map (checkpoint_row_of D) cks" and "sorted_wrt (<) (map sc_epoch cks)"
    and "set cks = {ck. checkpoint_at D content s (sc_epoch ck) = Some ck}"
    and "\<forall>ck \<in> set cks. dp_de_checkpoint D (snd (checkpoint_row_of D ck)) = Inr ck"
proof -
  let ?ck = "\<lambda>(k, v). projr (dp_de_checkpoint D v)"
  have row: "checkpoint_row_of D (?ck (k, v)) = (k, v) \<and> dp_de_checkpoint D v = Inr (?ck (k, v)) \<and>
      checkpoint_at D content s (sc_epoch (?ck (k, v))) = Some (?ck (k, v))" if "(k, v) \<in> set rows" for k v
  proof -
    have c: "content (db s) CF_CHECKPOINTS k = Some v" using that is_listing_mem [OF rows] by simp
    with ok obtain ck where "k = epoch_key (sc_epoch ck)" and ser: "dp_ser_checkpoint D ck = Inr v"
      unfolding checkpoints_ok_def by blast
    with c de_ser_checkpoint [OF ser] show ?thesis by (simp add: checkpoint_row_of_def checkpoint_at_def)
  qed
  let ?cks = "map ?ck rows"
  show ?thesis
  proof (rule that [of ?cks])
    have "map (checkpoint_row_of D \<circ> ?ck) rows = map id rows"
      using row by (intro map_cong refl) (auto simp: split_beta)
    then show parallel: "rows = map (checkpoint_row_of D) ?cks" by simp
    have "sorted_wrt bytes_less (map (\<lambda>ck. epoch_key (sc_epoch ck)) ?cks)"
      using rows unfolding is_listing_def by (subst (asm) parallel) (simp add: checkpoint_row_of_def comp_def split_beta)
    then show "sorted_wrt (<) (map sc_epoch ?cks)"
      by (simp add: sorted_wrt_map epoch_key_def to_be_bytes_mono split_beta)
    show "set ?cks = {ck. checkpoint_at D content s (sc_epoch ck) = Some ck}"
    proof (intro equalityI subsetI)
      fix ck assume "ck \<in> set ?cks"
      with row show "ck \<in> {ck. checkpoint_at D content s (sc_epoch ck) = Some ck}" by fastforce
    next
      fix ck assume "ck \<in> {ck. checkpoint_at D content s (sc_epoch ck) = Some ck}"
      then obtain v where "content (db s) CF_CHECKPOINTS (epoch_key (sc_epoch ck)) = Some v"
        "dp_de_checkpoint D v = Inr ck" using checkpoint_at_epoch(2) [OF ok] by blast
      then show "ck \<in> set ?cks" using is_listing_mem [OF rows] by force
    qed
    show "\<forall>ck \<in> set ?cks. dp_de_checkpoint D (snd (checkpoint_row_of D ck)) = Inr ck"
      using row by fastforce
  qed
qed

end

section \<open>The operations on the map\<close>

context live_deps
begin

lemma get_checkpoint_value:
  "checkpoints_ok D content s \<Longrightarrow> get_checkpoint D e s = (Ok (checkpoint_at D content s e), s)"
  by (auto simp: get_checkpoint_def checkpoint_at_def decode_bincode_def split: option.splits
      elim: checkpoint_row)

lemma get_latest_value:
  assumes "checkpoints_ok D content s"
  obtains r where "get_latest_checkpoint D s = (Ok r, s)"
    and "case r of None \<Rightarrow> \<forall>e. checkpoint_at D content s e = None
      | Some ck \<Rightarrow> checkpoint_at D content s (sc_epoch ck) = Some ck \<and>
          (\<forall>e. checkpoint_at D content s e \<noteq> None \<longrightarrow> e \<le> sc_epoch ck)"
proof -
  obtain rows where L: "is_listing (content (db s) CF_CHECKPOINTS) rows"
    and items: "rk_iterator_cf (dp_rocks D) (db s) CF_CHECKPOINTS IterEnd = map Inr (rev rows)" by (rule live_end)
  from checkpoint_rows [OF assms L] obtain cks where rows: "rows = map (checkpoint_row_of D) cks"
    and sorted: "sorted_wrt (<) (map sc_epoch cks)"
    and set: "set cks = {ck. checkpoint_at D content s (sc_epoch ck) = Some ck}"
    and de: "\<forall>ck \<in> set cks. dp_de_checkpoint D (snd (checkpoint_row_of D ck)) = Inr ck" .
  have dom: "\<exists>ck \<in> set cks. sc_epoch ck = e" if "checkpoint_at D content s e \<noteq> None" for e
    using that checkpoint_at_epoch(1) [OF assms, of e] by (auto simp: set)
  show ?thesis
  proof (cases cks rule: rev_cases)
    case Nil
    then have "get_latest_checkpoint D s = (Ok None, s)"
      by (simp add: get_latest_checkpoint_def items rows)
    moreover have "checkpoint_at D content s e = None" for e
      using dom [of e] Nil by (cases "checkpoint_at D content s e") auto
    ultimately show ?thesis by (intro that [of None]) auto
  next
    case (snoc xs ck)
    then have "get_latest_checkpoint D s = (Ok (Some ck), s)"
      using de by (simp add: get_latest_checkpoint_def items rows decode_bincode_def split_beta)
    moreover have "\<forall>e. checkpoint_at D content s e \<noteq> None \<longrightarrow> e \<le> sc_epoch ck"
      using dom sorted by (fastforce simp: snoc sorted_wrt_append)
    ultimately show ?thesis using set snoc by (intro that [of "Some ck"]) auto
  qed
qed

lemma collect_checkpoints:
  assumes "\<forall>ck \<in> set cks. dp_de_checkpoint D (snd (checkpoint_row_of D ck)) = Inr ck"
  shows "foldM (\<lambda>result (key, value).
       tryM (liftM (of_sum Serialization (decode_bincode D value))) (\<lambda>checkpoint. returnM (result @ [checkpoint])))
     acc (map (checkpoint_row_of D) cks) s = (Ok (acc @ cks), s)"
  using assms
proof (induction cks arbitrary: acc)
  case (Cons ck cks)
  then show ?case by (cases "checkpoint_row_of D ck") (simp add: tryM_run decode_bincode_def)
qed simp

lemma epoch_order: "bytes_less (epoch_key a) (epoch_key b) \<longleftrightarrow> a < b"
  by (simp add: epoch_key_def to_be_bytes_mono)

lemma get_checkpoints_in_range_value:
  assumes "checkpoints_ok D content s"
  obtains cks where "get_checkpoints_in_range D a b s = (Ok cks, s)" and "sorted_wrt (<) (map sc_epoch cks)"
    and "set cks = {ck. checkpoint_at D content s (sc_epoch ck) = Some ck \<and> a \<le> sc_epoch ck \<and> sc_epoch ck \<le> b}"
proof (cases "b < a")
  case True
  then have "{ck. checkpoint_at D content s (sc_epoch ck) = Some ck \<and> a \<le> sc_epoch ck \<and> sc_epoch ck \<le> b} = {}"
    by auto
  with True show ?thesis by (intro that [of "[]"]) (simp_all add: get_checkpoints_in_range_def)
next
  case False
  obtain rows where L: "is_listing (content (db s) CF_CHECKPOINTS) rows"
    and items: "rk_iterator_cf (dp_rocks D) (db s) CF_CHECKPOINTS (IterFrom (epoch_key a)) =
      map Inr (filter (\<lambda>(k', _). \<not> bytes_less k' (epoch_key a)) rows)" by (rule live_from)
  from checkpoint_rows [OF assms L] obtain cks where rows: "rows = map (checkpoint_row_of D) cks"
    and sorted: "sorted_wrt (<) (map sc_epoch cks)"
    and set: "set cks = {ck. checkpoint_at D content s (sc_epoch ck) = Some ck}"
    and de: "\<forall>ck \<in> set cks. dp_de_checkpoint D (snd (checkpoint_row_of D ck)) = Inr ck" .
  let ?from = "filter (\<lambda>ck. a \<le> sc_epoch ck) cks"
  let ?cks = "filter (\<lambda>ck. a \<le> sc_epoch ck \<and> sc_epoch ck \<le> b) cks"
  have start: "filter (\<lambda>(k', _). \<not> bytes_less k' (epoch_key a)) rows = map (checkpoint_row_of D) ?from"
    by (simp add: rows filter_map comp_def checkpoint_row_of_def epoch_order linorder_not_less)
  have "sorted_wrt bytes_less (map fst (map (checkpoint_row_of D) ?from))"
    using sorted by (simp add: sorted_wrt_map checkpoint_row_of_def epoch_order sorted_wrt_filter)
  from bounded_rows [OF this, of "\<lambda>key. b < decode_epoch_key key"] epoch_keys_ordered
  have loop: "loopM (bounded_row (\<lambda>key. b < decode_epoch_key key) body) acc (map (checkpoint_row_of D) ?from) =
      foldM body acc (map (checkpoint_row_of D) ?cks)" for acc and body :: "_ \<Rightarrow> _ \<Rightarrow> ('d, 'b, 'h, 'g, _) store_op"
    unfolding bounded_loop
    by (simp add: filter_map comp_def checkpoint_row_of_def linorder_not_less conj_commute order_less_trans)
  have "get_checkpoints_in_range D a b s = (Ok ?cks, s)"
    using False collect_checkpoints [of ?cks "[]" s] de
    by (simp add: get_checkpoints_in_range_def items start loop_items loop del: map_map list.map_comp)
  then show ?thesis using sorted set by (intro that [of ?cks]) (auto simp: sorted_wrt_map sorted_wrt_filter)
qed

lemma put_checkpoint_value:
  assumes ok: "checkpoints_ok D content s" and rw: "\<not> read_only s" and ser: "dp_ser_checkpoint D ck = Inr v"
  obtains d where "put_checkpoint D ck s = (Ok (), s\<lparr>db := d\<rparr>)"
    and "checkpoints_ok D content (s\<lparr>db := d\<rparr>)"
    and "checkpoint_at D content (s\<lparr>db := d\<rparr>) = (checkpoint_at D content s)(sc_epoch ck \<mapsto> ck)"
    and "\<forall>cf. cf \<noteq> CF_CHECKPOINTS \<longrightarrow> content d cf = content (db s) cf"
proof -
  obtain d where put: "db_put D CF_CHECKPOINTS (epoch_key (sc_epoch ck)) v s = (Ok (), s\<lparr>db := d\<rparr>)"
    and X: "content d = (content (db s))(CF_CHECKPOINTS :=
      (content (db s) CF_CHECKPOINTS)(epoch_key (sc_epoch ck) \<mapsto> v))" by (rule live_put)
  have "put_checkpoint D ck s = (Ok (), s\<lparr>db := d\<rparr>)"
    using rw ser put by (simp add: put_checkpoint_def require_writable_def encode_bincode_def tryM_run)
  then show ?thesis using checkpoints_put [OF ok ser, of "s\<lparr>db := d\<rparr>"] by (rule that) (simp_all add: X)
qed

text \<open>Pruning: the epochs below the bound are distinct, so that their count cannot overflow.\<close>

lemma prune_checkpoint_row_step:
  "n + 1 < 2 ^ 64 \<Longrightarrow> prune_checkpoint_row D (batch, of_nat n) (checkpoint_row_of D ck) =
     returnM (batch @ [DeleteCf CF_CHECKPOINTS (epoch_key (sc_epoch ck))], of_nat (Suc n))"
  by (simp add: prune_checkpoint_row_def checkpoint_row_of_def plain_add_count fun_eq_iff del: of_nat_Suc)

lemma count_checkpoints:
  "n + length cks < 2 ^ 64 \<Longrightarrow>
    foldM (prune_checkpoint_row D) (batch, of_nat n) (map (checkpoint_row_of D) cks) s =
      (Ok (batch @ map (\<lambda>ck. DeleteCf CF_CHECKPOINTS (epoch_key (sc_epoch ck))) cks, of_nat (n + length cks)), s)"
proof (induction cks arbitrary: batch n)
  case (Cons ck cks)
  from Cons.prems have "n + 1 < 2 ^ 64" and less: "Suc n + length cks < 2 ^ 64" by simp_all
  from prune_checkpoint_row_step [OF this(1), of batch ck]
    Cons.IH [OF less, of "batch @ [DeleteCf CF_CHECKPOINTS (epoch_key (sc_epoch ck))]"]
  show ?case by (simp del: of_nat_Suc)
qed simp

lemma epochs_below:
  assumes "sorted_wrt (<) (map sc_epoch cks)" and "\<forall>ck \<in> set cks. sc_epoch ck < e"
  shows "length cks = card (sc_epoch ` set cks)" and "length cks < 2 ^ 64"
proof -
  have "distinct (map sc_epoch cks)" using assms(1) by (simp add: strict_sorted_iff)
  then show len: "length cks = card (sc_epoch ` set cks)" by (metis distinct_card length_map set_map)
  have "sc_epoch ` set cks \<subseteq> {..<e}" using assms(2) by auto
  then have "unat ` sc_epoch ` set cks \<subseteq> {..<unat e}" by (auto simp: word_less_nat_alt)
  then have "card (unat ` sc_epoch ` set cks) \<le> unat e" by (metis card_lessThan card_mono finite_lessThan)
  moreover have "card (unat ` sc_epoch ` set cks) = length cks"
    unfolding len by (rule card_image) (simp add: inj_on_def word_unat_eq_iff)
  ultimately show "length cks < 2 ^ 64" using unat_bound [of e] by simp
qed

lemma prune_checkpoints_value:
  assumes ok: "checkpoints_ok D content s" and rw: "\<not> read_only s"
  obtains d n where "prune_checkpoints_before_epoch D e s = (Ok n, s\<lparr>db := d\<rparr>)"
    and "checkpoints_ok D content (s\<lparr>db := d\<rparr>)"
    and "checkpoint_at D content (s\<lparr>db := d\<rparr>) = (\<lambda>e'. if e' < e then None else checkpoint_at D content s e')"
    and "unat n = card {e'. e' < e \<and> checkpoint_at D content s e' \<noteq> None}"
    and "\<forall>cf. cf \<noteq> CF_CHECKPOINTS \<longrightarrow> content d cf = content (db s) cf"
proof -
  obtain rows where L: "is_listing (content (db s) CF_CHECKPOINTS) rows"
    and items: "rk_iterator_cf (dp_rocks D) (db s) CF_CHECKPOINTS IterStart = map Inr rows" by (rule live_start)
  from checkpoint_rows [OF ok L] obtain cks where rows: "rows = map (checkpoint_row_of D) cks"
    and sorted: "sorted_wrt (<) (map sc_epoch cks)"
    and set: "set cks = {ck. checkpoint_at D content s (sc_epoch ck) = Some ck}"
    and de: "\<forall>ck \<in> set cks. dp_de_checkpoint D (snd (checkpoint_row_of D ck)) = Inr ck" .
  let ?cks = "filter (\<lambda>ck. sc_epoch ck < e) cks"
  let ?batch = "map (\<lambda>ck. DeleteCf CF_CHECKPOINTS (epoch_key (sc_epoch ck))) ?cks"
  have sub: "sorted_wrt (<) (map sc_epoch ?cks)" using sorted by (simp add: sorted_wrt_map sorted_wrt_filter)
  have len: "length ?cks = card (sc_epoch ` set ?cks)" "length ?cks < 2 ^ 64"
    using epochs_below [OF sub, of e] by simp_all
  have epochs: "sc_epoch ` set ?cks = {e'. e' < e \<and> checkpoint_at D content s e' \<noteq> None}"
  proof (intro equalityI subsetI)
    fix e' assume "e' \<in> {e'. e' < e \<and> checkpoint_at D content s e' \<noteq> None}"
    then obtain ck where "e' < e" and ck: "checkpoint_at D content s e' = Some ck" by auto
    with checkpoint_at_epoch(1) [OF ok ck] show "e' \<in> sc_epoch ` set ?cks"
      by (intro image_eqI [of _ _ ck]) (auto simp: set)
  qed (auto simp: set)
  have "sorted_wrt bytes_less (map fst (map (checkpoint_row_of D) cks))"
    using sorted by (simp add: sorted_wrt_map checkpoint_row_of_def epoch_order)
  moreover have "e \<le> decode_epoch_key k'" if "length k = 8" "length k' = 8" "bytes_less k k'" "e \<le> decode_epoch_key k" for k k'
    using epoch_keys_ordered [OF that(1-3)] that(4) by simp
  ultimately have "filter (\<lambda>(k, _). length k = 8)
      (takeWhile (\<lambda>(k, _). \<not> (length k = 8 \<and> e \<le> decode_epoch_key k)) (map (checkpoint_row_of D) cks)) =
      filter (\<lambda>(k, _). length k = 8 \<and> \<not> e \<le> decode_epoch_key k) (map (checkpoint_row_of D) cks)"
    by (rule bounded_rows)
  then have loop: "loopM (bounded_row (\<lambda>key. e \<le> decode_epoch_key key) body) acc (map (checkpoint_row_of D) cks) =
      foldM body acc (map (checkpoint_row_of D) ?cks)" for acc and body :: "_ \<Rightarrow> _ \<Rightarrow> ('d, 'b, 'h, 'g, _) store_op"
    by (simp add: bounded_loop) (simp add: filter_map comp_def checkpoint_row_of_def linorder_not_le)
  obtain d where wr: "db_write D ?batch s = (Ok (), s\<lparr>db := d\<rparr>)" and X: "content d = apply_batch ?batch (content (db s))"
    by (rule live_write)
  define d' where "d' = (if e = 0 \<or> ?cks = [] then db s else d)"
  have run: "prune_checkpoints_before_epoch D e s = (Ok (of_nat (length ?cks)), s\<lparr>db := d'\<rparr>)"
  proof (cases "e = 0")
    case True
    then show ?thesis using rw by (simp add: prune_checkpoints_before_epoch_def require_writable_def tryM_run d'_def)
  next
    case False
    have "(0 < (of_nat (length ?cks) :: usize)) = (?cks \<noteq> [])"
      using len(2) by (cases "?cks = []") (auto simp: word_less_nat_alt unat_of_nat take_bit_eq_mod)
    with False rw wr count_checkpoints [of 0 ?cks "[]" s] len(2) show ?thesis
      by (cases "?cks = []")
         (simp_all add: prune_checkpoints_before_epoch_def require_writable_def tryM_run items rows loop_items loop d'_def
           del: map_map list.map_comp)
  qed
  have X': "content d' = apply_batch ?batch (content (db s))"
    using X by (cases "?cks = []") (auto simp: d'_def)
  have row: "content d' CF_CHECKPOINTS k = (if \<exists>ck \<in> set ?cks. k = epoch_key (sc_epoch ck) then None
      else content (db s) CF_CHECKPOINTS k)" for k
    unfolding X' apply_deletes by auto
  have at: "checkpoint_at D content (s\<lparr>db := d'\<rparr>) e' = (if e' < e then None else checkpoint_at D content s e')" for e'
  proof -
    have "checkpoint_at D content s e' = None" if "\<not> (\<exists>ck \<in> set ?cks. e' = sc_epoch ck)" "e' < e"
      using that checkpoint_at_epoch(1) [OF ok, of e'] by (cases "checkpoint_at D content s e'") (auto simp: set)
    then show ?thesis by (auto simp: checkpoint_at_def row)
  qed
  show ?thesis
  proof (rule that [OF run])
    show "checkpoints_ok D content (s\<lparr>db := d'\<rparr>)"
      using ok by (auto simp: checkpoints_ok_def row split: if_splits)
    show "checkpoint_at D content (s\<lparr>db := d'\<rparr>) = (\<lambda>e'. if e' < e then None else checkpoint_at D content s e')"
      using at by (simp add: fun_eq_iff)
    show "unat (of_nat (length ?cks) :: usize) = card {e'. e' < e \<and> checkpoint_at D content s e' \<noteq> None}"
      using len unfolding epochs by (simp add: unat_of_nat take_bit_eq_mod)
    show "\<forall>cf. cf \<noteq> CF_CHECKPOINTS \<longrightarrow> content d' cf = content (db s) cf"
      unfolding X' by (auto simp: apply_deletes_other)
  qed
qed

text \<open>An attestation reads back, also from a later state that still has its row.\<close>

lemma attestation_value:
  assumes "\<not> read_only s" and ser: "dp_ser_attested D a = Inr v"
  obtains d where "put_attestation D h a s = (Ok (), s\<lparr>db := d\<rparr>)"
    and "content d = (content (db s))(CF_ATTESTED := (content (db s) CF_ATTESTED)(hash_key h \<mapsto> v))"
    and "\<And>t. content (db t) CF_ATTESTED (hash_key h) = content d CF_ATTESTED (hash_key h) \<Longrightarrow>
      get_attestation D h t = (Ok (Some a), t)"
proof -
  obtain d where put: "db_put D CF_ATTESTED (hash_key h) v s = (Ok (), s\<lparr>db := d\<rparr>)"
    and X: "content d = (content (db s))(CF_ATTESTED := (content (db s) CF_ATTESTED)(hash_key h \<mapsto> v))" by (rule live_put)
  show ?thesis
  proof (rule that [OF _ X])
    show "put_attestation D h a s = (Ok (), s\<lparr>db := d\<rparr>)"
      using assms put by (simp add: put_attestation_def require_writable_def tryM_run)
    show "get_attestation D h t = (Ok (Some a), t)"
      if "content (db t) CF_ATTESTED (hash_key h) = content d CF_ATTESTED (hash_key h)" for t
      using that de_ser_attested [OF ser] by (simp add: get_attestation_def X)
  qed
qed

end

end
