(* ===== verification/Statistics.thy ===== *)
theory Statistics
  imports Scans
begin

text \<open>
  Statistics and the plain accessors of \<open>src/store.rs\<close>. \<open>stats\<close> scans whole families; the lemmas
  show that its counts are the numbers of rows, that the minimum height it reads is the one the
  store works with, and that it changes nothing.
\<close>

section \<open>Operations\<close>

definition count_cf_entries :: "('d, 'b, 'h, 'g) deps \<Rightarrow> string \<Rightarrow> ('d, 'b, 'h, 'g, u64) store_op" where
  "count_cf_entries D cf_name =
     tryM (cf_handle D cf_name) (\<lambda>_.
     tryM (db_iter D cf_name IterStart) (\<lambda>items.
     foldM (\<lambda>n item. tryM (next_item item) (\<lambda>_. liftM (plain_add (dp_oc D) n 1))) 0 items))"

definition sum_cf_live_data_size_estimates :: "('d, 'b, 'h, 'g) deps \<Rightarrow> ('d, 'b, 'h, 'g, u64) store_op" where
  "sum_cf_live_data_size_estimates D =
     foldM (\<lambda>sum name.
         tryM (cf_handle D name) (\<lambda>_.
         tryM (\<lambda>s. (of_sum RocksDb
             (rk_property_int_cf (dp_rocks D) (db s) name ''rocksdb.estimate-live-data-size''), s)) (\<lambda>v.
         returnM (case v of Some x \<Rightarrow> saturating_add sum x | None \<Rightarrow> sum))))
       0 [CF_BLOCKS, CF_HEADERS, CF_CANONICAL, CF_METADATA, CF_ATTESTED, CF_CHECKPOINTS]"

definition read_min_retained_height :: "('d, 'b, 'h, 'g) deps \<Rightarrow> ('d, 'b, 'h, 'g, u64 option) store_op" where
  "read_min_retained_height D =
     tryM (cf_handle D CF_METADATA) (\<lambda>_.
     tryM (db_get D CF_METADATA (as_bytes META_MIN_HEIGHT)) (\<lambda>r.
     case r of
       None \<Rightarrow> returnM None
     | Some bytes \<Rightarrow>
         if length bytes \<noteq> 8
         then failM (Serialization (''stats: META_MIN_HEIGHT value must be exactly 8 bytes (little-endian u64), got ''
                @ dec_digits (length bytes) @ '' bytes''))
         else returnM (Some (from_le_bytes bytes))))"

definition stats :: "('d, 'b, 'h, 'g) deps \<Rightarrow> ('d, 'b, 'h, 'g, StorageStats) store_op" where
  "stats D =
     tryM (count_cf_entries D CF_BLOCKS) (\<lambda>blocks.
     tryM (count_cf_entries D CF_CANONICAL) (\<lambda>canonical.
     tryM (count_cf_entries D CF_HEADERS) (\<lambda>headers.
     tryM (count_cf_entries D CF_CHECKPOINTS) (\<lambda>checkpoints.
     tryM (count_cf_entries D CF_ATTESTED) (\<lambda>attested.
     tryM (getM chain_height) (\<lambda>t.
     tryM (read_min_retained_height D) (\<lambda>min_height.
     tryM (sum_cf_live_data_size_estimates D) (\<lambda>size.
     returnM \<lparr>st_block_count = blocks, st_canonical_block_count = canonical, st_header_count = headers,
       st_checkpoint_count = checkpoints, st_attested_count = attested, st_tip_height = t,
       st_min_height = min_height, st_total_size_bytes = size\<rparr>))))))))"

text \<open>Counters and settings read back.\<close>

definition get_tip :: "('d, 'b, 'h, 'g, ChainTip option) store_op" where
  "get_tip = getM tip"

definition warm_blocks_loaded_count :: "('d, 'b, 'h, 'g, usize) store_op" where
  "warm_blocks_loaded_count = getM warm_blocks_loaded"

definition cf_blocks_physical_get_count :: "('d, 'b, 'h, 'g, u64) store_op" where
  "cf_blocks_physical_get_count = getM cf_blocks_physical_gets"

definition cf_blocks_multi_get_batch_count :: "('d, 'b, 'h, 'g, u64) store_op" where
  "cf_blocks_multi_get_batch_count = getM cf_blocks_multi_get_batches"

definition get_readahead_size :: "('d, 'b, 'h, 'g, usize) store_op" where
  "get_readahead_size = getM readahead_size"

definition cf_blocks_stream_physical_get_count :: "('d, 'b, 'h, 'g, u64) store_op" where
  "cf_blocks_stream_physical_get_count = getM cf_blocks_stream_physical_gets"

definition cf_headers_physical_get_count :: "('d, 'b, 'h, 'g, u64) store_op" where
  "cf_headers_physical_get_count = getM cf_headers_physical_gets"

definition pipeline_write_batch_count :: "('d, 'b, 'h, 'g, u64) store_op" where
  "pipeline_write_batch_count = getM pipeline_write_batches"

section \<open>What they return\<close>

lemma unchanged_stats [frame_rules]:
  "unchanged g (count_cf_entries D cf)" "unchanged g (sum_cf_live_data_size_estimates D)"
  "unchanged g (read_min_retained_height D)"
proof -
  show count: "unchanged g (count_cf_entries D cf)" for cf
    unfolding count_cf_entries_def by (intro frame_rules)
  have size: "unchanged g (\<lambda>s. (of_sum RocksDb (rk_property_int_cf (dp_rocks D) (db s) name p), s))" for name p
    by (simp add: unchanged_def)
  show "unchanged g (sum_cf_live_data_size_estimates D)"
    unfolding sum_cf_live_data_size_estimates_def by (intro frame_rules size)
  show "unchanged g (read_min_retained_height D)"
    unfolding read_min_retained_height_def by (intro frame_rules)
qed

lemma unchanged_stats_all [frame_rules]: "unchanged g (stats D)"
  unfolding stats_def by (intro frame_rules)

lemma count_loop:
  "n + length xs < 2 ^ 64 \<Longrightarrow>
    foldM (\<lambda>n item. tryM (next_item item) (\<lambda>_. liftM (plain_add oc n 1))) (of_nat n) (map Inr xs) s =
      (Ok (of_nat (n + length xs)), s)"
proof (induction xs arbitrary: n)
  case (Cons x xs)
  then have "n + 1 < 2 ^ 64" by simp
  with Cons.IH [of "Suc n"] Cons.prems show ?case
    by (simp add: plain_add_count del: of_nat_Suc)
qed simp

lemma listing_length: "is_listing m xs \<Longrightarrow> length xs = card (dom m)"
  using is_listing_distinct [of m xs] distinct_card [of "map fst xs"]
  by (auto simp: is_listing_def dom_map_of_conv_image_fst)

context live_deps
begin

lemma count_cf_entries_value:
  assumes "cf \<in> set ALL_COLUMN_FAMILIES" and "card (dom (content (db s) cf)) < 2 ^ 64"
  shows "count_cf_entries D cf s = (Ok (of_nat (card (dom (content (db s) cf)))), s)"
proof -
  obtain rows where L: "is_listing (content (db s) cf) rows"
    and items: "rk_iterator_cf (dp_rocks D) (db s) cf IterStart = map Inr rows" by (rule live_start)
  from count_loop [of 0 rows "dp_oc D" s] assms(2) show ?thesis
    by (simp add: count_cf_entries_def tryM_run live_steps(1) [OF assms(1)] items listing_length [OF L]
)
qed

lemma read_min_value:
  assumes "meta_ok content s"
  shows "read_min_retained_height D s =
    (Ok (if content (db s) CF_METADATA (as_bytes META_MIN_HEIGHT) = None then None
         else Some (min_retained_height_cached s)), s)"
  using assms by (auto simp: read_min_retained_height_def meta_ok_def split: option.splits)

lemma sum_estimates_value: "\<exists>n. sum_cf_live_data_size_estimates D s = (Ok n, s)"
proof -
  obtain f where f: "\<And>name. rk_property_int_cf (dp_rocks D) (db s) name ''rocksdb.estimate-live-data-size'' = Inr (f name)"
    using live.property_live [of "db s" _ "''rocksdb.estimate-live-data-size''"] by metis
  show ?thesis
    by (simp add: sum_cf_live_data_size_estimates_def tryM_def f)
qed

lemma stats_value:
  assumes inv: "store_inv D content s"
    and "\<And>cf. cf \<in> {CF_BLOCKS, CF_CANONICAL, CF_HEADERS, CF_CHECKPOINTS, CF_ATTESTED} \<Longrightarrow>
      card (dom (content (db s) cf)) < 2 ^ 64"
  obtains size where "stats D s = (Ok
     \<lparr>st_block_count = of_nat (card (dom (content (db s) CF_BLOCKS))),
      st_canonical_block_count = of_nat (card (dom (content (db s) CF_CANONICAL))),
      st_header_count = of_nat (card (dom (content (db s) CF_HEADERS))),
      st_checkpoint_count = of_nat (card (dom (content (db s) CF_CHECKPOINTS))),
      st_attested_count = of_nat (card (dom (content (db s) CF_ATTESTED))),
      st_tip_height = chain_height s,
      st_min_height = (if content (db s) CF_METADATA (as_bytes META_MIN_HEIGHT) = None then None
        else Some (min_retained_height_cached s)),
      st_total_size_bytes = size\<rparr>, s)"
proof -
  obtain size where size: "sum_cf_live_data_size_estimates D s = (Ok size, s)"
    using sum_estimates_value by blast
  have "meta_ok content s" using inv by (simp add: store_inv_def)
  note min = read_min_value [OF this]
  have count: "count_cf_entries D cf s = (Ok (of_nat (card (dom (content (db s) cf)))), s)"
    if "cf \<in> {CF_BLOCKS, CF_CANONICAL, CF_HEADERS, CF_CHECKPOINTS, CF_ATTESTED}" for cf
    using that assms(2) by (intro count_cf_entries_value) (auto simp: ALL_COLUMN_FAMILIES_def)
  show ?thesis
    by (rule that [of size]) (simp add: stats_def tryM_run count min size)
qed

end

end
