(* ===== verification/Startup.thy ===== *)
theory Startup
  imports Column_Families Statistics Reads
begin

text \<open>
  Opening a store (\<open>open\<close>, \<open>open_readonly\<close> and \<open>load_tip\<close> of \<open>src/store.rs\<close>). The file system and
  the opening of the database are parameters; the state is the file \<open>canonical.bin\<close> on disk
  (\<open>None\<close> while it does not exist) and the result is the state of the opened store.

  The lemmas show that a store opened on the database another store has left behind satisfies the
  invariant again: nothing that a caller can see is kept in memory only.
\<close>

section \<open>Operations\<close>

record 'd startup_env =
  env_path_exists :: "string \<Rightarrow> bool"
  env_open_db :: "string \<Rightarrow> (string \<times> cf_options) list \<Rightarrow> string + 'd"
  env_open_db_read_only :: "string \<Rightarrow> (string \<times> cf_options) list \<Rightarrow> string + 'd"

type_synonym ('d, 'b, 'h, 'g, 'a) startup_op = "(bytes option, BlockStoreError, 'a) operation"

definition load_tip :: "('d, 'b, 'h, 'g) deps \<Rightarrow> 'd \<Rightarrow> ChainTip option result" where
  "load_tip D d =
     (if \<not> rk_cf_handle (dp_rocks D) d CF_METADATA
      then Err (Serialization ''missing CF_METADATA'')
      else tryR (of_sum RocksDb (rk_get_cf (dp_rocks D) d CF_METADATA (as_bytes META_TIP))) (\<lambda>r.
        case r of
          None \<Rightarrow> Ok None
        | Some raw \<Rightarrow> tryR (tip_from_bytes raw) (\<lambda>t. Ok (Some t))))"

text \<open>
  The struct as it is built from a configuration, before the persisted minimum height is loaded.
  \<open>filters\<close>: the database was opened with the pruning filters.
\<close>

definition new_store ::
  "('d, 'b, 'h, 'g) deps \<Rightarrow> BlockStoreConfig \<Rightarrow> bool \<Rightarrow> bool \<Rightarrow> 'd \<Rightarrow> CanonicalBin \<Rightarrow> bytes option \<Rightarrow>
    ChainTip option \<Rightarrow> ('d, 'b, 'h, 'g) store" where
  "new_store D config filters ro d bin dict t =
     (let shards = max (cfg_cache_shards config) 1 in
      \<lparr> db = d, compaction_filters = filters, read_only = ro, tip = t, warm_blocks_loaded = 0,
        compression_level = cfg_compression_level config,
        use_compression_dict = cfg_use_compression_dict config,
        max_decompressed_block_bytes = cfg_max_decompressed_block_bytes config,
        zstd_dict = dict, record_cache = Map.empty,
        block_cache = sharded_new (dp_block_lru D) (cfg_block_cache_capacity config) shards,
        cf_blocks_physical_gets = 0, cf_blocks_multi_get_batches = 0, cf_blocks_stream_physical_gets = 0,
        readahead_size = cfg_readahead_size config,
        header_cache = sharded_new (dp_header_lru D) (cfg_header_cache_capacity config) shards,
        cf_headers_physical_gets = 0,
        pipeline_batch_size = max (cfg_write_pipeline_batch_size config) 1,
        pipeline_flush_ms = max (cfg_write_pipeline_flush_ms config) 1,
        pipeline_channel_capacity = max (cfg_write_pipeline_channel_capacity config) 1,
        pipeline_write_batches = 0, canonical_bin = bin, min_retained_height_cached = 0,
        canonical_height_cache = [],
        canonical_height_cache_capacity = cfg_canonical_height_cache_capacity config,
        hash_to_height_cache = sharded_new (dp_height_lru D) (cfg_hash_to_height_cache_capacity config) shards \<rparr>)"

text \<open>\<open>if let Ok(Some(h)) = store.read_min_retained_height()\<close>: an error is ignored.\<close>

definition load_min_retained :: "('d, 'b, 'h, 'g) deps \<Rightarrow> ('d, 'b, 'h, 'g, unit) store_op" where
  "load_min_retained D =
     tryM (okM (read_min_retained_height D)) (\<lambda>r.
     case r of
       Some (Some h) \<Rightarrow> modifyM (\<lambda>s. s\<lparr>min_retained_height_cached := h\<rparr>)
     | _ \<Rightarrow> returnM ())"

definition warm_on_open :: "('d, 'b, 'h, 'g) deps \<Rightarrow> BlockStoreConfig \<Rightarrow> ('d, 'b, 'h, 'g, unit) store_op" where
  "warm_on_open D config =
     (if cfg_warm_cache_on_open config
      then tryM (warm_caches D (cfg_warm_cache_depth config)) (\<lambda>warmed.
           modifyM (\<lambda>s. s\<lparr>warm_blocks_loaded := warmed\<rparr>))
      else returnM ())"

text \<open>Run an operation on a store that was just built and return the store it leaves.\<close>

definition built :: "('d, 'b, 'h, 'g) store \<Rightarrow> ('d, 'b, 'h, 'g, unit) store_op \<Rightarrow>
    ('d, 'b, 'h, 'g, ('d, 'b, 'h, 'g) store) startup_op" where
  "built s m = (\<lambda>disk. case m s of
       (Ok _, s') \<Rightarrow> (Ok s', disk) | (Err e, _) \<Rightarrow> (Err e, disk) | (Panic p, _) \<Rightarrow> (Panic p, disk))"

text \<open>\<open>CanonicalBin::open_synced(&db, path, writable)\<close>.\<close>

definition open_bin ::
  "('d, 'b, 'h, 'g) deps \<Rightarrow> 'd \<Rightarrow> string \<Rightarrow> bool \<Rightarrow> ('d, 'b, 'h, 'g, CanonicalBin) startup_op" where
  "open_bin D d path writable =
     open_synced (dp_io D) (dp_oc D) (rk_cf_handle (dp_rocks D) d CF_CANONICAL)
       (rk_iterator_cf (dp_rocks D) d CF_CANONICAL IterStart) (canonical_bin_path path) writable"

definition open_store ::
  "('d, 'b, 'h, 'g) deps \<Rightarrow> 'd startup_env \<Rightarrow> BlockStoreConfig \<Rightarrow>
    ('d, 'b, 'h, 'g, ('d, 'b, 'h, 'g) store) startup_op" where
  "open_store D env config =
     tryM (io_try (dp_io D) CreateDbDir
            (''filesystem error creating database directory '' @ cfg_path config @ '': '')) (\<lambda>_.
     let pruning = cfg_enable_compaction_pruning config in
     tryM (liftM (column_family_descriptors D config pruning)) (\<lambda>cfs.
     tryM (liftM (of_sum RocksDb (env_open_db env (cfg_path config) cfs))) (\<lambda>d.
     tryM (open_bin D d (cfg_path config) True) (\<lambda>bin.
     tryM (liftM (resolve_zstd_dictionary D d (cfg_use_compression_dict config)
                    (cfg_zstd_dictionary_override config))) (\<lambda>dict.
     tryM (liftM (load_tip D d)) (\<lambda>t.
     built (new_store D config pruning False d bin dict t)
       (tryM (load_min_retained D) (\<lambda>_. warm_on_open D config))))))))"

definition open_readonly ::
  "('d, 'b, 'h, 'g) deps \<Rightarrow> 'd startup_env \<Rightarrow> string \<Rightarrow>
    ('d, 'b, 'h, 'g, ('d, 'b, 'h, 'g) store) startup_op" where
  "open_readonly D env path =
     (if \<not> env_path_exists env path
      then failM (Serialization (ERR_OPEN_READONLY_PATH_MISSING_PREFIX @ path))
      else
        let readonly_cfg = default_config\<lparr>cfg_path := path\<rparr> in
        tryM (liftM (column_family_descriptors D readonly_cfg False)) (\<lambda>cfs.
        tryM (liftM (of_sum RocksDb (env_open_db_read_only env path cfs))) (\<lambda>d.
        tryM (open_bin D d path False) (\<lambda>bin.
        tryM (liftM (resolve_zstd_dictionary D d (cfg_use_compression_dict readonly_cfg)
                       (cfg_zstd_dictionary_override readonly_cfg))) (\<lambda>dict.
        tryM (liftM (load_tip D d)) (\<lambda>t.
        built (new_store D readonly_cfg False True d bin dict t) (load_min_retained D)))))))"

section \<open>The invariant after a restart\<close>

lemma tip_bytes_inject: "tip_from_bytes (tip_to_bytes t) = Ok t' \<Longrightarrow> t' = t"
  by (simp add: tip_from_to)

lemma built_Ok: "built s m disk = (Ok s', disk') \<longleftrightarrow> m s = (Ok (), s') \<and> disk' = disk"
  by (auto simp: built_def split: prod.splits outcome.splits)

text \<open>
  A freshly built store over the content that a store \<open>t\<close> in its invariant has left, with a
  dictionary that still covers the frames of \<open>t\<close>.
\<close>

definition same_dict :: "('d, 'b, 'h, 'g) store \<Rightarrow> bool \<Rightarrow> bytes option \<Rightarrow> bool" where
  "same_dict t use_dict dict \<longleftrightarrow>
     active_dict t = None \<or> active_dict t = (if use_dict then dict else None)"

text \<open>
  When the dictionary survives: the frames of \<open>t\<close> need none, or the configuration asks for one and
  either its row is the one \<open>t\<close> uses or the same override is given again.
\<close>

definition dict_kept ::
  "('d \<Rightarrow> db_content) \<Rightarrow> ('d, 'b, 'h, 'g) store \<Rightarrow> bool \<Rightarrow> bytes option \<Rightarrow> bool" where
  "dict_kept content t use_dict override \<longleftrightarrow>
     active_dict t = None \<or> use_dict \<and> zstd_dict t \<noteq> Some [] \<and>
       (override = None \<and> content (db t) CF_METADATA (as_bytes META_ZSTD_DICT) = zstd_dict t \<or>
        override \<noteq> None \<and> override = zstd_dict t)"

context live_deps
begin

lemma dict_kept_same:
  fixes t :: "('d, 'b, 'h, 'g) store"
  assumes "dict_kept content t use_dict override" and X: "content d = content (db t)"
    and res: "resolve_zstd_dictionary D d use_dict override = Ok dict"
  shows "same_dict t use_dict dict"
proof (cases "active_dict t = None")
  case False
  then have act: "active_dict t = zstd_dict t" by (auto simp: active_dict_def split: if_splits)
  have "dict = zstd_dict t" "use_dict"
    using assms(1) False res
    by (auto simp: dict_kept_def resolve_zstd_dictionary_def load_zstd_dict_from_db_def live.get_eq X
        split: option.splits if_splits)
  with act show ?thesis by (simp add: same_dict_def)
qed (simp add: same_dict_def)

lemma restart_rows:
  fixes s t :: "('d, 'b, 'h, 'g) store"
  assumes inv: "store_inv D content t" and X: "content (db s) = content (db t)"
    and dict: "same_dict t (use_compression_dict s) (zstd_dict s)"
    and min: "min_retained_height_cached s = min_retained_height_cached t"
  shows "rows_ok D content s"
proof -
  have fr: "block_frame D (active_dict s) b c" if "block_frame D (active_dict t) b c" for b c
    using that dict by (auto simp: same_dict_def active_dict_def block_frame_def frame_of_def split: if_splits)
  have "stored_header D content s = stored_header D content t"
    by (simp add: fun_eq_iff stored_header_def X)
  moreover have "rows_ok D content t" using inv by (simp add: store_inv_def data_inv_def)
  ultimately show ?thesis unfolding rows_ok_def X min using fr by metis
qed

lemma new_store_inv:
  fixes t :: "('d, 'b, 'h, 'g) store"
  assumes inv: "store_inv D content t" and X: "content d = content (db t)"
    and dict: "same_dict t (cfg_use_compression_dict config) dict"
    and bin: "bin_ok bin" "\<not> ro \<longrightarrow> bin_writable bin"
      "\<And>h x. bin_slot bin h = Some x \<Longrightarrow> content d CF_CANONICAL (height_key h) = Some (hash_key x)"
    and s: "s = (new_store D config filters ro d bin dict (tip t))\<lparr>min_retained_height_cached := min_retained_height_cached t\<rparr>"
  shows "store_inv D content s"
proof -
  have "rows_ok D content s"
    by (rule restart_rows [OF inv]) (simp_all add: X dict s new_store_def Let_def)
  moreover have "blocks_cached D content s" "headers_cached D content s" "records_cached D content s"
    by (simp_all add: s new_store_def Let_def blocks_cached_def headers_cached_def records_cached_def
        cache_wf_new blru.peek_new hlru.peek_new)
  moreover have "index_ok content s"
    using inv bin by (simp add: s new_store_def Let_def store_inv_def index_ok_def X btree.get_empty btree.invar_empty)
  moreover have "meta_ok content s"
    using inv by (simp add: s new_store_def Let_def store_inv_def meta_ok_def X cong: option.case_cong)
  ultimately show ?thesis by (simp add: store_inv_def data_inv_def)
qed

lemma open_bin_Ok:
  fixes t :: "('d, 'b, 'h, 'g) store"
  assumes inv: "store_inv D content t" and X: "content d = content (db t)"
    and run: "open_bin D d path w disk = (Ok bin, disk')"
  shows "bin_ok bin" and "w \<longrightarrow> bin_writable bin"
    and "bin_slot bin h = Some x \<Longrightarrow> content d CF_CANONICAL (height_key h) = Some (hash_key x)"
proof -
  have run': "open_synced (dp_io D) (dp_oc D) True (rk_iterator_cf (dp_rocks D) d CF_CANONICAL IterStart)
      (canonical_bin_path path) w disk = (Ok bin, disk')"
    using run by (simp add: open_bin_def)
  obtain rows where "is_listing (content d CF_CANONICAL) rows"
    and "iterates (rk_iterator_cf (dp_rocks D) d CF_CANONICAL IterStart) rows"
    using iter_start [of d CF_CANONICAL] by blast
  note slots = open_synced_slots [OF run' this]
  then show "bin_ok bin" by simp
  have len: "length v = 32" if "content d CF_CANONICAL k = Some v" for k v
    using inv that unfolding store_inv_def index_ok_def X by blast
  show "content d CF_CANONICAL (height_key h) = Some (hash_key x)" if "bin_slot bin h = Some x"
  proof -
    from slots that obtain v where "content d CF_CANONICAL (height_key h) = Some v" "x = bytes32_new v" by blast
    with len [of "height_key h" v] show ?thesis by (simp add: keys_of_decode)
  qed
  from run' show "w \<longrightarrow> bin_writable bin" by (rule open_synced_Ok) simp
qed

lemma load_tip_Ok:
  "meta_ok content t \<Longrightarrow> content d = content (db t) \<Longrightarrow> load_tip D d = Ok (tip t)"
  by (cases "tip t") (simp_all add: load_tip_def live.get_eq meta_ok_def tip_from_to)

lemma load_min_Ok:
  assumes meta: "meta_ok content t" and X: "content (db s) = content (db t)"
    and zero: "min_retained_height_cached s = 0"
  shows "load_min_retained D s = (Ok (), s\<lparr>min_retained_height_cached := min_retained_height_cached t\<rparr>)"
proof -
  have "read_min_retained_height D s = (Ok (if content (db t) CF_METADATA (as_bytes META_MIN_HEIGHT) = None then None
      else Some (min_retained_height_cached t)), s)"
    using meta by (auto simp: read_min_retained_height_def X meta_ok_def split: option.splits)
  moreover have "min_retained_height_cached t = 0"
    if "content (db t) CF_METADATA (as_bytes META_MIN_HEIGHT) = None"
    using meta that by (simp add: meta_ok_def)
  moreover have "s\<lparr>min_retained_height_cached := 0\<rparr> = s" using zero by (cases s) simp
  ultimately show ?thesis by (auto simp: load_min_retained_def okM_def tryM_def)
qed

lemma warm_on_open_reads:
  assumes "store_inv D content s" and "warm_on_open D config s = (Ok (), s')"
  shows "store_inv D content s'" and "core s' = core s"
proof -
  have "store_inv D content s' \<and> core s' = core s"
  proof (cases "cfg_warm_cache_on_open config")
    case True
    with assms(2) obtain n s1 where run: "warm_caches D (cfg_warm_cache_depth config) s = (Ok n, s1)"
      and s': "s' = s1\<lparr>warm_blocks_loaded := n\<rparr>" by (auto simp: warm_on_open_def tryM_Ok)
    from yields_OkD [OF warm_caches_yields [OF assms(1)] reading_refl [OF assms(1)] run]
    have "reading D content s s1" by simp
    then show ?thesis by (simp add: s' reading_def)
  qed (use assms in \<open>simp add: warm_on_open_def\<close>)
  then show "store_inv D content s'" "core s' = core s" by auto
qed

text \<open>What \<open>open\<close> and \<open>open_readonly\<close> return over the content a store \<open>t\<close> has left.\<close>

lemma open_store_run:
  assumes "open_store D env config disk = (Ok s, disk')"
  obtains cfs d bin dict t' where "column_family_descriptors D config (cfg_enable_compaction_pruning config) = Ok cfs"
    and "env_open_db env (cfg_path config) cfs = Inr d"
    and "open_bin D d (cfg_path config) True disk = (Ok bin, disk')"
    and "resolve_zstd_dictionary D d (cfg_use_compression_dict config) (cfg_zstd_dictionary_override config) = Ok dict"
    and "load_tip D d = Ok t'"
    and "tryM (load_min_retained D) (\<lambda>_. warm_on_open D config)
      (new_store D config (cfg_enable_compaction_pruning config) False d bin dict t') = (Ok (), s)"
  using assms unfolding open_store_def Let_def
  by (auto simp: tryM_Ok io_try_def of_sum_Ok built_Ok split: option.splits)

lemma open_readonly_run:
  assumes "open_readonly D env path disk = (Ok s, disk')"
  obtains cfs d bin dict t' where "column_family_descriptors D (default_config\<lparr>cfg_path := path\<rparr>) False = Ok cfs"
    and "env_open_db_read_only env path cfs = Inr d"
    and "open_bin D d path False disk = (Ok bin, disk')"
    and "resolve_zstd_dictionary D d True None = Ok dict"
    and "load_tip D d = Ok t'" and "env_path_exists env path"
    and "load_min_retained D (new_store D (default_config\<lparr>cfg_path := path\<rparr>) False True d bin dict t') = (Ok (), s)"
  using assms unfolding open_readonly_def Let_def
  by (auto simp: tryM_Ok of_sum_Ok built_Ok default_config_def split: if_splits)

lemma new_store_fields:
  "db (new_store D config filters ro d bin dict t') = d" "tip (new_store D config filters ro d bin dict t') = t'"
  "min_retained_height_cached (new_store D config filters ro d bin dict t') = 0"
  "read_only (new_store D config filters ro d bin dict t') = ro"
  by (simp_all add: new_store_def Let_def)

lemma restart_sees_the_same:
  fixes s t :: "('d, 'b, 'h, 'g) store"
  assumes "content (db s) = content (db t)" "min_retained_height_cached s = min_retained_height_cached t"
  shows "canonical_at content s = canonical_at content t" "stored_header D content s = stored_header D content t"
  using assms by (simp_all add: fun_eq_iff canonical_at_def stored_header_def)

lemma open_store_restart:
  fixes t :: "('d, 'b, 'h, 'g) store"
  assumes inv: "store_inv D content t" and run: "open_store D env config disk = (Ok s, disk')"
    and db: "\<And>cfs d. env_open_db env (cfg_path config) cfs = Inr d \<Longrightarrow> content d = content (db t)"
    and dict: "dict_kept content t (cfg_use_compression_dict config) (cfg_zstd_dictionary_override config)"
  shows "store_inv D content s" and "tip s = tip t" and "min_retained_height_cached s = min_retained_height_cached t"
    and "canonical_at content s = canonical_at content t" and "\<not> read_only s" and "content (db s) = content (db t)"
proof -
  obtain cfs d bin dict t' where op: "env_open_db env (cfg_path config) cfs = Inr d"
    and bin: "open_bin D d (cfg_path config) True disk = (Ok bin, disk')"
    and res: "resolve_zstd_dictionary D d (cfg_use_compression_dict config) (cfg_zstd_dictionary_override config) = Ok dict"
    and t': "load_tip D d = Ok t'"
    and fin: "tryM (load_min_retained D) (\<lambda>_. warm_on_open D config)
      (new_store D config (cfg_enable_compaction_pruning config) False d bin dict t') = (Ok (), s)"
    by (rule open_store_run [OF run])
  have X: "content d = content (db t)" by (rule db [OF op])
  have meta: "meta_ok content t" using inv by (simp add: store_inv_def)
  have tip: "t' = tip t" using t' load_tip_Ok [OF meta X] by simp
  let ?s0 = "new_store D config (cfg_enable_compaction_pruning config) False d bin dict (tip t)"
  let ?s1 = "?s0\<lparr>min_retained_height_cached := min_retained_height_cached t\<rparr>"
  have "load_min_retained D ?s0 = (Ok (), ?s1)"
    by (rule load_min_Ok [OF meta]) (simp_all add: new_store_fields X)
  with fin have warm: "warm_on_open D config ?s1 = (Ok (), s)" by (simp add: tip tryM_run)
  have "store_inv D content ?s1"
    by (rule new_store_inv [OF inv X dict_kept_same [OF dict X res] open_bin_Ok(1) [OF inv X bin] _ open_bin_Ok(3) [OF inv X bin] refl])
       (use open_bin_Ok(2) [OF inv X bin] in simp_all)
  note w = warm_on_open_reads [OF this warm]
  show "store_inv D content s" by (rule w(1))
  show "tip s = tip t" "min_retained_height_cached s = min_retained_height_cached t" "\<not> read_only s"
    and eq: "content (db s) = content (db t)"
    using core_eqD [OF w(2)] by (simp_all add: new_store_fields X)
  then show "canonical_at content s = canonical_at content t"
    using restart_sees_the_same(1) by blast
qed

lemma open_readonly_restart:
  fixes t :: "('d, 'b, 'h, 'g) store"
  assumes inv: "store_inv D content t" and run: "open_readonly D env path disk = (Ok s, disk')"
    and db: "\<And>cfs d. env_open_db_read_only env path cfs = Inr d \<Longrightarrow> content d = content (db t)"
    and dict: "dict_kept content t True None"
  shows "store_inv D content s" and "tip s = tip t" and "min_retained_height_cached s = min_retained_height_cached t"
    and "canonical_at content s = canonical_at content t" and "read_only s" and "disk' = disk"
    and "content (db s) = content (db t)"
proof -
  obtain cfs d bin dict t' where op: "env_open_db_read_only env path cfs = Inr d"
    and bin: "open_bin D d path False disk = (Ok bin, disk')"
    and res: "resolve_zstd_dictionary D d True None = Ok dict"
    and t': "load_tip D d = Ok t'"
    and fin: "load_min_retained D (new_store D (default_config\<lparr>cfg_path := path\<rparr>) False True d bin dict t') = (Ok (), s)"
    by (rule open_readonly_run [OF run])
  have X: "content d = content (db t)" by (rule db [OF op])
  have meta: "meta_ok content t" using inv by (simp add: store_inv_def)
  have tip: "t' = tip t" using t' load_tip_Ok [OF meta X] by simp
  let ?s0 = "new_store D (default_config\<lparr>cfg_path := path\<rparr>) False True d bin dict (tip t)"
  have "load_min_retained D ?s0 = (Ok (), ?s0\<lparr>min_retained_height_cached := min_retained_height_cached t\<rparr>)"
    by (rule load_min_Ok [OF meta]) (simp_all add: new_store_fields X)
  with fin have s: "s = ?s0\<lparr>min_retained_height_cached := min_retained_height_cached t\<rparr>" by (simp add: tip)
  have "same_dict t (cfg_use_compression_dict (default_config\<lparr>cfg_path := path\<rparr>)) dict"
    using dict_kept_same [OF dict X res] by (simp add: default_config_def)
  from new_store_inv [OF inv X this open_bin_Ok(1) [OF inv X bin] _ open_bin_Ok(3) [OF inv X bin] s]
  show "store_inv D content s" by simp
  show "tip s = tip t" "min_retained_height_cached s = min_retained_height_cached t" "read_only s"
    and "content (db s) = content (db t)"
    by (simp_all add: s new_store_fields X)
  then show "canonical_at content s = canonical_at content t"
    using restart_sees_the_same(1) by blast
  have "open_synced (dp_io D) (dp_oc D) (rk_cf_handle (dp_rocks D) d CF_CANONICAL)
      (rk_iterator_cf (dp_rocks D) d CF_CANONICAL IterStart) (canonical_bin_path path) False disk = (Ok bin, disk')"
    using bin by (simp add: open_bin_def)
  then show "disk' = disk" by (rule open_synced_Ok) simp
qed

end

end
