(* ===== verification/Streaming.thy ===== *)
theory Streaming
  imports Scans Reads
begin

text \<open>
  The streaming range query (\<open>stream_blocks_in_range\<close> and the iterator \<open>StreamBlocksInRange\<close> of
  \<open>src/pipeline.rs\<close>): a scan of \<open>CF_CANONICAL\<close> captures the heights and hashes of the range, the
  bodies are loaded one by one as the iterator is advanced.

  The lemmas show that the captured list is the canonical chain of the range in ascending order
  and that advancing the iterator yields, position by position, what \<open>get_block\<close> returns.
\<close>

section \<open>Operations\<close>

record StreamBlocksInRange =
  stream_pairs :: "(u64 \<times> bytes32) list"
  stream_idx :: nat

text \<open>The read options of the block reads: \<open>set_readahead_size\<close>.\<close>

definition blocks_stream_read_options :: "('d, 'b, 'h, 'g) store \<Rightarrow> usize" where
  "blocks_stream_read_options s = readahead_size s"

definition stream_row ::
  "u64 \<Rightarrow> u64 \<Rightarrow> (u64 \<times> bytes32) list \<Rightarrow> bytes \<times> bytes \<Rightarrow>
    ('s, BlockStoreError, (u64 \<times> bytes32) list flow) operation" where
  "stream_row start_height end_height pairs row =
     (case row of (k, v) \<Rightarrow>
        if length k \<noteq> 8
        then failM (Serialization ''stream_blocks_in_range: CF_CANONICAL key must be exactly 8 bytes'')
        else let height = decode_height_key k in
          if end_height < height then returnM (Break pairs)
          else if height < start_height then returnM (Continue pairs)
          else if length v \<noteq> 32
          then failM (Serialization ''stream_blocks_in_range: CF_CANONICAL value must be exactly 32 bytes'')
          else returnM (Continue (pairs @ [(height, bytes32_new v)])))"

definition stream_blocks_in_range ::
  "('d, 'b, 'h, 'g) deps \<Rightarrow> u64 \<Rightarrow> u64 \<Rightarrow> ('d, 'b, 'h, 'g, StreamBlocksInRange) store_op" where
  "stream_blocks_in_range D start_height end_height =
     tryM (cf_handle D CF_BLOCKS) (\<lambda>_.
     if end_height < start_height then returnM \<lparr>stream_pairs = [], stream_idx = 0\<rparr>
     else
       tryM (cf_handle D CF_CANONICAL) (\<lambda>_.
       tryM (getM (\<lambda>s. rk_iterator_cf_opt (dp_rocks D) (db s) CF_CANONICAL (height_key start_height)
              (if end_height < - 1 then Some (height_key (saturating_add end_height 1)) else None)
              (height_key start_height))) (\<lambda>items.
       tryM (loopM (\<lambda>acc item. tryM (next_item item) (stream_row start_height end_height acc)) [] items) (\<lambda>pairs.
       returnM \<lparr>stream_pairs = pairs, stream_idx = 0\<rparr>))))"

text \<open>The result of a call as a value: what a \<open>match\<close> on it sees.\<close>

definition catchM :: "('s, 'e, 'a) operation \<Rightarrow> ('s, 'e, 'e + 'a) operation" where
  "catchM m = (\<lambda>s. case m s of
       (Ok x, s') \<Rightarrow> (Ok (Inr x), s')
     | (Err e, s') \<Rightarrow> (Ok (Inl e), s')
     | (Panic p, s') \<Rightarrow> (Panic p, s'))"

definition db_get_opt ::
  "('d, 'b, 'h, 'g) deps \<Rightarrow> string \<Rightarrow> bytes \<Rightarrow> ('d, 'b, 'h, 'g, bytes option) store_op" where
  "db_get_opt D cf k =
     (\<lambda>s. (of_sum RocksDb (rk_get_cf_opt (dp_rocks D) (db s) cf k (blocks_stream_read_options s)), s))"

text \<open>\<open>Iterator::next\<close>: the item, \<open>None\<close> at the end, and the iterator advanced.\<close>

definition stream_next ::
  "('d, 'b, 'h, 'g) deps \<Rightarrow> StreamBlocksInRange \<Rightarrow>
    ('d, 'b, 'h, 'g, L2Block result option \<times> StreamBlocksInRange) store_op" where
  "stream_next D stream =
     (if length (stream_pairs stream) \<le> stream_idx stream then returnM (None, stream)
      else case stream_pairs stream ! stream_idx stream of (expected_height, hash) \<Rightarrow>
        let stream' = stream\<lparr>stream_idx := Suc (stream_idx stream)\<rparr> in
        tryM (block_cache_get D hash) (\<lambda>hit.
        case hit of
          Some block \<Rightarrow> returnM (Some (Ok block), stream')
        | None \<Rightarrow>
            tryM (modifyM (\<lambda>s. s\<lparr>cf_blocks_stream_physical_gets := cf_blocks_stream_physical_gets s + 1\<rparr>)) (\<lambda>_.
            tryM (catchM (db_get_opt D CF_BLOCKS (hash_key hash))) (\<lambda>r.
            case r of
              Inl e \<Rightarrow> returnM (Some (Err e), stream')
            | Inr None \<Rightarrow> returnM (Some (Err (BlockNotFound hash)), stream')
            | Inr (Some raw) \<Rightarrow>
                tryM (catchM (deserialize_block D raw)) (\<lambda>r.
                case r of
                  Inl e \<Rightarrow> returnM (Some (Err e), stream')
                | Inr block \<Rightarrow>
                    tryM (block_cache_insert D hash block) (\<lambda>_.
                    tryM (header_cache_insert D hash (blk_header block)) (\<lambda>_.
                    returnM (Some (Ok block), stream'))))))))"

section \<open>The captured list\<close>

lemma yields_catchM:
  assumes "yields P m Q"
  shows "yields P (catchM m) (\<lambda>r. case r of Inl e \<Rightarrow> True | Inr x \<Rightarrow> Q x)"
  using assms unfolding yields_def catchM_def
  by (auto split: prod.splits outcome.splits)

text \<open>The rows of a range of heights: keys of eight bytes between the two bounds.\<close>

lemma height_order: "bytes_less (height_key a) (height_key b) \<longleftrightarrow> a < b"
  by (simp add: height_key_def to_be_bytes_mono)

definition chain_pair :: "bytes \<times> bytes \<Rightarrow> u64 \<times> bytes32" where
  "chain_pair row = (decode_height_key (fst row), bytes32_new (snd row))"

lemma stream_row_in_range:
  "length k = 8 \<Longrightarrow> length v = 32 \<Longrightarrow> start_height \<le> decode_height_key k \<Longrightarrow> decode_height_key k \<le> end_height \<Longrightarrow>
    stream_row start_height end_height acc (k, v) = returnM (Continue (acc @ [chain_pair (k, v)]))"
  by (simp add: stream_row_def chain_pair_def Let_def leD)

lemma stream_rows:
  assumes "\<forall>(k, v) \<in> set rows. length k = 8 \<and> length v = 32 \<and>
      start_height \<le> decode_height_key k \<and> decode_height_key k \<le> end_height"
  shows "loopM (stream_row start_height end_height) acc rows s = (Ok (acc @ map chain_pair rows), s)"
  using assms
proof (induction rows arbitrary: acc)
  case (Cons row rows)
  obtain k v where row: "row = (k, v)" by force
  with Cons show ?case by (simp add: stream_row_in_range)
qed simp

lemma range_bounds:
  assumes "length k = 8"
  shows "\<not> bytes_less k (height_key a) \<longleftrightarrow> a \<le> decode_height_key k"
    and "(case if b < - 1 then Some (height_key (saturating_add b 1)) else None of
       None \<Rightarrow> True | Some u \<Rightarrow> bytes_less k u) \<longleftrightarrow> decode_height_key k \<le> b"
proof -
  have k: "k = height_key (decode_height_key k)" using assms by (simp add: keys_of_decode)
  show "\<not> bytes_less k (height_key a) \<longleftrightarrow> a \<le> decode_height_key k"
    by (subst k) (simp add: height_order linorder_not_less)
  show "(case if b < - 1 then Some (height_key (saturating_add b 1)) else None of
       None \<Rightarrow> True | Some u \<Rightarrow> bytes_less k u) \<longleftrightarrow> decode_height_key k \<le> b"
  proof (cases "b < - 1")
    case True
    then have "unat b + 1 < 2 ^ 64" by (simp add: word_less_nat_alt unsigned_minus_1_eq_mask mask_eq_exp_minus_1)
    then have sat: "saturating_add b 1 = b + 1" and succ: "unat (b + 1) = unat b + 1"
      by (simp_all add: saturating_add_def unat_add_below)
    have "bytes_less k (height_key (b + 1)) \<longleftrightarrow> decode_height_key k < b + 1"
      by (subst k) (simp add: height_order)
    also have "\<dots> \<longleftrightarrow> decode_height_key k \<le> b" using succ by (simp add: word_less_nat_alt word_le_nat_alt less_Suc_eq_le)
    finally show ?thesis using True by (simp add: sat)
  next
    case False
    then have "b = - 1" using word_order.not_eq_extremum by blast
    then show ?thesis by simp
  qed
qed

text \<open>
  The canonical rows of a range as a list: the captured pairs of a stream over a database whose
  canonical family holds eight-byte keys and 32-byte hashes.
\<close>

context live_deps
begin

lemma stream_blocks_in_range_value:
  assumes idx: "index_ok content s"
  obtains pairs where "stream_blocks_in_range D a b s = (Ok \<lparr>stream_pairs = pairs, stream_idx = 0\<rparr>, s)"
    and "sorted_wrt (<) (map fst pairs)"
    and "set pairs = {(n, bytes32_new v) | n v. a \<le> n \<and> n \<le> b \<and> content (db s) CF_CANONICAL (height_key n) = Some v}"
proof (cases "b < a")
  case True
  show ?thesis
    by (rule that [of "[]"]) (use True in \<open>auto simp: stream_blocks_in_range_def\<close>)
next
  case False
  let ?hi = "if b < - 1 then Some (height_key (saturating_add b 1)) else None"
  obtain xs where L: "is_listing (content (db s) CF_CANONICAL) xs"
    and it: "iterates (rk_iterator_cf_opt (dp_rocks D) (db s) CF_CANONICAL (height_key a) ?hi (height_key a))
      (filter (\<lambda>(k', _). \<not> bytes_less k' (height_key a) \<and> \<not> bytes_less k' (height_key a) \<and>
         (case ?hi of None \<Rightarrow> True | Some u \<Rightarrow> bytes_less k' u)) xs)"
    using iter_bounded [of "db s" CF_CANONICAL "height_key a" ?hi "height_key a"] by blast
  have shape: "length k = 8 \<and> length v = 32" if "(k, v) \<in> set xs" for k v
    using idx that is_listing_mem [OF L] unfolding index_ok_def by metis
  let ?rows = "filter (\<lambda>(k, _). a \<le> decode_height_key k \<and> decode_height_key k \<le> b) xs"
  have rows: "filter (\<lambda>(k', _). \<not> bytes_less k' (height_key a) \<and> \<not> bytes_less k' (height_key a) \<and>
         (case ?hi of None \<Rightarrow> True | Some u \<Rightarrow> bytes_less k' u)) xs = ?rows"
  proof (rule filter_cong [OF refl])
    fix r assume r: "r \<in> set xs"
    obtain k v where kv: "r = (k, v)" by force
    with r shape have "length k = 8" by simp
    from range_bounds [OF this]
    show "(case r of (k', _) \<Rightarrow> \<not> bytes_less k' (height_key a) \<and> \<not> bytes_less k' (height_key a) \<and>
         (case ?hi of None \<Rightarrow> True | Some u \<Rightarrow> bytes_less k' u)) =
       (case r of (k, _) \<Rightarrow> a \<le> decode_height_key k \<and> decode_height_key k \<le> b)"
      unfolding kv prod.case by simp
  qed
  have items: "rk_iterator_cf_opt (dp_rocks D) (db s) CF_CANONICAL (height_key a) ?hi (height_key a) = map Inr ?rows"
    using it live.iter_bounded_live [of _ "db s" CF_CANONICAL "height_key a" ?hi "height_key a"]
    unfolding rows by (fastforce simp: iterates_def)
  have "loopM (stream_row a b) [] ?rows s = (Ok (map chain_pair ?rows), s)"
    using stream_rows [of ?rows a b "[]" s] shape by fastforce
  then have run: "stream_blocks_in_range D a b s = (Ok \<lparr>stream_pairs = map chain_pair ?rows, stream_idx = 0\<rparr>, s)"
    using False by (simp add: stream_blocks_in_range_def items loop_items tryM_run)
  have "sorted_wrt bytes_less (map fst ?rows)"
    using L by (simp add: is_listing_def sorted_wrt_map sorted_wrt_filter)
  then have "sorted_wrt (\<lambda>r r'. bytes_less (fst r) (fst r')) ?rows" by (simp add: sorted_wrt_map)
  then have "sorted_wrt (\<lambda>r r'. decode_height_key (fst r) < decode_height_key (fst r')) ?rows"
    by (rule sorted_wrt_mono_rel [rotated])
       (use shape in \<open>auto simp: height_order [symmetric] keys_of_decode\<close>)
  then have sorted: "sorted_wrt (<) (map fst (map chain_pair ?rows))"
    by (simp add: sorted_wrt_map chain_pair_def)
  have "set (map chain_pair ?rows) =
      {(n, bytes32_new v) | n v. a \<le> n \<and> n \<le> b \<and> content (db s) CF_CANONICAL (height_key n) = Some v}" (is "?l = ?r")
  proof (intro equalityI subsetI)
    fix p assume "p \<in> ?l"
    then obtain k v where "(k, v) \<in> set xs" "a \<le> decode_height_key k" "decode_height_key k \<le> b"
      "p = (decode_height_key k, bytes32_new v)" by (auto simp: chain_pair_def)
    with shape [of k v] is_listing_mem [OF L, of k v] show "p \<in> ?r" by (auto simp: keys_of_decode)
  next
    fix p assume "p \<in> ?r"
    then obtain n v where "a \<le> n" "n \<le> b" "(height_key n, v) \<in> set xs" "p = (n, bytes32_new v)"
      using is_listing_mem [OF L] by blast
    then show "p \<in> ?l" by (force simp: chain_pair_def)
  qed
  from that [OF run sorted this] show ?thesis .
qed

end

context deps_laws
begin

text \<open>One item: the block of the captured hash, as \<open>get_block\<close> would return it.\<close>

lemma stream_next_yields:
  assumes inv: "store_inv D content s0" and more: "stream_idx stream < length (stream_pairs stream)"
    and p: "stream_pairs stream ! stream_idx stream = (n, h)"
  shows "yields (reading D content s0) (stream_next D stream) (\<lambda>(item, stream').
     stream' = stream\<lparr>stream_idx := Suc (stream_idx stream)\<rparr> \<and>
     (\<exists>r. item = Some r \<and> (\<forall>b. r = Ok b \<longrightarrow> known_block D content s0 h b) \<and> (\<forall>p. r \<noteq> Panic p)))"
proof -
  let ?Q = "\<lambda>(item, stream'). stream' = stream\<lparr>stream_idx := Suc (stream_idx stream)\<rparr> \<and>
     (\<exists>r. item = Some r \<and> (\<forall>b. r = Ok b \<longrightarrow> known_block D content s0 h b) \<and> (\<forall>p. r \<noteq> Panic p))"
  let ?st = "stream\<lparr>stream_idx := Suc (stream_idx stream)\<rparr>"
  have err: "yields (reading D content s0) (returnM (Some (Err e), ?st)) ?Q" for e
    by (rule yields_basic(1)) simp
  have ok: "yields (reading D content s0) (returnM (Some (Ok b), ?st)) ?Q" if "known_block D content s0 h b" for b
    using that by (intro yields_basic(1)) simp
  have opt: "yields (reading D content s0) (catchM (db_get_opt D CF_BLOCKS (hash_key h)))
      (\<lambda>r. case r of Inl e \<Rightarrow> True | Inr x \<Rightarrow> x = content (db s0) CF_BLOCKS (hash_key h))"
    by (rule yields_catchM [OF yields_readingI]) (auto simp: db_get_opt_def of_sum_Ok dest: get_opt_sound)
  have decode: "yields (reading D content s0) (tryM (catchM (deserialize_block D raw)) (\<lambda>r. case r of
         Inl e \<Rightarrow> returnM (Some (Err e), ?st)
       | Inr block \<Rightarrow> tryM (block_cache_insert D h block) (\<lambda>_. tryM (header_cache_insert D h (blk_header block)) (\<lambda>_.
           returnM (Some (Ok block), ?st))))) ?Q"
    if raw: "content (db s0) CF_BLOCKS (hash_key h) = Some raw" for raw
  proof -
    obtain b where b: "block_frame D (active_dict s0) b raw" "known_block D content s0 h b"
      "known_header D content s0 h (blk_header b)" using block_row [OF inv raw] by blast
    show ?thesis
      using b(2,3)
      by (intro yields_bind [OF yields_catchM [OF reading_deserialize [OF b(1)]]])
         (auto split: sum.splits intro!: err ok yields_bind [OF reading_inserts(1)] yields_bind [OF reading_inserts(2)])
  qed
  have miss: "yields (reading D content s0) (case r of
        Inl e \<Rightarrow> returnM (Some (Err e), ?st)
      | Inr None \<Rightarrow> returnM (Some (Err (BlockNotFound h)), ?st)
      | Inr (Some raw) \<Rightarrow> tryM (catchM (deserialize_block D raw)) (\<lambda>r. case r of
         Inl e \<Rightarrow> returnM (Some (Err e), ?st)
       | Inr block \<Rightarrow> tryM (block_cache_insert D h block) (\<lambda>_. tryM (header_cache_insert D h (blk_header block)) (\<lambda>_.
           returnM (Some (Ok block), ?st))))) ?Q"
    if "case r of Inl e \<Rightarrow> True | Inr x \<Rightarrow> x = content (db s0) CF_BLOCKS (hash_key h)" for r
    using that err decode by (cases r) (auto split: option.splits)
  show ?thesis
    unfolding stream_next_def p Let_def prod.case if_not_P [OF more [unfolded not_le [symmetric]]]
    by (intro yields_bind [OF reading_steps(4)] yields_option yields_bind [OF reading_counters(4)] yields_bind [OF opt] miss)
       (use ok in auto)
qed

end

context live_deps
begin

lemma stream_next_total: "\<exists>item stream' s'. stream_next D stream s = (Ok (item, stream'), s')"
proof (cases "stream_idx stream < length (stream_pairs stream)")
  case True
  obtain n h where p: "stream_pairs stream ! stream_idx stream = (n, h)" by force
  have de: "\<exists>r. catchM (deserialize_block D raw) t = (Ok r, t)" for raw and t :: "('d, 'b, 'h, 'g) store"
    by (cases "decompress_block_payload D t raw"; cases "dp_de_block D (projr (decompress_block_payload D t raw))")
       (auto simp: catchM_def deserialize_block_def tryM_def of_sum_def)
  have opt: "\<exists>r. catchM (db_get_opt D CF_BLOCKS k) t = (Ok r, t)" for k and t :: "('d, 'b, 'h, 'g) store"
    by (auto simp: catchM_def db_get_opt_def of_sum_def split: sum.splits)
  obtain hit t1 where hit: "block_cache_get D h s = (Ok hit, t1)" by (simp add: block_cache_get_def split_beta)
  show ?thesis
  proof (cases hit)
    case (Some b)
    with True hit show ?thesis by (simp add: stream_next_def p tryM_run Let_def)
  next
    case None
    let ?t2 = "t1\<lparr>cf_blocks_stream_physical_gets := cf_blocks_stream_physical_gets t1 + 1\<rparr>"
    obtain r where r: "catchM (db_get_opt D CF_BLOCKS (hash_key h)) ?t2 = (Ok r, ?t2)" using opt by blast
    have "\<forall>raw. \<exists>r. catchM (deserialize_block D raw) ?t2 = (Ok r, ?t2)" using de by blast
    then obtain raw' where raw: "\<And>raw. catchM (deserialize_block D raw) ?t2 = (Ok (raw' raw), ?t2)"
      unfolding choice_iff by blast
    from True None hit r raw show ?thesis
      by (auto simp: stream_next_def p tryM_run Let_def block_cache_insert_def header_cache_insert_def
          split: sum.splits option.splits)
  qed
qed (simp add: stream_next_def)

end

section \<open>Draining a stream\<close>

text \<open>The items of a \<open>for\<close> loop over the iterator.\<close>

fun stream_items ::
  "('d, 'b, 'h, 'g) deps \<Rightarrow> nat \<Rightarrow> StreamBlocksInRange \<Rightarrow> ('d, 'b, 'h, 'g, L2Block result list) store_op" where
  "stream_items D 0 stream = returnM []"
| "stream_items D (Suc n) stream =
     tryM (stream_next D stream) (\<lambda>(item, stream').
     case item of
       None \<Rightarrow> returnM []
     | Some r \<Rightarrow> tryM (stream_items D n stream') (\<lambda>rs. returnM (r # rs)))"

context deps_laws
begin

lemma stream_items_yields:
  assumes inv: "store_inv D content s0"
  shows "stream_idx stream + n \<le> length (stream_pairs stream) \<Longrightarrow>
    yields (reading D content s0) (stream_items D n stream)
      (\<lambda>rs. list_all2 (\<lambda>(height, h) r. (\<forall>b. r = Ok b \<longrightarrow> known_block D content s0 h b) \<and> (\<forall>p. r \<noteq> Panic p))
         (take n (drop (stream_idx stream) (stream_pairs stream))) rs)"
proof (induction n arbitrary: stream)
  case (Suc n)
  let ?ok = "\<lambda>(height, h) r. (\<forall>b. r = Ok b \<longrightarrow> known_block D content s0 h b) \<and> (\<forall>p. r \<noteq> Panic p)"
  let ?st = "stream\<lparr>stream_idx := Suc (stream_idx stream)\<rparr>"
  have more: "stream_idx stream < length (stream_pairs stream)" using Suc.prems by simp
  obtain m h where p: "stream_pairs stream ! stream_idx stream = (m, h)" by force
  have cons: "take (Suc n) (drop (stream_idx stream) (stream_pairs stream)) =
      (m, h) # take n (drop (Suc (stream_idx stream)) (stream_pairs stream))"
    using more p by (metis Cons_nth_drop_Suc take_Suc_Cons)
  have IH: "yields (reading D content s0) (stream_items D n ?st)
      (\<lambda>rs. list_all2 ?ok (take n (drop (Suc (stream_idx stream)) (stream_pairs stream))) rs)"
    using Suc.IH [of ?st] Suc.prems by simp
  show ?case
    unfolding stream_items.simps cons
    by (intro yields_bind [OF stream_next_yields [OF inv more p]])
       (auto intro!: yields_bind [OF IH] yields_basic(1))
qed (auto intro: yields_basic(1))

end

context live_deps
begin

lemma stream_items_total: "\<exists>rs s'. stream_items D n stream s = (Ok rs, s')"
proof (induction n arbitrary: stream s)
  case (Suc n)
  obtain item stream' s' where "stream_next D stream s = (Ok (item, stream'), s')" using stream_next_total by blast
  moreover obtain rs s'' where "stream_items D n stream' s' = (Ok rs, s'')" using Suc by blast
  ultimately show ?case by (cases item) (simp_all add: tryM_run)
qed simp

end

end
