(* ===== verification/Snapshot.thy ===== *)
theory Snapshot
  imports Reads Writes Scans
begin

text \<open>
  Snapshots (\<open>src/snapshot.rs\<close>) and the gossip encoding of blocks (\<open>src/wire.rs\<close>).

  The \<open>Write\<close> argument of \<open>export_snapshot\<close> is any writer that takes bytes up to some number and
  then fails, the \<open>Read\<close> argument of \<open>import_snapshot\<close> any reader of a byte string; the hasher is
  the bytes it has been fed. The lemmas give the stream an export writes, what a successful import
  has checked and stored, and that importing an exported stream is the same as putting its blocks.
\<close>

section \<open>Wire bytes\<close>

definition block_to_wire_bytes :: "('d, 'b, 'h, 'g) deps \<Rightarrow> L2Block \<Rightarrow> bytes result" where
  "block_to_wire_bytes D block =
     of_sum (\<lambda>e. Serialization (''wire serialization failed: '' @ e)) (dp_stream_block D block)"

definition block_from_wire_bytes :: "('d, 'b, 'h, 'g) deps \<Rightarrow> bytes \<Rightarrow> L2Block result" where
  "block_from_wire_bytes D bs =
     of_sum (\<lambda>e. Serialization (''wire deserialization failed: '' @ e)) (dp_parse_block D bs)"

section \<open>Writers and readers\<close>

record writer =
  wr_written :: bytes
  wr_room :: nat
  wr_error :: string

record reader =
  rd_bytes :: bytes
  rd_error :: string

definition write_all :: "bytes \<Rightarrow> (writer, string, unit) operation" where
  "write_all bs =
     (\<lambda>w. if length bs \<le> wr_room w
          then (Ok (), w\<lparr>wr_written := wr_written w @ bs, wr_room := wr_room w - length bs\<rparr>)
          else (Err (wr_error w), w\<lparr>wr_written := wr_written w @ take (wr_room w) bs, wr_room := 0\<rparr>))"

definition read_exact :: "nat \<Rightarrow> (reader, string, bytes) operation" where
  "read_exact n =
     (\<lambda>r. if n \<le> length (rd_bytes r)
          then (Ok (take n (rd_bytes r)), r\<lparr>rd_bytes := drop n (rd_bytes r)\<rparr>)
          else (Err (rd_error r), r\<lparr>rd_bytes := []\<rparr>))"

text \<open>An operation on the store next to a stream, and one on the stream with \<open>map_err\<close>.\<close>

type_synonym ('d, 'b, 'h, 'g, 'x, 'a) stream_op =
  "(('d, 'b, 'h, 'g) store \<times> 'x, BlockStoreError, 'a) operation"

definition on_stream ::
  "string \<Rightarrow> ('x, string, 'a) operation \<Rightarrow> ('d, 'b, 'h, 'g, 'x, 'a) stream_op" where
  "on_stream prefix m =
     (\<lambda>(s, x). case m x of (r, x') \<Rightarrow> (map_err (\<lambda>e. Serialization (prefix @ e)) r, (s, x')))"

section \<open>Export\<close>

definition export_block ::
  "('d, 'b, 'h, 'g) deps \<Rightarrow> bytes \<Rightarrow> u64 \<Rightarrow> ('d, 'b, 'h, 'g, writer, bytes) stream_op" where
  "export_block D hasher height =
     tryM (on_store (get_hash_by_height D height)) (\<lambda>h.
     case h of
       None \<Rightarrow> failM (Serialization (''export_snapshot: no canonical hash at height '' @ show_word height))
     | Some hash \<Rightarrow>
         tryM (on_store (db_get D CF_BLOCKS (hash_key hash))) (\<lambda>row.
         case row of
           None \<Rightarrow> failM (BlockNotFound hash)
         | Some compressed \<Rightarrow>
             let len_bytes = u32_to_le_bytes (of_nat (length compressed)) in
             tryM (on_stream ''snapshot write: '' (write_all len_bytes)) (\<lambda>_.
             tryM (on_stream ''snapshot write: '' (write_all compressed)) (\<lambda>_.
             returnM (hasher @ len_bytes @ compressed)))))"

definition export_snapshot ::
  "('d, 'b, 'h, 'g) deps \<Rightarrow> u64 \<Rightarrow> u64 \<Rightarrow> ('d, 'b, 'h, 'g, writer, SnapshotManifest) stream_op" where
  "export_snapshot D start_height end_height =
     tryM (liftM (plain_add (dp_oc D) (if start_height \<le> end_height then end_height - start_height else 0) 1)) (\<lambda>block_count.
     tryM (on_store (get_header_by_height D end_height)) (\<lambda>hdr.
     case hdr of
       None \<Rightarrow> failM (Serialization (''export_snapshot: no canonical block at end_height '' @ show_word end_height))
     | Some end_header \<Rightarrow>
         let manifest = \<lparr>sm_version = SNAPSHOT_VERSION, sm_start_height = start_height,
               sm_end_height = end_height, sm_block_count = block_count,
               sm_state_root = hd_state_root end_header, sm_checksum = 0\<rparr> in
         tryM (liftM (of_sum Serialization (dp_ser_manifest D manifest))) (\<lambda>manifest_bytes.
         tryM (on_stream ''snapshot write: '' (write_all manifest_bytes)) (\<lambda>_.
         tryM (on_store (cf_handle D CF_BLOCKS)) (\<lambda>_.
         tryM (foldM (export_block D) manifest_bytes (range_incl start_height end_height)) (\<lambda>hasher.
         let checksum = dp_sha256 D hasher in
         tryM (on_stream ''snapshot write: '' (write_all (bytes32_octets checksum))) (\<lambda>_.
         returnM (manifest\<lparr>sm_checksum := checksum\<rparr>))))))))"

section \<open>Import\<close>

text \<open>\<open>bincode::deserialize_from\<close>: on success the reader is left behind the value.\<close>

definition read_manifest ::
  "('d, 'b, 'h, 'g) deps \<Rightarrow> (reader, string, SnapshotManifest) operation" where
  "read_manifest D =
     (\<lambda>r. case dp_de_manifest D (rd_bytes r) of
            Inl e \<Rightarrow> (Err e, r)
          | Inr (manifest, rest) \<Rightarrow> (Ok manifest, r\<lparr>rd_bytes := rest\<rparr>))"

definition import_block ::
  "('d, 'b, 'h, 'g) deps \<Rightarrow> bytes \<times> bytes32 option \<Rightarrow> u64 \<Rightarrow>
    ('d, 'b, 'h, 'g, reader, bytes \<times> bytes32 option) stream_op" where
  "import_block D acc expected_height =
     (case acc of (hasher, prev_hash) \<Rightarrow>
        tryM (on_stream ''snapshot read: '' (read_exact 4)) (\<lambda>len_bytes.
        tryM (on_stream ''snapshot read: '' (read_exact (unat (u32_from_le_bytes len_bytes)))) (\<lambda>compressed.
        tryM (on_store (deserialize_block D compressed)) (\<lambda>block.
        if dp_block_height D block \<noteq> expected_height
        then failM (Serialization (''non-contiguous height: expected '' @ show_word expected_height @
               '', got '' @ show_word (dp_block_height D block)))
        else if (case prev_hash of None \<Rightarrow> False | Some prev \<Rightarrow> hd_parent_hash (blk_header block) \<noteq> prev)
        then failM (Serialization (''broken parent link at height '' @ show_word expected_height))
        else
          tryM (on_store (put_block D block True)) (\<lambda>_.
          returnM (hasher @ len_bytes @ compressed, Some (dp_block_hash D block)))))))"

definition import_snapshot ::
  "('d, 'b, 'h, 'g) deps \<Rightarrow> ('d, 'b, 'h, 'g, reader, SnapshotManifest) stream_op" where
  "import_snapshot D =
     tryM (on_stream ''invalid snapshot manifest: '' (read_manifest D)) (\<lambda>manifest.
     tryM (liftM (of_sum Serialization (dp_ser_manifest D manifest))) (\<lambda>manifest_bytes.
     if sm_version manifest \<noteq> SNAPSHOT_VERSION
     then failM (Serialization (''unsupported snapshot version: '' @ show_word (sm_version manifest)))
     else
       tryM (foldM (import_block D) (manifest_bytes, None)
              (range_incl (sm_start_height manifest) (sm_end_height manifest))) (\<lambda>(hasher, _).
       tryM (on_stream ''snapshot checksum read: '' (read_exact 32)) (\<lambda>checksum_bytes.
       if bytes32_new checksum_bytes \<noteq> dp_sha256 D hasher
       then failM (Serialization ''snapshot checksum mismatch'')
       else returnM manifest))))"

section \<open>The stream\<close>

definition frame_bytes :: "bytes \<Rightarrow> bytes" where
  "frame_bytes c = u32_to_le_bytes (of_nat (length c)) @ c"

definition stream_bytes :: "('d, 'b, 'h, 'g) deps \<Rightarrow> bytes \<Rightarrow> bytes list \<Rightarrow> bytes" where
  "stream_bytes D manifest_bytes frames =
     (let covered = manifest_bytes @ concat (map frame_bytes frames)
      in covered @ bytes32_octets (dp_sha256 D covered))"

lemma stream_steps_Ok:
  "on_store m (s, x) = (Ok y, sx) \<longleftrightarrow> (\<exists>s'. m s = (Ok y, s') \<and> sx = (s', x))"
  "on_stream p m' (s, x) = (Ok y', sx) \<longleftrightarrow> (\<exists>x'. m' x = (Ok y', x') \<and> sx = (s, x'))"
  by (auto simp: on_store_def on_stream_def map_err_Ok split: prod.splits)

lemma write_all_Ok:
  "write_all bs w = (Ok u, w') \<Longrightarrow> wr_written w' = wr_written w @ bs"
  by (auto simp: write_all_def split: if_splits)

lemma read_exact_Ok:
  "read_exact n r = (Ok bs, r') \<longleftrightarrow> length bs = n \<and> r = r'\<lparr>rd_bytes := bs @ rd_bytes r'\<rparr>"
  by (cases r, cases r') (auto simp: read_exact_def split: if_splits)

lemma read_exact_append: "length bs = n \<Longrightarrow> read_exact n (r\<lparr>rd_bytes := bs @ rest\<rparr>) = (Ok bs, r\<lparr>rd_bytes := rest\<rparr>)"
  by (simp add: read_exact_def)

lemma u32_octets: "length bs = 4 \<Longrightarrow> u32_to_le_bytes (u32_from_le_bytes bs) = bs"
  using octets_word [of bs, where 'a = 32] by (simp add: u32_to_le_bytes_def u32_from_le_bytes_def)

lemma unat_of_length: "length c < 2 ^ 32 \<Longrightarrow> unat (of_nat (length c) :: u32) = length c"
  by (simp add: unat_of_nat take_bit_eq_mod)

section \<open>What an export writes\<close>

definition exported :: "('d \<Rightarrow> db_content) \<Rightarrow> ('d, 'b, 'h, 'g) store \<Rightarrow> u64 \<Rightarrow> bytes \<Rightarrow> bool" where
  "exported content s n c \<longleftrightarrow>
     (\<exists>h. canonical_at content s n = Some h \<and> content (db s) CF_BLOCKS (hash_key h) = Some c)"

context deps_laws
begin

lemma export_block_Ok:
  assumes rd: "reading D content s0 s" and inv: "store_inv D content s0"
    and run: "export_block D hasher n (s, w) = (Ok hasher', (s', w'))"
  shows "\<exists>h c. canonical_at content s0 n = Some h \<and> content (db s0) CF_BLOCKS (hash_key h) = Some c \<and>
    hasher' = hasher @ frame_bytes c \<and> wr_written w' = wr_written w @ frame_bytes c \<and> reading D content s0 s'"
proof -
  obtain h c w1 where h: "get_hash_by_height D n s = (Ok (Some h), s')"
    and c: "rk_get_cf (dp_rocks D) (db s') CF_BLOCKS (hash_key h) = Inr (Some c)"
    and w1: "write_all (u32_to_le_bytes (of_nat (length c))) w = (Ok (), w1)" and w': "write_all c w1 = (Ok (), w')"
    and hs: "hasher' = hasher @ u32_to_le_bytes (of_nat (length c)) @ c"
    using run by (auto simp: export_block_def tryM_Ok stream_steps_Ok small_steps_Ok Let_def split: option.splits)
  from yields_OkD [OF get_hash_by_height_yields [OF inv] rd h]
  have rd': "reading D content s0 s'" and at: "canonical_at content s0 n = Some h" by auto
  have "db s' = db s0" using rd' core_eqD(1) by (auto simp: reading_def)
  then have "content (db s0) CF_BLOCKS (hash_key h) = Some c" using get_sound [OF c] by simp
  with at rd' hs write_all_Ok [OF w1] write_all_Ok [OF w'] show ?thesis by (auto simp: frame_bytes_def)
qed

lemma export_blocks_Ok:
  assumes inv: "store_inv D content s0" and "reading D content s0 s"
    and "foldM (export_block D) hasher ns (s, w) = (Ok hasher', (s', w'))"
  shows "\<exists>frames. list_all2 (exported content s0) ns frames \<and> hasher' = hasher @ concat (map frame_bytes frames) \<and>
    wr_written w' = wr_written w @ concat (map frame_bytes frames) \<and> reading D content s0 s'"
  using assms(2,3)
proof (induction ns arbitrary: hasher s w)
  case Nil
  then show ?case by auto
next
  case (Cons n ns)
  then obtain h1 s1 w1 where one: "export_block D hasher n (s, w) = (Ok h1, (s1, w1))"
    and rest: "foldM (export_block D) h1 ns (s1, w1) = (Ok hasher', (s', w'))"
    by (auto simp: tryM_Ok)
  from export_block_Ok [OF Cons.prems(1) inv one] obtain c where c: "exported content s0 n c"
    "h1 = hasher @ frame_bytes c" "wr_written w1 = wr_written w @ frame_bytes c" "reading D content s0 s1"
    by (auto simp: exported_def)
  from Cons.IH [OF c(4) rest] obtain frames where "list_all2 (exported content s0) ns frames"
    "hasher' = h1 @ concat (map frame_bytes frames)" "wr_written w' = wr_written w1 @ concat (map frame_bytes frames)"
    "reading D content s0 s'" by blast
  with c show ?case by (intro exI [of _ "c # frames"]) simp
qed

lemma export_snapshot_Ok:
  assumes inv: "store_inv D content s" and run: "export_snapshot D a b (s, w) = (Ok m, (s', w'))"
  shows "\<exists>mb frames. dp_ser_manifest D (m\<lparr>sm_checksum := 0\<rparr>) = Inr mb \<and>
    list_all2 (exported content s) (range_incl a b) frames \<and>
    wr_written w' = wr_written w @ stream_bytes D mb frames \<and>
    sm_version m = SNAPSHOT_VERSION \<and> sm_start_height m = a \<and> sm_end_height m = b \<and>
    (a \<le> b \<longrightarrow> b - a \<noteq> -1 \<longrightarrow> sm_block_count m = b - a + 1) \<and>
    sm_checksum m = dp_sha256 D (mb @ concat (map frame_bytes frames)) \<and> reading D content s s'"
proof -
  obtain hdr mb s1 w1 hasher w2 where hd: "get_header_by_height D b s = (Ok (Some hdr), s1)"
    and mb: "dp_ser_manifest D \<lparr>sm_version = SNAPSHOT_VERSION, sm_start_height = a, sm_end_height = b,
        sm_block_count = (if a \<le> b then b - a else 0) + 1, sm_state_root = hd_state_root hdr, sm_checksum = 0\<rparr> = Inr mb"
    and w1: "write_all mb w = (Ok (), w1)"
    and blocks: "foldM (export_block D) mb (range_incl a b) (s1, w1) = (Ok hasher, (s', w2))"
    and w': "write_all (bytes32_octets (dp_sha256 D hasher)) w2 = (Ok (), w')"
    and m: "m = \<lparr>sm_version = SNAPSHOT_VERSION, sm_start_height = a, sm_end_height = b,
        sm_block_count = (if a \<le> b then b - a else 0) + 1, sm_state_root = hd_state_root hdr, sm_checksum = dp_sha256 D hasher\<rparr>"
    using run unfolding export_snapshot_def
    by (auto simp: tryM_Ok stream_steps_Ok small_steps_Ok liftM_Ok plain_add_Ok of_sum_Ok Let_def split: option.splits)
  from yields_OkD [OF by_height_yields(3) [OF inv] reading_refl [OF inv] hd]
  have rd1: "reading D content s s1" by simp
  from export_blocks_Ok [OF inv rd1 blocks] obtain frames where "list_all2 (exported content s) (range_incl a b) frames"
    "hasher = mb @ concat (map frame_bytes frames)" "wr_written w2 = wr_written w1 @ concat (map frame_bytes frames)"
    "reading D content s s'" by blast
  with mb m write_all_Ok [OF w1] write_all_Ok [OF w'] show ?thesis
    by (intro exI [of _ mb] exI [of _ frames]) (simp add: stream_bytes_def Let_def)
qed

end

section \<open>What an import accepts\<close>

definition put_blocks :: "('d, 'b, 'h, 'g) deps \<Rightarrow> L2Block list \<Rightarrow> ('d, 'b, 'h, 'g, unit) store_op" where
  "put_blocks D blocks = forM blocks (\<lambda>b. tryM (put_block D b True) (\<lambda>_. returnM ()))"

fun linked :: "('d, 'b, 'h, 'g) deps \<Rightarrow> bytes32 option \<Rightarrow> L2Block list \<Rightarrow> bool" where
  "linked D prev [] = True"
| "linked D prev (b # bs) =
     ((case prev of None \<Rightarrow> True | Some h \<Rightarrow> hd_parent_hash (blk_header b) = h) \<and>
      linked D (Some (dp_block_hash D b)) bs)"

lemma import_block_Ok:
  assumes "import_block D (hasher, prev) n (s, r) = (Ok acc, (s', r'))"
  shows "\<exists>c b u. r = r'\<lparr>rd_bytes := frame_bytes c @ rd_bytes r'\<rparr> \<and> length c < 2 ^ 32 \<and>
    deserialize_block D c s = (Ok b, s) \<and> dp_block_height D b = n \<and>
    (case prev of None \<Rightarrow> True | Some h \<Rightarrow> hd_parent_hash (blk_header b) = h) \<and>
    put_block D b True s = (Ok u, s') \<and> acc = (hasher @ frame_bytes c, Some (dp_block_hash D b))"
proof -
  obtain lb r1 c b u where lb: "read_exact 4 r = (Ok lb, r1)" and c: "read_exact (unat (u32_from_le_bytes lb)) r1 = (Ok c, r')"
    and b: "deserialize_block D c s = (Ok b, s)" "dp_block_height D b = n"
      "case prev of None \<Rightarrow> True | Some h \<Rightarrow> hd_parent_hash (blk_header b) = h"
    and put: "put_block D b True s = (Ok u, s')" and acc: "acc = (hasher @ lb @ c, Some (dp_block_hash D b))"
    using assms
    by (cases prev) (auto simp: import_block_def tryM_Ok stream_steps_Ok deserialize_block_Ok split: if_splits)
  have len: "length lb = 4" "length c = unat (u32_from_le_bytes lb)" and r: "r = r'\<lparr>rd_bytes := lb @ c @ rd_bytes r'\<rparr>"
    using lb c by (auto simp: read_exact_Ok)
  have "u32_from_le_bytes lb = of_nat (length c)" by (simp add: len(2))
  then have "lb = u32_to_le_bytes (of_nat (length c))" using u32_octets [OF len(1)] by simp
  then have "frame_bytes c = lb @ c" by (simp add: frame_bytes_def)
  moreover have "length c < 2 ^ 32" using unat_bound [of "u32_from_le_bytes lb"] by (simp add: len(2))
  ultimately show ?thesis using r b put acc by (intro exI [of _ c] exI [of _ b]) auto
qed

text \<open>The blocks of a stream, each decoded in the state in which it is stored.\<close>

fun decoded ::
  "('d, 'b, 'h, 'g) deps \<Rightarrow> bytes list \<Rightarrow> L2Block list \<Rightarrow> ('d, 'b, 'h, 'g) store \<Rightarrow> bool" where
  "decoded D [] [] s \<longleftrightarrow> True"
| "decoded D (c # cs) (b # bs) s \<longleftrightarrow>
     length c < 2 ^ 32 \<and> deserialize_block D c s = (Ok b, s) \<and> decoded D cs bs (snd (put_block D b True s))"
| "decoded D _ _ s \<longleftrightarrow> False"

lemma import_blocks_Ok:
  assumes "foldM (import_block D) (hasher, prev) ns (s, r) = (Ok acc, (s', r'))"
  shows "\<exists>frames blocks. r = r'\<lparr>rd_bytes := concat (map frame_bytes frames) @ rd_bytes r'\<rparr> \<and>
    fst acc = hasher @ concat (map frame_bytes frames) \<and> map (dp_block_height D) blocks = ns \<and>
    linked D prev blocks \<and> decoded D frames blocks s \<and> put_blocks D blocks s = (Ok (), s')"
  using assms
proof (induction ns arbitrary: hasher prev s r)
  case Nil
  then show ?case by (intro exI [of _ "[]"]) (auto simp: put_blocks_def)
next
  case (Cons n ns)
  then obtain acc1 s1 r1 where one: "import_block D (hasher, prev) n (s, r) = (Ok acc1, (s1, r1))"
    and rest: "foldM (import_block D) acc1 ns (s1, r1) = (Ok acc, (s', r'))" by (auto simp: tryM_Ok)
  from import_block_Ok [OF one] obtain c b u where c: "r = r1\<lparr>rd_bytes := frame_bytes c @ rd_bytes r1\<rparr>" "length c < 2 ^ 32"
    "deserialize_block D c s = (Ok b, s)" "dp_block_height D b = n"
    "case prev of None \<Rightarrow> True | Some h \<Rightarrow> hd_parent_hash (blk_header b) = h"
    and put: "put_block D b True s = (Ok u, s1)" and acc1: "acc1 = (hasher @ frame_bytes c, Some (dp_block_hash D b))"
    by blast
  from Cons.IH [OF rest [unfolded acc1]] obtain frames blocks where
    "r1 = r'\<lparr>rd_bytes := concat (map frame_bytes frames) @ rd_bytes r'\<rparr>"
    "fst acc = (hasher @ frame_bytes c) @ concat (map frame_bytes frames)" "map (dp_block_height D) blocks = ns"
    "linked D (Some (dp_block_hash D b)) blocks" "decoded D frames blocks s1" "put_blocks D blocks s1 = (Ok (), s')"
    by blast
  with c put show ?case
    by (intro exI [of _ "c # frames"] exI [of _ "b # blocks"]) (auto simp: put_blocks_def tryM_run(1) tryM_assoc)
qed

lemma import_snapshot_Ok:
  assumes "import_snapshot D (s, r) = (Ok m, (s', r'))"
  shows "\<exists>mb read frames blocks sum. dp_de_manifest D (rd_bytes r) = Inr (m, read) \<and> dp_ser_manifest D m = Inr mb \<and>
    read = concat (map frame_bytes frames) @ sum @ rd_bytes r' \<and> length sum = 32 \<and>
    bytes32_new sum = dp_sha256 D (mb @ concat (map frame_bytes frames)) \<and> sm_version m = SNAPSHOT_VERSION \<and>
    map (dp_block_height D) blocks = range_incl (sm_start_height m) (sm_end_height m) \<and>
    linked D None blocks \<and> decoded D frames blocks s \<and> put_blocks D blocks s = (Ok (), s')"
proof -
  obtain r1 mb hasher prev r2 sum where man: "read_manifest D r = (Ok m, r1)" and mb: "dp_ser_manifest D m = Inr mb"
    and ver: "sm_version m = SNAPSHOT_VERSION"
    and blocks: "foldM (import_block D) (mb, None) (range_incl (sm_start_height m) (sm_end_height m)) (s, r1) =
      (Ok (hasher, prev), (s', r2))"
    and sum: "read_exact 32 r2 = (Ok sum, r')" "bytes32_new sum = dp_sha256 D hasher"
    using assms by (auto simp: import_snapshot_def tryM_Ok stream_steps_Ok liftM_Ok of_sum_Ok split: if_splits)
  have "dp_de_manifest D (rd_bytes r) = Inr (m, rd_bytes r1)"
    using man by (auto simp: read_manifest_def split: sum.splits)
  moreover from import_blocks_Ok [OF blocks] obtain frames bs where
    "r1 = r2\<lparr>rd_bytes := concat (map frame_bytes frames) @ rd_bytes r2\<rparr>" "hasher = mb @ concat (map frame_bytes frames)"
    "map (dp_block_height D) bs = range_incl (sm_start_height m) (sm_end_height m)"
    "linked D None bs" "decoded D frames bs s" "put_blocks D bs s = (Ok (), s')" by auto
  moreover have "length sum = 32" "r2 = r'\<lparr>rd_bytes := sum @ rd_bytes r'\<rparr>" using sum by (auto simp: read_exact_Ok)
  ultimately show ?thesis using mb ver sum(2)
    by (intro exI [of _ mb] exI [of _ "rd_bytes r1"] exI [of _ frames] exI [of _ bs] exI [of _ sum]) simp
qed

section \<open>Importing is putting the blocks\<close>

lemma put_blocks_Cons:
  "put_blocks D (b # bs) s = (Ok (), s') \<longleftrightarrow>
     (\<exists>u s1. put_block D b True s = (Ok u, s1) \<and> put_blocks D bs s1 = (Ok (), s'))"
  by (auto simp: put_blocks_def tryM_Ok tryM_assoc)

lemma import_block_run:
  assumes "length c < 2 ^ 32" and "deserialize_block D c s = (Ok b, s)" and "put_block D b True s = (Ok u, s')"
    and "case prev of None \<Rightarrow> True | Some h \<Rightarrow> hd_parent_hash (blk_header b) = h"
  shows "import_block D (hasher, prev) (dp_block_height D b) (s, r\<lparr>rd_bytes := frame_bytes c @ rest\<rparr>) =
    (Ok (hasher @ frame_bytes c, Some (dp_block_hash D b)), (s', r\<lparr>rd_bytes := rest\<rparr>))"
proof -
  have len: "unat (of_nat (length c) :: u32) = length c" by (rule unat_of_length [OF assms(1)])
  have ok: "\<not> (case prev of None \<Rightarrow> False | Some h \<Rightarrow> hd_parent_hash (blk_header b) \<noteq> h)"
    using assms(4) by (cases prev) auto
  have r1: "read_exact 4 (r\<lparr>rd_bytes := frame_bytes c @ rest\<rparr>) =
      (Ok (u32_to_le_bytes (of_nat (length c))), r\<lparr>rd_bytes := c @ rest\<rparr>)"
    by (simp add: frame_bytes_def read_exact_append)
  have r2: "read_exact (length c) (r\<lparr>rd_bytes := c @ rest\<rparr>) = (Ok c, r\<lparr>rd_bytes := rest\<rparr>)"
    by (rule read_exact_append) simp
  show ?thesis
    using ok by (simp add: import_block_def on_stream_def on_store_def tryM_run(1) r1 r2 len assms(2,3))
      (simp add: frame_bytes_def)
qed

lemma import_blocks_run:
  assumes "decoded D frames blocks s" and "linked D prev blocks" and "put_blocks D blocks s = (Ok (), s')"
  shows "\<exists>last. foldM (import_block D) (hasher, prev) (map (dp_block_height D) blocks)
      (s, r\<lparr>rd_bytes := concat (map frame_bytes frames) @ rest\<rparr>) =
    (Ok (hasher @ concat (map frame_bytes frames), last), (s', r\<lparr>rd_bytes := rest\<rparr>))"
  using assms
proof (induction D frames blocks s arbitrary: hasher prev rule: decoded.induct)
  case (1 D s)
  then show ?case by (simp add: put_blocks_def)
next
  case (2 D c cs b bs s)
  then obtain u s1 where put: "put_block D b True s = (Ok u, s1)" and rest: "put_blocks D bs s1 = (Ok (), s')"
    by (auto simp: put_blocks_Cons)
  have c: "length c < 2 ^ 32" "deserialize_block D c s = (Ok b, s)" and dec: "decoded D cs bs s1"
    using "2.prems"(1) put by auto
  have link: "case prev of None \<Rightarrow> True | Some h \<Rightarrow> hd_parent_hash (blk_header b) = h"
    and links: "linked D (Some (dp_block_hash D b)) bs" using "2.prems"(2) by simp_all
  have ih: "\<exists>last. foldM (import_block D) (hasher @ frame_bytes c, Some (dp_block_hash D b)) (map (dp_block_height D) bs)
      (s1, r\<lparr>rd_bytes := concat (map frame_bytes cs) @ rest\<rparr>) =
    (Ok ((hasher @ frame_bytes c) @ concat (map frame_bytes cs), last), (s', r\<lparr>rd_bytes := rest\<rparr>))"
    using "2.IH" [where hasher = "hasher @ frame_bytes c" and prev = "Some (dp_block_hash D b)"] dec links rest
    unfolding put snd_conv .
  with import_block_run [OF c put link, where hasher = hasher and r = r and rest = "concat (map frame_bytes cs) @ rest"] show ?case
    by (simp add: tryM_run(1))
qed auto

lemma import_snapshot_run:
  assumes man: "dp_de_manifest D (mb @ concat (map frame_bytes frames) @ digest @ rest) =
      Inr (m, concat (map frame_bytes frames) @ digest @ rest)" "dp_ser_manifest D m = Inr mb"
    and ver: "sm_version m = SNAPSHOT_VERSION"
    and heights: "map (dp_block_height D) blocks = range_incl (sm_start_height m) (sm_end_height m)"
    and blocks: "linked D None blocks" "decoded D frames blocks s" "put_blocks D blocks s = (Ok (), s')"
    and digest: "digest = bytes32_octets (dp_sha256 D (mb @ concat (map frame_bytes frames)))"
  shows "import_snapshot D (s, \<lparr>rd_bytes = mb @ concat (map frame_bytes frames) @ digest @ rest, rd_error = e\<rparr>) =
    (Ok m, (s', \<lparr>rd_bytes = rest, rd_error = e\<rparr>))"
proof -
  let ?r = "\<lambda>bs. \<lparr>rd_bytes = bs, rd_error = e\<rparr>"
  obtain last where fold: "foldM (import_block D) (mb, None) (range_incl (sm_start_height m) (sm_end_height m))
      (s, ?r (concat (map frame_bytes frames) @ digest @ rest)) =
    (Ok (mb @ concat (map frame_bytes frames), last), (s', ?r (digest @ rest)))"
    using import_blocks_run [OF blocks(2,1,3), where hasher = mb and r = "?r []" and rest = "digest @ rest"] by (auto simp: heights)
  have head: "on_stream p (read_manifest D) (s, ?r (mb @ concat (map frame_bytes frames) @ digest @ rest)) =
      (Ok m, (s, ?r (concat (map frame_bytes frames) @ digest @ rest)))" for p
    by (simp add: on_stream_def read_manifest_def man(1))
  have "read_exact 32 (?r (digest @ rest)) = (Ok digest, ?r rest)"
    using read_exact_append [where bs = digest and n = 32 and r = "?r []" and rest = rest] digest by simp
  then have tail: "on_stream p (read_exact 32) (s', ?r (digest @ rest)) = (Ok digest, (s', ?r rest))" for p
    by (simp add: on_stream_def)
  have check: "bytes32_new digest = dp_sha256 D (mb @ concat (map frame_bytes frames))" by (simp add: digest)
  show ?thesis unfolding import_snapshot_def
    by (simp add: tryM_run(1) head man(2) ver fold tail check)
qed

lemma unchanged_put_settings: "unchanged use_compression_dict (put_block D b canonical)"
  unfolding put_block_def Let_def record_cache_insert_def block_cache_insert_def header_cache_insert_def
    hash_to_height_insert_def insert_canonical_height_cache_def with_bin_def
  by (intro frame_rules) (auto simp: unchanged_def split: prod.splits)

context deps_laws
begin

text \<open>Plain frames decode in any store that uses no dictionary.\<close>

lemma plain_decoded:
  assumes "list_all2 (\<lambda>b c. block_frame D None b c \<and> length c < 2 ^ 32) blocks frames"
    and "\<not> use_compression_dict s" and "put_blocks D blocks s = (Ok (), s')"
  shows "decoded D frames blocks s"
  using assms
proof (induction blocks frames arbitrary: s rule: list_all2_induct)
  case (Cons b bs c cs)
  from Cons.prems(2) obtain u s1 where put: "put_block D b True s = (Ok u, s1)" "put_blocks D bs s1 = (Ok (), s')"
    by (auto simp: put_blocks_Cons)
  have "\<not> use_compression_dict s1"
    using unchangedD [OF unchanged_put_settings put(1)] Cons.prems(1) by simp
  moreover have "deserialize_block D c s = (Ok b, s)"
    using Cons.hyps(1) Cons.prems(1)
    by (auto simp: block_frame_def frame_of_def deserialize_block_Ok decompress_block_payload_def
        dest: plain_frame de_ser_block)
  ultimately show ?case using Cons put by simp
qed simp

end

text \<open>
  \<open>snapshot_chain\<close>: a range of the canonical chain consists of these blocks, stored as plain frames
  and linked by parent hash.
\<close>

definition snapshot_chain ::
  "('d, 'b, 'h, 'g) deps \<Rightarrow> ('d \<Rightarrow> db_content) \<Rightarrow> ('d, 'b, 'h, 'g) store \<Rightarrow> u64 \<Rightarrow> u64 \<Rightarrow> L2Block list \<Rightarrow> bool" where
  "snapshot_chain D content s a b blocks \<longleftrightarrow>
     list_all2 (\<lambda>blk n. canonical_at content s n = Some (dp_block_hash D blk) \<and>
        (\<exists>c. content (db s) CF_BLOCKS (hash_key (dp_block_hash D blk)) = Some c \<and>
          block_frame D None blk c \<and> length c < 2 ^ 32)) blocks (range_incl a b) \<and>
     map (dp_block_height D) blocks = range_incl a b \<and> linked D None blocks"

lemma snapshot_frames:
  assumes "snapshot_chain D content s a b blocks" and "list_all2 (exported content s) (range_incl a b) frames"
  shows "list_all2 (\<lambda>b c. block_frame D None b c \<and> length c < 2 ^ 32) blocks frames"
  using list_all2_trans [OF _ assms(1) [unfolded snapshot_chain_def, THEN conjunct1] assms(2)]
  by (auto simp: exported_def)

context deps_laws
begin

lemma import_of_export:
  assumes inv: "store_inv D content s" and chain: "snapshot_chain D content s a b blocks"
    and exp: "export_snapshot D a b (s, \<lparr>wr_written = [], wr_room = n, wr_error = we\<rparr>) = (Ok m, (s', w))"
    and target: "\<not> use_compression_dict t" and puts: "put_blocks D blocks t = (Ok (), t')"
  shows "import_snapshot D (t, \<lparr>rd_bytes = wr_written w @ rest, rd_error = re\<rparr>) =
    (Ok (m\<lparr>sm_checksum := 0\<rparr>), (t', \<lparr>rd_bytes = rest, rd_error = re\<rparr>))"
proof -
  from export_snapshot_Ok [OF inv exp] obtain mb frames where mb: "dp_ser_manifest D (m\<lparr>sm_checksum := 0\<rparr>) = Inr mb"
    and frames: "list_all2 (exported content s) (range_incl a b) frames"
    and bytes: "wr_written w = stream_bytes D mb frames"
    and fields: "sm_version m = SNAPSHOT_VERSION" "sm_start_height m = a" "sm_end_height m = b" by auto
  have "decoded D frames blocks t"
    by (rule plain_decoded [OF snapshot_frames [OF chain frames] target puts])
  moreover have "map (dp_block_height D) blocks = range_incl a b" "linked D None blocks"
    using chain by (simp_all add: snapshot_chain_def)
  ultimately have "import_snapshot D (t, \<lparr>rd_bytes = mb @ concat (map frame_bytes frames) @
        bytes32_octets (dp_sha256 D (mb @ concat (map frame_bytes frames))) @ rest, rd_error = re\<rparr>) =
      (Ok (m\<lparr>sm_checksum := 0\<rparr>), (t', \<lparr>rd_bytes = rest, rd_error = re\<rparr>))"
    using puts fields mb de_ser_manifest [OF mb] by (intro import_snapshot_run) simp_all
  then show ?thesis by (simp add: bytes stream_bytes_def Let_def)
qed

text \<open>What the blocks of an import leave in the store.\<close>

lemma put_blocks_Ok:
  assumes "store_inv D content s" and "put_blocks D blocks s = (Ok (), s')"
  shows "store_inv D content s' \<and> (\<forall>k. content (db s) CF_BLOCKS (hash_key k) \<noteq> None \<longrightarrow>
      content (db s') CF_BLOCKS (hash_key k) = content (db s) CF_BLOCKS (hash_key k)) \<and>
    (\<forall>b\<in>set blocks. content (db s') CF_BLOCKS (hash_key (dp_block_hash D b)) \<noteq> None)"
  using assms
proof (induction blocks arbitrary: s)
  case Nil
  then show ?case by (simp add: put_blocks_def)
next
  case (Cons b bs)
  then obtain u s1 where put: "put_block D b True s = (Ok u, s1)" and rest: "put_blocks D bs s1 = (Ok (), s')"
    by (auto simp: put_blocks_Cons)
  note one = put_block_Ok [OF Cons.prems(1) put]
  have old: "content (db s1) CF_BLOCKS (hash_key k) = content (db s) CF_BLOCKS (hash_key k)"
    if "content (db s) CF_BLOCKS (hash_key k) \<noteq> None" for k
    using one that by (cases "content (db s) CF_BLOCKS (hash_key (dp_block_hash D b)) = None")
      (auto simp: same_rows_def block_rows_def dict_row_def)
  have new: "content (db s1) CF_BLOCKS (hash_key (dp_block_hash D b)) \<noteq> None"
    using one by (cases "content (db s) CF_BLOCKS (hash_key (dp_block_hash D b)) = None")
      (auto simp: same_rows_def block_rows_def dict_row_def)
  from Cons.IH [OF _ rest] one have ih: "store_inv D content s'"
    "\<And>k. content (db s1) CF_BLOCKS (hash_key k) \<noteq> None \<Longrightarrow>
      content (db s') CF_BLOCKS (hash_key k) = content (db s1) CF_BLOCKS (hash_key k)"
    "\<And>b'. b' \<in> set bs \<Longrightarrow> content (db s') CF_BLOCKS (hash_key (dp_block_hash D b')) \<noteq> None" by blast+
  show ?case
  proof (intro conjI allI impI ballI)
    show "store_inv D content s'" by (rule ih(1))
    show "content (db s') CF_BLOCKS (hash_key k) = content (db s) CF_BLOCKS (hash_key k)"
      if k: "content (db s) CF_BLOCKS (hash_key k) \<noteq> None" for k
    proof -
      have k1: "content (db s1) CF_BLOCKS (hash_key k) = content (db s) CF_BLOCKS (hash_key k)" by (rule old [OF k])
      with k have "content (db s1) CF_BLOCKS (hash_key k) \<noteq> None" by metis
      from ih(2) [OF this] k1 show ?thesis by simp
    qed
    show "content (db s') CF_BLOCKS (hash_key (dp_block_hash D b')) \<noteq> None" if "b' \<in> set (b # bs)" for b'
      using that ih(2) [OF new] new ih(3) by (cases "b' = b") auto
  qed
qed

end

end
