(* ===== verification/Lifecycle.thy ===== *)
theory Lifecycle
  imports Pruning Compaction Checkpoints Startup Streaming Snapshot
begin

text \<open>
  The public operations of a store as one type of requests that a caller may run one after another,
  what they expect of their caller, and that each keeps the store invariant when it returns.
\<close>

section \<open>Requests\<close>

datatype request =
    GetBlock bytes32 | GetHeader bytes32 | GetRecord bytes32 | HasBlock bytes32
  | GetBlocksByHash "bytes32 list" | GetHashByHeight u64 | GetBlockByHeight u64
  | GetBlocksInRange u64 u64 | BlocksToRevert u64 | ReadStats | StreamBlocks u64 u64 nat
  | GetCheckpoint u64 | GetAttestation bytes32
  | PutBlock L2Block bool | InitGenesis L2Block | ExtendChain L2Block | SetCanonical bytes32
  | SetCanonicalBatch "bytes32 list" | SetTip ChainTip | UpdateStatus bytes32 BlockStatus
  | Rollback u64 | Reorg u64 "bytes32 list" | PruneBefore u64
  | PutCheckpoint StoredCheckpoint | PruneCheckpoints u64 | PutAttestation bytes32 AttestedBlock
  | InvalidateBlock bytes32 | InvalidateHeader bytes32 | InvalidateRecord bytes32
  | DisableCanonicalBin | CompactAll | FlushAll

text \<open>A call whose result is not looked at any further.\<close>

definition call :: "('s, 'e, 'a) operation \<Rightarrow> ('s, 'e, unit) operation" where
  "call m = tryM m (\<lambda>_. returnM ())"

definition stream_all ::
  "('d, 'b, 'h, 'g) deps \<Rightarrow> u64 \<Rightarrow> u64 \<Rightarrow> nat \<Rightarrow> ('d, 'b, 'h, 'g, L2Block result list) store_op" where
  "stream_all D a b n =
     tryM (stream_blocks_in_range D a b) (\<lambda>stream.
     stream_items D (min n (length (stream_pairs stream))) stream)"

fun perform :: "('d, 'b, 'h, 'g) deps \<Rightarrow> request \<Rightarrow> ('d, 'b, 'h, 'g, unit) store_op" where
  "perform D (GetBlock h) = call (get_block D h)"
| "perform D (GetHeader h) = call (get_header D h)"
| "perform D (GetRecord h) = call (get_record D h)"
| "perform D (HasBlock h) = call (has_block D h)"
| "perform D (GetBlocksByHash hs) = call (get_blocks_by_hash D hs)"
| "perform D (GetHashByHeight n) = call (get_hash_by_height D n)"
| "perform D (GetBlockByHeight n) = call (get_block_by_height D n)"
| "perform D (GetBlocksInRange a b) = call (get_blocks_in_range D a b)"
| "perform D (BlocksToRevert n) = call (blocks_to_revert D n)"
| "perform D ReadStats = call (stats D)"
| "perform D (StreamBlocks a b n) = call (stream_all D a b n)"
| "perform D (GetCheckpoint e) = call (get_checkpoint D e)"
| "perform D (GetAttestation h) = call (get_attestation D h)"
| "perform D (PutBlock b canonical) = call (put D b canonical)"
| "perform D (InitGenesis b) = init_genesis D b"
| "perform D (ExtendChain b) = call (extend_chain D b)"
| "perform D (SetCanonical h) = set_canonical D h"
| "perform D (SetCanonicalBatch hs) = set_canonical_batch D hs"
| "perform D (SetTip t) = set_tip D t"
| "perform D (UpdateStatus h st) = update_status D h st"
| "perform D (Rollback n) = call (rollback_to_height D n)"
| "perform D (Reorg n hs) = call (apply_reorg D n hs)"
| "perform D (PruneBefore n) = call (prune_before_height D n)"
| "perform D (PutCheckpoint ck) = put_checkpoint D ck"
| "perform D (PruneCheckpoints e) = call (prune_checkpoints_before_epoch D e)"
| "perform D (PutAttestation h a) = put_attestation D h a"
| "perform D (InvalidateBlock h) = invalidate_block_cache_entry D h"
| "perform D (InvalidateHeader h) = invalidate_header_cache_entry D h"
| "perform D (InvalidateRecord h) = invalidate_record_cache_entry h"
| "perform D DisableCanonicalBin = disable_canonical_bin_acceleration"
| "perform D CompactAll = compact D"
| "perform D FlushAll = flush D"

text \<open>Requests that only read: whatever they return, they leave the invariant.\<close>

fun reads_only :: "request \<Rightarrow> bool" where
  "reads_only (GetBlock _) = True" | "reads_only (GetHeader _) = True" | "reads_only (GetRecord _) = True"
| "reads_only (HasBlock _) = True" | "reads_only (GetBlocksByHash _) = True"
| "reads_only (GetHashByHeight _) = True" | "reads_only (GetBlockByHeight _) = True"
| "reads_only (GetBlocksInRange _ _) = True" | "reads_only (BlocksToRevert _) = True"
| "reads_only ReadStats = True" | "reads_only (StreamBlocks _ _ _) = True"
| "reads_only (GetCheckpoint _) = True" | "reads_only (GetAttestation _) = True"
| "reads_only _ = False"

text \<open>
  What the code expects of its callers without checking it: the batch of \<open>set_canonical_batch\<close> and
  the genesis block do not touch a height that the height cache holds, the genesis block is new,
  and a reorganization does not wrap around above its ancestor or use a height cache of capacity 0.
\<close>

fun admitted ::
  "('d, 'b, 'h, 'g) deps \<Rightarrow> ('d \<Rightarrow> db_content) \<Rightarrow> request \<Rightarrow> ('d, 'b, 'h, 'g) store \<Rightarrow> bool" where
  "admitted D content (SetCanonicalBatch hs) s \<longleftrightarrow>
     (\<forall>h\<in>set hs. \<forall>hdr. known_header D content s h hdr \<longrightarrow> bt_get (canonical_height_cache s) (hd_height hdr) = None)"
| "admitted D content (InitGenesis b) s \<longleftrightarrow>
     content (db s) CF_BLOCKS (hash_key (dp_block_hash D b)) = None \<and> bt_get (canonical_height_cache s) 0 = None"
| "admitted D content (Reorg n hs) s \<longleftrightarrow> n + 1 \<noteq> 0 \<and> canonical_height_cache_capacity s \<noteq> 0"
| "admitted D content _ s \<longleftrightarrow> True"

section \<open>Families that the invariant does not look at\<close>

lemma inv_other_families:
  assumes inv: "store_inv D content s"
    and same: "\<And>cf. cf \<in> {CF_BLOCKS, CF_HEADERS, CF_CANONICAL, CF_METADATA} \<Longrightarrow> content d cf = content (db s) cf"
  shows "store_inv D content (s\<lparr>db := d\<rparr>)"
proof -
  have act: "active_dict (s\<lparr>db := d\<rparr>) = active_dict s" by (simp add: active_dict_def)
  have "data_inv D content (s\<lparr>db := d\<rparr>)"
    using inv by (simp add: store_inv_def data_inv_def rows_ok_def blocks_cached_def headers_cached_def
        records_cached_def known_defs same act)
  moreover have "index_ok content (s\<lparr>db := d\<rparr>)" "meta_ok content (s\<lparr>db := d\<rparr>)"
    using inv by (simp_all add: store_inv_def index_ok_def meta_ok_def same cong: option.case_cong)
  ultimately show ?thesis by (simp add: store_inv_def)
qed

text \<open>Batches that only delete checkpoints.\<close>

lemma yields_loopM:
  assumes step: "\<And>acc x. I acc \<Longrightarrow> yields P (f acc x) (\<lambda>r. case r of Continue a \<Rightarrow> I a | Break a \<Rightarrow> I a)"
    and "I acc"
  shows "yields P (loopM f acc xs) I"
  using assms(2)
proof (induction xs arbitrary: acc)
  case Nil
  then show ?case unfolding loopM.simps by (rule yields_basic(1))
next
  case (Cons x xs)
  show ?case unfolding loopM.simps
  proof (rule yields_bind [OF step [OF Cons.prems]])
    fix r assume "case r of Continue a \<Rightarrow> I a | Break a \<Rightarrow> I a"
    then show "yields P (case r of Continue acc' \<Rightarrow> loopM f acc' xs | Break acc' \<Rightarrow> returnM acc') I"
      using Cons.IH by (cases r) (auto intro: yields_basic(1))
  qed
qed

definition checkpoint_deletes :: "write_batch \<Rightarrow> bool" where
  "checkpoint_deletes batch \<longleftrightarrow> (\<forall>x\<in>set batch. \<exists>k. x = DeleteCf CF_CHECKPOINTS k)"

lemma checkpoint_deletes_other:
  "checkpoint_deletes batch \<Longrightarrow> cf \<noteq> CF_CHECKPOINTS \<Longrightarrow> apply_batch batch c cf = c cf"
proof (induction batch arbitrary: c)
  case (Cons x xs)
  then obtain k where "x = DeleteCf CF_CHECKPOINTS k" by (auto simp: checkpoint_deletes_def)
  with Cons show ?case by (auto simp: checkpoint_deletes_def)
qed simp

section \<open>Every request keeps the invariant\<close>

lemma call_Ok: "call m s = (Ok u, s') \<longleftrightarrow> (\<exists>x. m s = (Ok x, s'))"
  by (auto simp: call_def tryM_Ok)

lemma call_state: "call m s = (r, s') \<Longrightarrow> \<exists>x. m s = (x, s')"
  by (auto simp: call_def tryM_def split: prod.splits outcome.splits)

context deps_laws
begin

lemma reading_runs:
  "store_inv D content s \<Longrightarrow> yields (reading D content s) m Q \<Longrightarrow> m s = (r, s') \<Longrightarrow> reading D content s s'"
  by (drule yieldsD, erule reading_refl, assumption)

lemma unchanged_stream: "unchanged (\<lambda>s. s) (stream_blocks_in_range D a b)"
  unfolding stream_blocks_in_range_def stream_row_def Let_def by (intro frame_rules)

lemma stream_all_reads:
  assumes inv: "store_inv D content s" and run: "stream_all D a b n s = (r, s')"
  shows "reading D content s s'"
proof -
  obtain r1 s1 where one: "stream_blocks_in_range D a b s = (r1, s1)" by force
  have s1: "s1 = s" by (rule unchanged_state [OF unchanged_stream one])
  show ?thesis
  proof (cases r1)
    case (Ok stream)
    then have items: "stream_items D (min n (length (stream_pairs stream))) stream s = (r, s')"
      using run one s1 by (simp add: stream_all_def tryM_run(1))
    have "stream_idx stream = 0"
      using one Ok by (auto simp: stream_blocks_in_range_def run_simps split: if_splits)
    then have "stream_idx stream + min n (length (stream_pairs stream)) \<le> length (stream_pairs stream)" by simp
    from reading_runs [OF inv stream_items_yields [OF inv this] items] show ?thesis .
  qed (use run one s1 reading_refl [OF inv] in \<open>auto simp: stream_all_def tryM_run\<close>)
qed

lemma reads_read:
  assumes inv: "store_inv D content s" and rq: "reads_only rq" and run: "perform D rq s = (r, s')"
  shows "reading D content s s'"
proof -
  have stats: "reading D content s s'" if "stats D s = (x, s')" for x
    using unchanged_state [OF unchanged_stats_all that] reading_refl [OF inv] by simp
  have ck: "unchanged (\<lambda>s. s) (get_checkpoint D e)" "unchanged (\<lambda>s. s) (get_attestation D h)" for e h
    unfolding get_checkpoint_def get_attestation_def by (intro frame_rules)+
  have gets: "reading D content s s'" if "get_checkpoint D e s = (x, s') \<or> get_attestation D h s = (y, s')" for e h x y
    using that unchanged_state [OF ck(1)] unchanged_state [OF ck(2)] reading_refl [OF inv] by metis
  show ?thesis
    using rq run
    by (cases rq) (auto dest!: call_state intro: reading_runs [OF inv get_block_yields [OF inv]]
        reading_runs [OF inv get_header_yields [OF inv]] reading_runs [OF inv get_record_yields [OF inv]]
        reading_runs [OF inv has_block_yields [OF inv]] reading_runs [OF inv get_blocks_by_hash_yields [OF inv]]
        reading_runs [OF inv get_hash_by_height_yields [OF inv]] reading_runs [OF inv by_height_yields(1) [OF inv]]
        reading_runs [OF inv get_blocks_in_range_yields [OF inv]] reading_runs [OF inv blocks_to_revert_yields [OF inv]]
        stream_all_reads [OF inv] stats gets)
qed

lemma reads_keep:
  "store_inv D content s \<Longrightarrow> reads_only rq \<Longrightarrow> perform D rq s = (r, s') \<Longrightarrow> store_inv D content s'"
  using reads_read by (simp add: reading_def)

text \<open>Writing requests that return.\<close>

lemma put_attestation_keeps:
  assumes inv: "store_inv D content s" and run: "put_attestation D h a s = (Ok u, s')"
  shows "store_inv D content s'"
proof -
  obtain d where "rk_put_cf (dp_rocks D) (db s) CF_ATTESTED (hash_key h) (projr (dp_ser_attested D a)) = Inr d"
    and s': "s' = s\<lparr>db := d\<rparr>"
    using run by (auto simp: put_attestation_def run_simps)
  from put_sound [OF this(1)] show ?thesis unfolding s' by (intro inv_other_families [OF inv]) auto
qed

lemma put_checkpoint_keeps:
  assumes inv: "store_inv D content s" and run: "put_checkpoint D ck s = (Ok u, s')"
  shows "store_inv D content s'"
proof -
  obtain d where "rk_put_cf (dp_rocks D) (db s) CF_CHECKPOINTS (epoch_key (sc_epoch ck)) (projr (encode_bincode D ck)) = Inr d"
    and s': "s' = s\<lparr>db := d\<rparr>"
    using run by (auto simp: put_checkpoint_def run_simps)
  from put_sound [OF this(1)] show ?thesis unfolding s' by (intro inv_other_families [OF inv]) auto
qed

lemma prune_checkpoint_loop:
  "yields (\<lambda>t. t = s) (loopM (\<lambda>acc item. tryM (next_item item)
      (bounded_row beyond (prune_checkpoint_row D) acc)) ([], 0) items) (\<lambda>(batch, count). checkpoint_deletes batch)"
proof (rule yields_loopM)
  fix acc :: "write_batch \<times> usize" and item :: "string + bytes \<times> bytes"
  assume acc: "case acc of (batch, count) \<Rightarrow> checkpoint_deletes batch"
  have row: "yields (\<lambda>t. t = s) (prune_checkpoint_row D acc kv) (\<lambda>(batch, count). checkpoint_deletes batch)" for kv
    unfolding prune_checkpoint_row_def case_prod_beta
    by (intro yields_bind [where m = "liftM r" and R = "\<lambda>_. True" for r] yields_basic)
      (use acc in \<open>auto simp: checkpoint_deletes_def\<close>)
  show "yields (\<lambda>t. t = s) (tryM (next_item item) (bounded_row beyond (prune_checkpoint_row D) acc))
      (\<lambda>r. case r of Continue a \<Rightarrow> case a of (batch, count) \<Rightarrow> checkpoint_deletes batch
        | Break a \<Rightarrow> case a of (batch, count) \<Rightarrow> checkpoint_deletes batch)"
    unfolding next_item_def bounded_row_def
    by (intro yields_bind [where m = "liftM r" and R = "\<lambda>_. True" for r] yields_basic)
      (auto intro!: yields_if yields_bind [OF row] yields_basic simp: acc [simplified case_prod_beta] case_prod_beta)
qed (simp add: checkpoint_deletes_def)

lemma prune_checkpoints_keeps:
  assumes inv: "store_inv D content s" and run: "prune_checkpoints_before_epoch D e s = (Ok n, s')"
  shows "store_inv D content s'"
proof (cases "e = 0")
  case True
  with run inv show ?thesis by (auto simp: prune_checkpoints_before_epoch_def run_simps)
next
  case False
  then obtain batch count t where loop: "loopM (\<lambda>acc item. tryM (next_item item)
        (bounded_row (\<lambda>key. e \<le> decode_epoch_key key) (prune_checkpoint_row D) acc)) ([], 0)
        (rk_iterator_cf (dp_rocks D) (db s) CF_CHECKPOINTS IterStart) s = (Ok (batch, count), t)"
    and fin: "(if 0 < count then db_write D batch else returnM ()) t = (Ok (), s')"
    using run by (auto simp: prune_checkpoints_before_epoch_def run_simps)
  from yields_OkD [OF prune_checkpoint_loop refl loop] have t: "t = s" and del: "checkpoint_deletes batch" by auto
  show ?thesis
  proof (cases "0 < count")
    case True
    with fin obtain d where wr: "rk_write (dp_rocks D) (db s) batch = Inr d" and s': "s' = s\<lparr>db := d\<rparr>"
      by (auto simp: run_simps t)
    show ?thesis unfolding s' using write_sound [OF wr] checkpoint_deletes_other [OF del]
      by (intro inv_other_families [OF inv]) auto
  qed (use fin inv t in auto)
qed

lemma prune_keeps:
  assumes inv: "store_inv D content s" and run: "prune_before_height D n s = (Ok count, s')"
  shows "store_inv D content s'"
proof (cases "min_retained_height_cached s < n")
  case True
  from prune_Ok(1) [OF inv run True] show ?thesis .
next
  case False
  with run inv show ?thesis
    by (auto simp: prune_before_height_def min_retained_height_def run_simps not_less split: if_splits)
qed

lemma disable_keeps: "store_inv D content s \<Longrightarrow> store_inv D content (s\<lparr>canonical_bin := disable (canonical_bin s)\<rparr>)"
  by (simp add: store_inv_def index_ok_def disable_def bin_ok_def bin_slot_def slot_of_def dense_wf_def)

lemma flush_inv: "store_inv D content s \<Longrightarrow> flush D s = (r, s') \<Longrightarrow> store_inv D content s'"
  using flush_keeps inv_other_families by metis

lemma requests_keep:
  assumes inv: "store_inv D content s" and ok: "admitted D content rq s" and run: "perform D rq s = (Ok u, s')"
  shows "store_inv D content s'"
proof (cases "reads_only rq")
  case True
  from reads_keep [OF inv this run] show ?thesis .
next
  case False
  show ?thesis
  proof (cases rq)
    case (PutBlock b canonical)
    with run put_block_Ok [OF inv] show ?thesis by (auto simp: call_Ok put_def)
  next
    case (InitGenesis b)
    with run ok init_genesis_Ok(1) [OF inv] show ?thesis by auto
  next
    case (ExtendChain b)
    with run extend_chain_Ok(1) [OF inv] show ?thesis by (auto simp: call_Ok)
  next
    case (SetCanonical h)
    with run set_canonical_Ok [OF inv] show ?thesis by auto
  next
    case (SetCanonicalBatch hs)
    with run ok set_canonical_batch_Ok [OF inv] show ?thesis by auto
  next
    case (SetTip t)
    with run set_tip_inv [OF inv] show ?thesis by auto
  next
    case (UpdateStatus h st)
    with run update_status_inv [OF inv] show ?thesis by auto
  next
    case (Rollback n)
    with run obtain x where "rollback_to_height D n s = (Ok x, s')" by (auto simp: call_Ok)
    from rollback_Ok [OF inv this] show ?thesis by metis
  next
    case (Reorg n hs)
    with run obtain x where x: "apply_reorg D n hs s = (Ok x, s')" by (auto simp: call_Ok)
    from Reorg ok have "n + 1 \<noteq> 0" "canonical_height_cache_capacity s \<noteq> 0" by auto
    from apply_reorg_Ok [OF inv x this] show ?thesis by metis
  next
    case (PruneBefore n)
    with run prune_keeps [OF inv] show ?thesis by (auto simp: call_Ok)
  next
    case (PutCheckpoint ck)
    with run put_checkpoint_keeps [OF inv] show ?thesis by auto
  next
    case (PruneCheckpoints e)
    with run prune_checkpoints_keeps [OF inv] show ?thesis by (auto simp: call_Ok)
  next
    case (PutAttestation h a)
    with run put_attestation_keeps [OF inv] show ?thesis by auto
  next
    case (InvalidateBlock h)
    with run inv_cache_removals(1) [OF inv] show ?thesis by (auto simp: invalidate_block_cache_entry_def)
  next
    case (InvalidateHeader h)
    with run inv_cache_removals(2) [OF inv] show ?thesis by (auto simp: invalidate_header_cache_entry_def)
  next
    case (InvalidateRecord h)
    with run inv_record_remove [OF inv] show ?thesis by (auto simp: invalidate_record_cache_entry_def)
  next
    case DisableCanonicalBin
    with run disable_keeps [OF inv] show ?thesis by (auto simp: disable_canonical_bin_acceleration_def)
  next
    case CompactAll
    with run compacted_keeps(1) [OF inv compact_drops] show ?thesis by auto
  next
    case FlushAll
    with run flush_inv [OF inv] show ?thesis by auto
  qed (use False in simp_all)
qed

end

end
