(* ===== verification/Maintenance_Properties.thy ===== *)
theory Maintenance_Properties
  imports Chain_Properties Lifecycle
begin

text \<open>
  Properties of what keeps a store in shape over its life: pruning and compaction, the map of
  checkpoints, statistics, streaming and restarts. The witnesses run on the reference store.
\<close>

section \<open>The reference store, continued\<close>

text \<open>Two checkpoints.\<close>

definition ref_checkpoint :: "u64 \<Rightarrow> StoredCheckpoint" where
  "ref_checkpoint e = \<lparr>sc_checkpoint = \<lparr>ck_epoch = e, ck_rest = []\<rparr>, sc_signer_bitmap = [1],
     sc_aggregate_signature = [2], sc_aggregate_pubkey = [3], sc_score = 4, sc_submitter = 5,
     sc_l1_height = None, sc_l1_coin_id = Some 6, sc_stored_at = 7\<rparr>"

definition ref_checkpoints :: ref_store where
  "ref_checkpoints = ref_two\<lparr>db :=
     ref_write [PutCf CF_CHECKPOINTS (epoch_key 3) (ref_checkpoint_bytes (ref_checkpoint 3)),
                PutCf CF_CHECKPOINTS (epoch_key 5) (ref_checkpoint_bytes (ref_checkpoint 5))] (db ref_two)\<rparr>"

lemma ref_checkpoint_epoch [simp]: "ck_epoch (sc_checkpoint (ref_checkpoint e)) = e"
  by (simp add: ref_checkpoint_def)

lemma ref_two_checkpoints: "ref_content (db ref_two) CF_CHECKPOINTS = Map.empty"
  by (simp add: ref_states ref_folds block_rows_def fun_eq_iff)

lemma ref_checkpoints_at:
  "checkpoint_at ref_deps ref_content ref_checkpoints =
     [3 \<mapsto> ref_checkpoint 3, 5 \<mapsto> ref_checkpoint 5]"
  by (simp add: checkpoint_at_def ref_checkpoints_def ref_two_checkpoints fun_eq_iff)

lemma ref_checkpoints_ok: "checkpoints_ok ref_deps ref_content ref_checkpoints"
proof -
  have "\<exists>ck. sc_epoch ck = e \<and> ref_checkpoint_bytes ck = ref_checkpoint_bytes (ref_checkpoint e)" for e
    by (rule exI [of _ "ref_checkpoint e"]) simp
  then show ?thesis by (simp add: checkpoints_ok_def ref_checkpoints_def ref_two_checkpoints)
qed

lemma ref_checkpoints_inv: "store_inv ref_deps ref_content ref_checkpoints"
  unfolding ref_checkpoints_def by (rule inv_other_families [OF ref_two_inv]) auto

section \<open>Pruning and compaction\<close>

text \<open>
  C10: A successful \<open>prune_before_height\<close> refines the abstract pruning: the minimum height becomes
  the bound and no canonical height below it resolves any more, while the chain above it and the
  tip stay. The rows it deletes are exactly those of the canonical blocks below the bound and of
  every block whose header lies below it, and the invariant holds for the new minimum.
\<close>

theorem prune_refines:
  assumes "deps_laws D content" and "store_inv D content s" and "prune_before_height D height s = (Ok count, s')"
  shows "store_inv D content s' \<and> abs_chain content s' = spec_prune height (abs_chain content s) \<and>
    (\<forall>cf \<in> {CF_BLOCKS, CF_HEADERS, CF_ATTESTED}. \<forall>h. content (db s') cf (hash_key h) =
       (if min_retained_height_cached s < height \<and> prunes D content s height h then None
        else content (db s) cf (hash_key h)))"
proof (cases "min_retained_height_cached s < height")
  case True
  note prune = deps_laws.prune_Ok [OF assms True]
  have "abs_chain content s' = spec_prune height (abs_chain content s)"
    by (rule chain.equality) (use prune True in \<open>auto simp: abs_chain_def spec_prune_def fun_eq_iff\<close>)
  with prune True show ?thesis by simp
next
  case False
  with assms(3) have "s' = s"
    by (auto simp: prune_before_height_def min_retained_height_def run_simps split: if_splits)
  with False assms(2) show ?thesis by (auto simp: spec_prune_def abs_chain_def)
qed

theorem prune_refines_witness:
  "\<exists>s'. prune_before_height ref_deps 1 ref_two = (Ok 1, s') \<and> store_inv ref_deps ref_content s' \<and>
     abs_chain ref_content s' = spec_prune 1 (abs_chain ref_content ref_two)"
proof -
  obtain s' where run: "prune_before_height ref_deps 1 ref_two = (Ok 1, s')"
    by (simp add: prune_before_height_def prune_canonical_def prune_header_row_def delete_block_rows_def
        evict_block_def ref_eval ref_states ref_folds block_rows_def ref_maintain)
  from prune_refines [OF ref.deps_laws_axioms ref_two_inv run] run show ?thesis by blast
qed

text \<open>
  C26: A compaction never takes away a live row. Whatever \<open>compact\<close> returns, the chain is the same,
  nothing appears that was not stored, and every stored block and header at or above the minimum
  retained height is still stored.
\<close>

theorem compaction_keeps_live_rows:
  assumes "deps_laws D content" and "store_inv D content s" and "compact D s = (r, s')"
  shows "store_inv D content s' \<and> abs_chain content s' = abs_chain content s \<and>
    (\<forall>h b. stored_block D content s' h b \<longrightarrow> stored_block D content s h b) \<and>
    (\<forall>h hdr. stored_header D content s' h hdr \<longrightarrow> stored_header D content s h hdr) \<and>
    (\<forall>h b. stored_block D content s h b \<longrightarrow> min_retained_height_cached s \<le> hd_height (blk_header b) \<longrightarrow>
       stored_block D content s' h b) \<and>
    (\<forall>h hdr. stored_header D content s h hdr \<longrightarrow> min_retained_height_cached s \<le> hd_height hdr \<longrightarrow>
       stored_header D content s' h hdr)"
proof -
  note drops = deps_laws.compact_drops [OF assms(1,3)]
  note keeps = deps_laws.compacted_keeps [OF assms(1,2) drops]
  have canon: "content (db s') CF_CANONICAL = content (db s) CF_CANONICAL" by (rule keeps(2)) simp
  obtain d where "s' = s\<lparr>db := d\<rparr>" using drops unfolding compacted_def by blast
  with canon have "abs_chain content s' = abs_chain content s"
    by (intro chain.equality) (simp_all add: abs_chain_def canonical_at_def fun_eq_iff)
  with keeps show ?thesis by blast
qed

theorem compaction_keeps_live_rows_witness:
  "\<exists>r s'. compact ref_deps ref_two = (r, s') \<and> stored_block ref_deps ref_content s' 6 (ref_block 6 1 5)"
proof -
  obtain r s' where run: "compact ref_deps ref_two = (r, s')" by force
  have "stored_block ref_deps ref_content ref_two 6 (ref_block 6 1 5)"
    using ref.extend_chain_Ok(2) [OF ref_genesis_inv ref_two_run] by simp
  moreover have "min_retained_height_cached ref_two \<le> hd_height (blk_header (ref_block 6 1 5))"
    by (simp add: ref_states)
  ultimately have "stored_block ref_deps ref_content s' 6 (ref_block 6 1 5)"
    using compaction_keeps_live_rows [OF ref.deps_laws_axioms ref_two_inv run] by blast
  with run show ?thesis by blast
qed

section \<open>Checkpoints\<close>

text \<open>
  C31: \<open>put_checkpoint\<close> refines the update of a finite map from epochs to checkpoints: over a
  database whose calls succeed it returns, replaces the checkpoint of its epoch, keeps all others,
  and \<open>get_checkpoint\<close> then reads the map at every epoch.
\<close>

theorem put_checkpoint_refines:
  assumes "live_deps D content" and "checkpoints_ok D content s" and "\<not> read_only s"
    and "dp_ser_checkpoint D ck = Inr v"
  shows "\<exists>s'. put_checkpoint D ck s = (Ok (), s') \<and> checkpoints_ok D content s' \<and>
    checkpoint_at D content s' = (checkpoint_at D content s)(ck_epoch (sc_checkpoint ck) \<mapsto> ck) \<and>
    (\<forall>e. get_checkpoint D e s' = (Ok (checkpoint_at D content s' e), s'))"
proof -
  obtain d where d: "put_checkpoint D ck s = (Ok (), s\<lparr>db := d\<rparr>)" "checkpoints_ok D content (s\<lparr>db := d\<rparr>)"
    "checkpoint_at D content (s\<lparr>db := d\<rparr>) = (checkpoint_at D content s)(sc_epoch ck \<mapsto> ck)"
    by (rule live_deps.put_checkpoint_value [OF assms])
  with live_deps.get_checkpoint_value [OF assms(1) d(2)] show ?thesis by blast
qed

theorem put_checkpoint_refines_witness:
  "\<exists>s'. put_checkpoint ref_deps (ref_checkpoint 4) ref_checkpoints = (Ok (), s') \<and>
     get_checkpoint ref_deps 4 s' = (Ok (Some (ref_checkpoint 4)), s') \<and>
     get_checkpoint ref_deps 3 s' = (Ok (Some (ref_checkpoint 3)), s')"
proof -
  have "\<not> read_only ref_checkpoints" by (simp add: ref_checkpoints_def ref_states)
  from put_checkpoint_refines [OF ref_live.live_deps_axioms ref_checkpoints_ok this ref_deps_simps(25)]
  obtain s' where run: "put_checkpoint ref_deps (ref_checkpoint 4) ref_checkpoints = (Ok (), s')"
    and at: "checkpoint_at ref_deps ref_content s' =
      (checkpoint_at ref_deps ref_content ref_checkpoints)(ck_epoch (sc_checkpoint (ref_checkpoint 4)) \<mapsto> ref_checkpoint 4)"
    and get: "\<And>e. get_checkpoint ref_deps e s' = (Ok (checkpoint_at ref_deps ref_content s' e), s')" by blast
  have "checkpoint_at ref_deps ref_content s' 4 = Some (ref_checkpoint 4)"
    "checkpoint_at ref_deps ref_content s' 3 = Some (ref_checkpoint 3)"
    by (simp_all add: at ref_checkpoints_at)
  with run get show ?thesis by auto
qed

text \<open>
  C32: \<open>prune_checkpoints_before_epoch\<close> refines the restriction of the map: it removes exactly the
  checkpoints of the epochs below the bound and returns how many there were.
\<close>

theorem prune_checkpoints_refines:
  assumes "live_deps D content" and "checkpoints_ok D content s" and "\<not> read_only s"
  shows "\<exists>n s'. prune_checkpoints_before_epoch D e s = (Ok n, s') \<and> checkpoints_ok D content s' \<and>
    checkpoint_at D content s' = (\<lambda>e'. if e' < e then None else checkpoint_at D content s e') \<and>
    unat n = card {e'. e' < e \<and> checkpoint_at D content s e' \<noteq> None}"
  by (rule live_deps.prune_checkpoints_value [OF assms, of e]) blast

theorem prune_checkpoints_refines_witness:
  "\<exists>n s'. prune_checkpoints_before_epoch ref_deps 4 ref_checkpoints = (Ok n, s') \<and> unat n = 1 \<and>
     checkpoint_at ref_deps ref_content s' = [5 \<mapsto> ref_checkpoint 5]"
proof -
  have "\<not> read_only ref_checkpoints" by (simp add: ref_checkpoints_def ref_states)
  from prune_checkpoints_refines [OF ref_live.live_deps_axioms ref_checkpoints_ok this, of 4] obtain n s' where
    run: "prune_checkpoints_before_epoch ref_deps 4 ref_checkpoints = (Ok n, s')"
    and at: "checkpoint_at ref_deps ref_content s' =
      (\<lambda>e'. if e' < 4 then None else checkpoint_at ref_deps ref_content ref_checkpoints e')"
    and n: "unat n = card {e'. e' < 4 \<and> checkpoint_at ref_deps ref_content ref_checkpoints e' \<noteq> None}" by blast
  have "{e'. e' < 4 \<and> checkpoint_at ref_deps ref_content ref_checkpoints e' \<noteq> None} = {3}"
    by (auto simp: ref_checkpoints_at)
  moreover have "checkpoint_at ref_deps ref_content s' = [5 \<mapsto> ref_checkpoint 5]"
    by (auto simp: at ref_checkpoints_at fun_eq_iff)
  ultimately show ?thesis using run n by (intro exI [of _ n] exI [of _ s']) simp
qed

text \<open>
  C33: The scans of the checkpoint family answer from the map: \<open>get_latest_checkpoint\<close> returns the
  checkpoint of the greatest epoch, or nothing when there is none, and \<open>get_checkpoints_in_range\<close>
  the checkpoints of the epochs in the range, in ascending order and each once.
\<close>

theorem checkpoint_scans_correct:
  assumes "live_deps D content" and "checkpoints_ok D content s"
  shows "\<exists>latest cks. get_latest_checkpoint D s = (Ok latest, s) \<and> get_checkpoints_in_range D a b s = (Ok cks, s) \<and>
    (case latest of None \<Rightarrow> checkpoint_at D content s = Map.empty
     | Some ck \<Rightarrow> checkpoint_at D content s (ck_epoch (sc_checkpoint ck)) = Some ck \<and>
         (\<forall>e \<in> dom (checkpoint_at D content s). e \<le> ck_epoch (sc_checkpoint ck))) \<and>
    sorted_wrt (<) (map (ck_epoch \<circ> sc_checkpoint) cks) \<and>
    (\<forall>ck. ck \<in> set cks \<longleftrightarrow> checkpoint_at D content s (ck_epoch (sc_checkpoint ck)) = Some ck \<and>
       a \<le> ck_epoch (sc_checkpoint ck) \<and> ck_epoch (sc_checkpoint ck) \<le> b)"
proof -
  obtain latest where latest: "get_latest_checkpoint D s = (Ok latest, s)"
    "case latest of None \<Rightarrow> \<forall>e. checkpoint_at D content s e = None
      | Some ck \<Rightarrow> checkpoint_at D content s (sc_epoch ck) = Some ck \<and>
          (\<forall>e. checkpoint_at D content s e \<noteq> None \<longrightarrow> e \<le> sc_epoch ck)"
    by (rule live_deps.get_latest_value [OF assms])
  obtain cks where "get_checkpoints_in_range D a b s = (Ok cks, s)" "sorted_wrt (<) (map sc_epoch cks)"
    "set cks = {ck. checkpoint_at D content s (sc_epoch ck) = Some ck \<and> a \<le> sc_epoch ck \<and> sc_epoch ck \<le> b}"
    by (rule live_deps.get_checkpoints_in_range_value [OF assms])
  moreover have "case latest of None \<Rightarrow> checkpoint_at D content s = Map.empty
     | Some ck \<Rightarrow> checkpoint_at D content s (sc_epoch ck) = Some ck \<and>
         (\<forall>e \<in> dom (checkpoint_at D content s). e \<le> sc_epoch ck)"
    using latest(2) by (cases latest) (auto simp: fun_eq_iff)
  ultimately show ?thesis
    using latest(1) by (intro exI [of _ latest] exI [of _ cks]) (simp add: comp_def)
qed

theorem checkpoint_scans_correct_witness:
  "get_latest_checkpoint ref_deps ref_checkpoints = (Ok (Some (ref_checkpoint 5)), ref_checkpoints) \<and>
   get_checkpoints_in_range ref_deps 0 4 ref_checkpoints = (Ok [ref_checkpoint 3], ref_checkpoints)"
proof -
  from checkpoint_scans_correct [OF ref_live.live_deps_axioms ref_checkpoints_ok, of 0 4] obtain latest cks where
    run: "get_latest_checkpoint ref_deps ref_checkpoints = (Ok latest, ref_checkpoints)"
      "get_checkpoints_in_range ref_deps 0 4 ref_checkpoints = (Ok cks, ref_checkpoints)"
    and latest: "case latest of None \<Rightarrow> checkpoint_at ref_deps ref_content ref_checkpoints = Map.empty
     | Some ck \<Rightarrow> checkpoint_at ref_deps ref_content ref_checkpoints (sc_epoch ck) = Some ck \<and>
         (\<forall>e \<in> dom (checkpoint_at ref_deps ref_content ref_checkpoints). e \<le> sc_epoch ck)"
    and sorted: "sorted_wrt (<) (map (ck_epoch \<circ> sc_checkpoint) cks)"
    and cks: "\<And>ck. ck \<in> set cks \<longleftrightarrow> checkpoint_at ref_deps ref_content ref_checkpoints (sc_epoch ck) = Some ck \<and>
       0 \<le> sc_epoch ck \<and> sc_epoch ck \<le> 4" by blast
  have "latest = Some (ref_checkpoint 5)"
    using latest by (auto simp: ref_checkpoints_at fun_eq_iff split: option.splits if_splits)
  moreover have "set cks = {ref_checkpoint 3}" by (auto simp: cks ref_checkpoints_at split: if_splits)
  with sorted have "cks = [ref_checkpoint 3]"
    by (cases cks; cases "tl cks") (auto simp: sorted_wrt_map)
  ultimately show ?thesis using run by simp
qed

section \<open>Statistics and streaming\<close>

lemma ref_count: "card (dom (ref_content d cf)) = length (ref_rows cf d)"
  by (rule listing_length [OF ref_rows_listing, symmetric])

text \<open>
  \<open>stats\<close> counts the rows of the five families, reports the height of the tip and the minimum
  height the store works with (when one was ever set), and changes nothing.
\<close>

theorem stats_correct:
  assumes "live_deps D content" and "store_inv D content s"
    and "\<forall>cf \<in> {CF_BLOCKS, CF_CANONICAL, CF_HEADERS, CF_CHECKPOINTS, CF_ATTESTED}.
      card (dom (content (db s) cf)) < 2 ^ 64"
  shows "\<exists>st. stats D s = (Ok st, s) \<and>
    unat (st_block_count st) = card (dom (content (db s) CF_BLOCKS)) \<and>
    unat (st_canonical_block_count st) = card (dom (content (db s) CF_CANONICAL)) \<and>
    unat (st_header_count st) = card (dom (content (db s) CF_HEADERS)) \<and>
    unat (st_checkpoint_count st) = card (dom (content (db s) CF_CHECKPOINTS)) \<and>
    unat (st_attested_count st) = card (dom (content (db s) CF_ATTESTED)) \<and>
    st_tip_height st = map_option tip_height (tip s) \<and>
    st_min_height st = (if content (db s) CF_METADATA (as_bytes META_MIN_HEIGHT) = None then None
      else Some (min_retained_height_cached s))"
proof -
  have bound: "card (dom (content (db s) cf)) < 2 ^ 64"
    if "cf \<in> {CF_BLOCKS, CF_CANONICAL, CF_HEADERS, CF_CHECKPOINTS, CF_ATTESTED}" for cf
    using assms(3) that by blast
  then have counted: "unat (of_nat (card (dom (content (db s) cf))) :: u64) = card (dom (content (db s) cf))"
    if "cf \<in> {CF_BLOCKS, CF_CANONICAL, CF_HEADERS, CF_CHECKPOINTS, CF_ATTESTED}" for cf
    using that by (simp add: unat_of_nat take_bit_eq_mod)
  show ?thesis
    by (rule live_deps.stats_value [OF assms(1,2) bound], assumption)
       (simp add: counted chain_height_def)
qed

theorem stats_correct_witness:
  "\<exists>st. stats ref_deps ref_checkpoints = (Ok st, ref_checkpoints) \<and> unat (st_block_count st) = 2 \<and>
     unat (st_checkpoint_count st) = 2 \<and> st_tip_height st = Some 1"
proof -
  have rows: "card (dom (ref_content (db ref_checkpoints) CF_BLOCKS)) = 2"
    "card (dom (ref_content (db ref_checkpoints) CF_CANONICAL)) = 2"
    "card (dom (ref_content (db ref_checkpoints) CF_HEADERS)) = 2"
    "card (dom (ref_content (db ref_checkpoints) CF_CHECKPOINTS)) = 2"
    "card (dom (ref_content (db ref_checkpoints) CF_ATTESTED)) = 0"
    unfolding ref_count ref_checkpoints_def
    by (simp_all add: ref_states ref_folds block_rows_def ref_write_def height_order epoch_key_def to_be_bytes_mono)
  from stats_correct [OF ref_live.live_deps_axioms ref_checkpoints_inv] obtain st where
    "stats ref_deps ref_checkpoints = (Ok st, ref_checkpoints)" "unat (st_block_count st) = 2"
    "unat (st_checkpoint_count st) = 2" "st_tip_height st = map_option tip_height (tip ref_checkpoints)"
    by (simp add: rows) blast
  then show ?thesis by (intro exI [of _ st]) (simp add: ref_checkpoints_def ref_states)
qed

lemma sorted_pairs:
  assumes "sorted_wrt (<) (map fst pairs)" and "set pairs = set pairs'" and "sorted_wrt (<) (map fst pairs')"
  shows "pairs = (pairs' :: (u64 \<times> 'x) list)"
proof -
  have list: "xs = map (\<lambda>k. (k, the (map_of xs k))) (map fst xs)" if "distinct (map fst xs)" for xs :: "(u64 \<times> 'x) list"
    unfolding map_map by (rule map_idI [symmetric]) (use that in auto)
  have keys: "map fst pairs = map fst pairs'"
    using assms by (intro sorted_distinct_set_unique) (auto simp: strict_sorted_iff)
  have "map_of pairs = map_of pairs'"
    using assms by (intro map_of_inject_set [THEN iffD2]) (auto simp: strict_sorted_iff)
  with keys list [of pairs] list [of pairs'] assms show ?thesis by (simp add: strict_sorted_iff)
qed

text \<open>
  C34: Over a database whose calls succeed \<open>stream_blocks_in_range\<close> captures exactly the canonical
  entries of the range in ascending order of height, and advancing the iterator to its end gives
  one item for each: the block stored under the captured hash or an error, never a panic. Caches
  and counters change, the store does not.
\<close>

theorem stream_blocks_correct:
  assumes "live_deps D content" and "store_inv D content s"
  shows "\<exists>pairs items s'. stream_blocks_in_range D a b s = (Ok \<lparr>stream_pairs = pairs, stream_idx = 0\<rparr>, s) \<and>
    sorted_wrt (<) (map fst pairs) \<and>
    set pairs = {(n, bytes32_new v) | n v. a \<le> n \<and> n \<le> b \<and> content (db s) CF_CANONICAL (height_key n) = Some v} \<and>
    stream_items D (length pairs) \<lparr>stream_pairs = pairs, stream_idx = 0\<rparr> s = (Ok items, s') \<and>
    list_all2 (\<lambda>(n, h) r. (\<forall>b. r = Ok b \<longrightarrow> known_block D content s h b) \<and> (\<forall>p. r \<noteq> Panic p)) pairs items \<and>
    store_inv D content s' \<and> core s' = core s"
proof -
  have deps: "deps_laws D content" using assms(1) by (simp add: live_deps_def)
  have "index_ok content s" using assms(2) by (simp add: store_inv_def)
  then obtain pairs where run: "stream_blocks_in_range D a b s = (Ok \<lparr>stream_pairs = pairs, stream_idx = 0\<rparr>, s)"
    "sorted_wrt (<) (map fst pairs)"
    "set pairs = {(n, bytes32_new v) | n v. a \<le> n \<and> n \<le> b \<and> content (db s) CF_CANONICAL (height_key n) = Some v}"
    by (rule live_deps.stream_blocks_in_range_value [OF assms(1)])
  let ?stream = "\<lparr>stream_pairs = pairs, stream_idx = 0\<rparr>"
  obtain items s' where items: "stream_items D (length pairs) ?stream s = (Ok items, s')"
    using live_deps.stream_items_total [OF assms(1)] by blast
  have "stream_idx ?stream + length pairs \<le> length (stream_pairs ?stream)" by simp
  from yields_OkD [OF deps_laws.stream_items_yields [OF deps assms(2) this] reading_refl [OF assms(2)] items]
  have "reading D content s s'" "list_all2 (\<lambda>(n, h) r. (\<forall>b. r = Ok b \<longrightarrow> known_block D content s h b) \<and>
      (\<forall>p. r \<noteq> Panic p)) pairs items" by simp_all
  with run items show ?thesis unfolding reading_def by blast
qed

theorem stream_blocks_correct_witness:
  "\<exists>items s'. stream_blocks_in_range ref_deps 1 9 ref_three = (Ok \<lparr>stream_pairs = [(1, 6), (2, 7)], stream_idx = 0\<rparr>, ref_three) \<and>
     stream_items ref_deps 2 \<lparr>stream_pairs = [(1, 6), (2, 7)], stream_idx = 0\<rparr> ref_three = (Ok items, s') \<and>
     length items = 2"
proof -
  from stream_blocks_correct [OF ref_live.live_deps_axioms ref_three_inv, of 1 9] obtain pairs items s' where
    run: "stream_blocks_in_range ref_deps 1 9 ref_three = (Ok \<lparr>stream_pairs = pairs, stream_idx = 0\<rparr>, ref_three)"
      "stream_items ref_deps (length pairs) \<lparr>stream_pairs = pairs, stream_idx = 0\<rparr> ref_three = (Ok items, s')"
    and sorted: "sorted_wrt (<) (map fst pairs)"
    and pairs: "set pairs = {(n, bytes32_new v) | n v. 1 \<le> n \<and> n \<le> 9 \<and>
      ref_content (db ref_three) CF_CANONICAL (height_key n) = Some v}"
    and len: "length pairs = length items"
    by (blast dest: list_all2_lengthD)
  have "set pairs = {(1, 6), (2, 7)}"
    unfolding pairs by (auto simp: ref_states ref_folds block_rows_def hash_key_def split: if_splits)
      (rule exI [of _ 1], simp, rule exI [of _ 2], simp)
  with sorted_pairs [OF sorted, of "[(1, 6), (2, 7)]"] have "pairs = [(1, 6), (2, 7)]" by simp
  with run len show ?thesis by (intro exI [of _ items] exI [of _ s']) (simp add: numeral_2_eq_2 del: stream_items.simps)
qed

section \<open>Column families\<close>

text \<open>A row that holds a block, header or attested block below a height.\<close>

definition row_below :: "('d, 'b, 'h, 'g) deps \<Rightarrow> u64 \<Rightarrow> string \<Rightarrow> bytes \<Rightarrow> bool" where
  "row_below D n name v \<longleftrightarrow>
     name = CF_BLOCKS \<and> (\<exists>raw b. dp_decode_all D v = Inr raw \<and> dp_de_block D raw = Inr b \<and> dp_block_height D b < n) \<or>
     name = CF_HEADERS \<and> (\<exists>hdr. dp_de_header D v = Inr hdr \<and> hd_height hdr < n) \<or>
     name = CF_ATTESTED \<and> (\<exists>a. dp_de_attested D v = Inr a \<and> dp_block_height D (ab_block a) < n)"

lemma filter_verdict:
  assumes "cf_options_of D config pruning name = Ok opts"
  shows "(\<exists>n verdict. opt_compaction_filter opts = Some (n, verdict) \<and> verdict threshold v = Remove) \<longleftrightarrow>
    pruning \<and> threshold \<noteq> 0 \<and> row_below D threshold name v"
  using filter_of_any_config [OF assms, of threshold "[]" v] filter_drops_iff [of D pruning threshold name "[]" v]
  by (simp add: row_below_def)



section \<open>Restarts\<close>

text \<open>
  C16: A restart loses nothing. A store opened, writable or read-only, on the database that a store
  in its invariant has left satisfies the invariant again and has the same rows and the same
  abstract chain: heights, tip and minimum height; a read-only open leaves \<open>canonical.bin\<close> as it
  was. The frames written with a dictionary need that dictionary again (\<open>dict_kept\<close>).
\<close>

theorem restart_loses_nothing:
  assumes "live_deps D content" and "store_inv D content t"
    and "\<forall>cfs d. env_open_db env (cfg_path config) cfs = Inr d \<longrightarrow> content d = content (db t)"
    and "\<forall>cfs d. env_open_db_read_only env (cfg_path config) cfs = Inr d \<longrightarrow> content d = content (db t)"
    and "dict_kept content t (cfg_use_compression_dict config) (cfg_zstd_dictionary_override config)"
    and "dict_kept content t True None"
  shows "(open_store D env config disk = (Ok s, disk') \<longrightarrow>
      store_inv D content s \<and> abs_chain content s = abs_chain content t \<and> content (db s) = content (db t) \<and>
      \<not> read_only s) \<and>
    (open_readonly D env (cfg_path config) disk = (Ok s, disk') \<longrightarrow>
      store_inv D content s \<and> abs_chain content s = abs_chain content t \<and> content (db s) = content (db t) \<and>
      read_only s \<and> disk' = disk)"
  using live_deps.open_store_restart [OF assms(1,2) _ _ assms(5)]
    live_deps.open_readonly_restart [OF assms(1,2) _ _ assms(6)] assms(3,4)
  by (simp add: abs_chain_def)

text \<open>The reference database \<open>d\<close>, opened without warming the caches.\<close>

definition ref_env_on :: "ref_db \<Rightarrow> ref_db startup_env" where
  "ref_env_on d = \<lparr>env_path_exists = (\<lambda>_. True), env_open_db = (\<lambda>_ _. Inr d), env_open_db_read_only = (\<lambda>_ _. Inr d)\<rparr>"

definition ref_config :: BlockStoreConfig where
  "ref_config = default_config\<lparr>cfg_warm_cache_on_open := False\<rparr>"

lemma ref_open_run:
  assumes rows: "ref_content d CF_METADATA (as_bytes META_TIP) = Some (tip_to_bytes t)"
    "ref_content d CF_METADATA (as_bytes META_MIN_HEIGHT) = None" "ref_content d CF_METADATA (as_bytes META_ZSTD_DICT) = None"
    and bin: "\<And>path. open_bin ref_deps d path True None = (Ok bin, disk')"
  shows "open_store ref_deps (ref_env_on d) ref_config None =
    (Ok (new_store ref_deps ref_config False False d bin None (Some t)), disk')"
proof -
  have "\<exists>cfs. column_family_descriptors ref_deps ref_config False = Ok cfs"
    using column_family_descriptors_ok by blast
  moreover have "load_tip ref_deps d = Ok (Some t)" by (simp add: load_tip_def rows tip_from_to)
  moreover have "resolve_zstd_dictionary ref_deps d True None = Ok None"
    by (simp add: resolve_zstd_dictionary_def load_zstd_dict_from_db_def rows)
  moreover have "load_min_retained ref_deps s = (Ok (), s)" if "db s = d" for s
    by (simp add: load_min_retained_def okM_def read_min_retained_height_def db_get_def tryM_def that rows)
  ultimately show ?thesis
    by (auto simp: open_store_def io_try_def tryM_def Let_def ref_env_on_def built_def warm_on_open_def
        default_config_def new_store_def bin ref_config_def)
qed

lemma ref_bin_run:
  assumes "ref_rows CF_CANONICAL d = [(height_key 0, bytes32_octets 5)]"
  shows "open_bin ref_deps d path True None =
    (Ok (Rw \<lparr>df_bytes = bytes32_octets 5, df_mapped = True\<rparr>), Some (bytes32_octets 5))"
  by (simp add: open_bin_def assms open_synced_def dense_bytes_from_cf_def plain_add_def plain_mul_def
      vec_with_capacity_def place_hash_def saturating_mul_def write_at_def io_try_def map_file_def
      open_read_write_def map_existing_def tryM_def)

lemma ref_genesis_rows:
  "ref_content (db ref_genesis) CF_METADATA (as_bytes META_TIP) = Some (tip_to_bytes \<lparr>tip_hash = 5, tip_height = 0\<rparr>)"
  "ref_content (db ref_genesis) CF_METADATA (as_bytes META_MIN_HEIGHT) = None"
  "ref_content (db ref_genesis) CF_METADATA (as_bytes META_ZSTD_DICT) = None"
  "ref_rows CF_CANONICAL (db ref_genesis) = [(height_key 0, bytes32_octets 5)]"
  by (simp_all add: ref_states ref_folds block_rows_def ref_write_def ref_content_def hash_key_def)

theorem restart_loses_nothing_witness:
  "\<exists>s. open_store ref_deps (ref_env_on (db ref_genesis)) ref_config None = (Ok s, Some (bytes32_octets 5)) \<and>
     store_inv ref_deps ref_content s \<and> abs_chain ref_content s = abs_chain ref_content ref_genesis"
proof -
  let ?env = "ref_env_on (db ref_genesis)"
  have kept: "dict_kept ref_content ref_genesis use_dict override" for use_dict override
    by (simp add: dict_kept_def active_dict_def ref_states)
  have "\<forall>cfs d. env_open_db ?env path cfs = Inr d \<longrightarrow> ref_content d = ref_content (db ref_genesis)"
    "\<forall>cfs d. env_open_db_read_only ?env path cfs = Inr d \<longrightarrow> ref_content d = ref_content (db ref_genesis)" for path
    by (simp_all add: ref_env_on_def)
  from restart_loses_nothing [OF ref_live.live_deps_axioms ref_genesis_inv this kept kept, of ref_config]
    ref_open_run [OF ref_genesis_rows(1-3) ref_bin_run [OF ref_genesis_rows(4)]]
  show ?thesis by blast
qed

end
