(* ===== verification/Durable.thy ===== *)
theory Durable
  imports Lifecycle Chain_Spec Atomicity
begin

text \<open>
  What survives when a request does not run to its end: an error of any call it makes, a panic, or
  the death of the process, which leaves the database as if the next call had failed. Only the
  database counts then. \<open>stored_chain\<close> reads the abstract chain out of it, \<open>durable\<close> says that its
  rows make sense, and for every request the lemmas list the chains it may leave behind.
\<close>

section \<open>The chain in the database\<close>

definition stored_min :: "db_content \<Rightarrow> u64" where
  "stored_min X = (case X CF_METADATA (as_bytes META_MIN_HEIGHT) of None \<Rightarrow> 0 | Some v \<Rightarrow> from_le_bytes v)"

definition stored_tip :: "db_content \<Rightarrow> ChainTip option" where
  "stored_tip X = (case X CF_METADATA (as_bytes META_TIP) of
     None \<Rightarrow> None
   | Some v \<Rightarrow> (case tip_from_bytes v of Ok t \<Rightarrow> Some t | _ \<Rightarrow> None))"

definition stored_chain :: "db_content \<Rightarrow> chain" where
  "stored_chain X =
     \<lparr>ch_at = (\<lambda>n. if n < stored_min X then None else map_option bytes32_new (X CF_CANONICAL (height_key n))),
      ch_tip = stored_tip X, ch_min = stored_min X\<rparr>"

text \<open>
  A store with the settings of \<open>s\<close> over content \<open>X\<close>, its memory filled from the database; the
  invariant without its caches; and both for what a state has in its database.
\<close>

definition refilled :: "db_content \<Rightarrow> ('d, 'b, 'h, 'g) store \<Rightarrow> ('d, 'b, 'h, 'g) store" where
  "refilled X s = s\<lparr>tip := stored_tip X, min_retained_height_cached := stored_min X\<rparr>"

definition durable ::
  "('d, 'b, 'h, 'g) deps \<Rightarrow> db_content \<Rightarrow> ('d, 'b, 'h, 'g) store \<Rightarrow> bool" where
  "durable D X s \<longleftrightarrow> rows_ok D (\<lambda>_. X) (refilled X s) \<and> meta_ok (\<lambda>_. X) (refilled X s) \<and>
     (\<forall>k v. X CF_CANONICAL k = Some v \<longrightarrow> length k = 8 \<and> length v = 32)"

definition leaves_chain ::
  "('d, 'b, 'h, 'g) deps \<Rightarrow> ('d \<Rightarrow> db_content) \<Rightarrow> chain \<Rightarrow> ('d, 'b, 'h, 'g) store \<Rightarrow> bool" where
  "leaves_chain D content c s \<longleftrightarrow> durable D (content (db s)) s \<and> stored_chain (content (db s)) = c"

lemma refilled_fields [simp]:
  "db (refilled X s) = db s" "tip (refilled X s) = stored_tip X" "active_dict (refilled X s) = active_dict s"
  "min_retained_height_cached (refilled X s) = stored_min X" "zstd_dict (refilled X s) = zstd_dict s"
  "use_compression_dict (refilled X s) = use_compression_dict s"
  by (simp_all add: refilled_def active_dict_def)

lemmas durable_defs = durable_def rows_ok_def meta_ok_def stored_header_def

text \<open>The fields that this depends on.\<close>

definition durable_part :: "('d, 'b, 'h, 'g) store \<Rightarrow> 'd \<times> bool \<times> bytes option" where
  "durable_part s = (db s, use_compression_dict s, zstd_dict s)"

lemma durable_cong:
  assumes "use_compression_dict s' = use_compression_dict s" and "zstd_dict s' = zstd_dict s"
  shows "durable D X s' = durable D X s"
proof -
  have "active_dict s' = active_dict s" using assms by (simp add: active_dict_def)
  then show ?thesis by (simp add: durable_defs cong: option.case_cong)
qed

lemma leaves_chain_cong: "durable_part s' = durable_part s \<Longrightarrow> leaves_chain D content c s' = leaves_chain D content c s"
  using durable_cong [of s' s] by (simp add: leaves_chain_def durable_part_def)

lemma meta_ok_stored:
  assumes "meta_ok content s"
  shows "stored_tip (content (db s)) = tip s" and "stored_min (content (db s)) = min_retained_height_cached s"
proof -
  show "stored_tip (content (db s)) = tip s"
    using assms by (cases "tip s") (simp_all add: stored_tip_def meta_ok_def tip_from_to)
  show "stored_min (content (db s)) = min_retained_height_cached s"
    using assms by (auto simp: stored_min_def meta_ok_def split: option.splits)
qed

lemma refilled_self: "meta_ok content s \<Longrightarrow> refilled (content (db s)) s = s"
  by (simp add: refilled_def meta_ok_stored)

lemma stored_chain_abs: "meta_ok content s \<Longrightarrow> stored_chain (content (db s)) = abs_chain content s"
  by (simp add: stored_chain_def abs_chain_def meta_ok_stored canonical_at_def fun_eq_iff)

lemma leaves_chain_inv:
  assumes inv: "store_inv D content s"
  shows "leaves_chain D content (abs_chain content s) s"
proof -
  have meta: "meta_ok content s" using inv by (simp add: store_inv_def)
  have "rows_ok D (\<lambda>_. content (db s)) s" using inv
    by (simp add: store_inv_def data_inv_def rows_ok_def stored_header_def)
  moreover have "meta_ok (\<lambda>_. content (db s)) s" using meta by (simp add: content_now)
  moreover have "\<forall>k v. content (db s) CF_CANONICAL k = Some v \<longrightarrow> length k = 8 \<and> length v = 32"
    using inv by (simp add: store_inv_def index_ok_def)
  ultimately show ?thesis
    by (simp add: leaves_chain_def durable_def refilled_self [OF meta] stored_chain_abs [OF meta])
qed

text \<open>Conversely a store with empty caches over a durable database satisfies the invariant.\<close>

definition cold :: "('d, 'b, 'h, 'g) deps \<Rightarrow> ('d, 'b, 'h, 'g) store \<Rightarrow> ('d, 'b, 'h, 'g) store" where
  "cold D s = s\<lparr>record_cache := Map.empty, block_cache := sharded_new (dp_block_lru D) 1 1,
     header_cache := sharded_new (dp_header_lru D) 1 1, canonical_bin := Disabled, canonical_height_cache := []\<rparr>"

lemma cold_fields [simp]:
  "db (cold D s) = db s" "tip (cold D s) = tip s" "zstd_dict (cold D s) = zstd_dict s"
  "use_compression_dict (cold D s) = use_compression_dict s"
  "min_retained_height_cached (cold D s) = min_retained_height_cached s"
  by (simp_all add: cold_def)

context deps_laws
begin

lemma cold_data: "data_inv D content' (cold D s) \<longleftrightarrow> rows_ok D content' s"
proof -
  have "blocks_cached D content' (cold D s)" "headers_cached D content' (cold D s)" "records_cached D content' (cold D s)"
    by (simp_all add: cold_def blocks_cached_def headers_cached_def records_cached_def
        cache_wf_new blru.peek_new hlru.peek_new)
  moreover have "rows_ok D content' (cold D s) = rows_ok D content' s"
    by (simp add: rows_ok_def stored_header_def active_dict_def)
  ultimately show ?thesis by (simp add: data_inv_def)
qed

lemma leaves_chain_store:
  assumes "leaves_chain D content c s"
  obtains t where "store_inv D content t" and "db t = db s" and "zstd_dict t = zstd_dict s"
    and "use_compression_dict t = use_compression_dict s" and "abs_chain content t = c"
proof
  let ?X = "content (db s)" and ?t = "cold D (refilled (content (db s)) s)"
  have d: "durable D ?X s" and c: "stored_chain ?X = c" using assms by (simp_all add: leaves_chain_def)
  have "rows_ok D content (refilled ?X s)" "meta_ok content (refilled ?X s)"
    using d by (simp_all add: durable_defs cong: option.case_cong)
  then have "data_inv D content ?t" "meta_ok content ?t"
    by (simp_all add: cold_data meta_ok_def cong: option.case_cong)
  moreover have "index_ok content ?t"
    using d by (simp add: index_ok_def durable_def refilled_def cold_def btree.get_empty btree.invar_empty
        bin_ok_def bin_slot_def slot_of_def dense_wf_def)
  ultimately show inv: "store_inv D content ?t" by (simp add: store_inv_def)
  show "abs_chain content ?t = c"
    using stored_chain_abs [of content ?t] inv c by (simp add: store_inv_def refilled_def)
qed (simp_all add: refilled_def)

end

section \<open>Content that changes\<close>

text \<open>Rows the chain and the invariant do not look at.\<close>

lemma stored_agree:
  assumes "X' CF_METADATA (as_bytes META_TIP) = X CF_METADATA (as_bytes META_TIP)"
    and "X' CF_METADATA (as_bytes META_MIN_HEIGHT) = X CF_METADATA (as_bytes META_MIN_HEIGHT)"
  shows "stored_tip X' = stored_tip X" and "stored_min X' = stored_min X" and "refilled X' s = refilled X s"
  using assms by (simp_all add: stored_tip_def stored_min_def refilled_def)

lemma durable_agree:
  assumes "X' CF_BLOCKS = X CF_BLOCKS" and "X' CF_HEADERS = X CF_HEADERS" and "X' CF_CANONICAL = X CF_CANONICAL"
    and "X' CF_METADATA (as_bytes META_TIP) = X CF_METADATA (as_bytes META_TIP)"
    and "X' CF_METADATA (as_bytes META_MIN_HEIGHT) = X CF_METADATA (as_bytes META_MIN_HEIGHT)"
  shows "durable D X' s = durable D X s" and "stored_chain X' = stored_chain X"
proof -
  note same = stored_agree(1,2) [of X' X, OF assms(4,5)]
  show "durable D X' s = durable D X s"
    by (simp add: durable_defs same assms cong: option.case_cong)
  show "stored_chain X' = stored_chain X"
    by (simp add: stored_chain_def same assms cong: if_cong)
qed

text \<open>Canonical entries and the tip.\<close>

lemma durable_canonical:
  assumes "durable D X s" and "\<And>cf. cf \<noteq> CF_CANONICAL \<Longrightarrow> X' cf = X cf"
    and "\<And>k v. X' CF_CANONICAL k = Some v \<Longrightarrow> length k = 8 \<and> length v = 32"
  shows "durable D X' s" and "stored_tip X' = stored_tip X" and "stored_min X' = stored_min X"
proof -
  have X': "X' CF_BLOCKS = X CF_BLOCKS" "X' CF_HEADERS = X CF_HEADERS" "X' CF_METADATA = X CF_METADATA"
    using assms(2) by simp_all
  then show same: "stored_tip X' = stored_tip X" "stored_min X' = stored_min X"
    using stored_agree(1,2) [of X' X] by simp_all
  show "durable D X' s"
    using assms(1,3) by (simp add: durable_defs X' same cong: option.case_cong)
qed

lemma durable_tip:
  assumes "durable D X s" and X': "X' = X(CF_METADATA := (X CF_METADATA)(as_bytes META_TIP \<mapsto> tip_to_bytes t))"
  shows "durable D X' s" and "stored_chain X' = (stored_chain X)\<lparr>ch_tip := Some t\<rparr>"
proof -
  have "stored_min X' = stored_min X" "stored_tip X' = Some t"
    by (simp_all add: X' stored_min_def stored_tip_def tip_from_to)
  moreover have "X' CF_BLOCKS = X CF_BLOCKS" "X' CF_HEADERS = X CF_HEADERS" "X' CF_CANONICAL = X CF_CANONICAL"
    "X' CF_METADATA (as_bytes META_TIP) = Some (tip_to_bytes t)"
    "X' CF_METADATA (as_bytes META_MIN_HEIGHT) = X CF_METADATA (as_bytes META_MIN_HEIGHT)" by (simp_all add: X')
  ultimately show "durable D X' s" "stored_chain X' = (stored_chain X)\<lparr>ch_tip := Some t\<rparr>"
    using assms(1) by (simp_all add: durable_defs stored_chain_def cong: option.case_cong if_cong)
qed

lemma stored_chain_put:
  assumes "X' CF_CANONICAL = (X CF_CANONICAL)(height_key n \<mapsto> hash_key h)" and "X' CF_METADATA = X CF_METADATA"
  shows "stored_chain X' = spec_set n h (stored_chain X)"
  using assms by (auto simp: stored_chain_def spec_set_def stored_tip_def stored_min_def hash_key_def fun_eq_iff linorder_not_less)

context deps_laws
begin

text \<open>A new block, and a dictionary where there was none.\<close>

lemma durable_block:
  assumes d: "durable D X s" and new: "X CF_BLOCKS (hash_key (dp_block_hash D b)) = None"
    and fr: "block_frame D (active_dict s) b c" and ser: "dp_ser_header D (blk_header b) = Inr c'"
    and X': "X' CF_BLOCKS = (X CF_BLOCKS)(hash_key (dp_block_hash D b) \<mapsto> c)"
      "X' CF_HEADERS = (X CF_HEADERS)(hash_key (dp_block_hash D b) \<mapsto> c')"
      "X' CF_CANONICAL = X CF_CANONICAL" "X' CF_METADATA = X CF_METADATA"
  shows "durable D X' s"
proof -
  let ?t = "cold D (refilled X s)"
  have same: "refilled X' s = refilled X s" using stored_agree(3) [of X' X] X'(4) by simp
  have "data_inv D (\<lambda>_. X) ?t" using d by (simp add: cold_data durable_def)
  moreover have "active_dict ?t = active_dict s" by (simp add: active_dict_def refilled_def)
  ultimately have "data_inv D (\<lambda>_. X') ?t"
    using fr by (intro data_inv_new_block [OF _ new _ ser refl X'(1,2)]) simp_all
  with d X'(3,4) show ?thesis
    by (simp add: cold_data durable_def same meta_ok_def cong: option.case_cong)
qed

lemma durable_dict:
  assumes d: "durable D X s" and rows: "same_rows X X'" and dict: "z = zstd_dict s \<or> zstd_dict s = None"
  shows "durable D X' (s\<lparr>zstd_dict := z\<rparr>)" and "stored_chain X' = stored_chain X"
proof -
  let ?t = "cold D (refilled X s)"
  have eq: "X' CF_BLOCKS = X CF_BLOCKS" "X' CF_HEADERS = X CF_HEADERS" "X' CF_CANONICAL = X CF_CANONICAL"
    "X' CF_METADATA (as_bytes META_TIP) = X CF_METADATA (as_bytes META_TIP)"
    "X' CF_METADATA (as_bytes META_MIN_HEIGHT) = X CF_METADATA (as_bytes META_MIN_HEIGHT)"
    using rows by (auto simp: same_rows_def dict_row_def fun_eq_iff)
  have "data_inv D (\<lambda>_. X) ?t" using d by (simp add: cold_data durable_def)
  from data_inv_dict [OF this rows, of z] dict have "data_inv D (\<lambda>_. X') (?t\<lparr>zstd_dict := z\<rparr>)"
    by (simp add: refilled_def)
  moreover have "?t\<lparr>zstd_dict := z\<rparr> = cold D (refilled X' (s\<lparr>zstd_dict := z\<rparr>))"
    using stored_agree [of X' X, OF eq(4,5)] by (simp add: cold_def refilled_def)
  ultimately have "rows_ok D (\<lambda>_. X') (refilled X' (s\<lparr>zstd_dict := z\<rparr>))" by (simp add: cold_data)
  with d eq stored_agree [of X' X, OF eq(4,5)] show "durable D X' (s\<lparr>zstd_dict := z\<rparr>)"
    by (simp add: durable_def refilled_def meta_ok_def cong: option.case_cong)
  show "stored_chain X' = stored_chain X" by (rule durable_agree(2) [of X' X, OF eq])
qed

lemma train_leaves [preserve_rules]: "preserves (leaves_chain D content c) (maybe_train_dictionary D)"
proof (rule preservesI)
  fix s r s' assume s: "leaves_chain D content c s" and run: "maybe_train_dictionary D s = (r, s')"
  note eff = maybe_train_effect [OF refl run]
  have "durable D (content (db s)) s" using s by (simp add: leaves_chain_def)
  note d = durable_dict [OF this eff]
  have "use_compression_dict s' = use_compression_dict s"
    using arg_cong [OF maybe_train_frame [OF run], of use_compression_dict] by simp
  then have "durable D (content (db s')) s' = durable D (content (db s')) (s\<lparr>zstd_dict := zstd_dict s'\<rparr>)"
    by (intro durable_cong) simp_all
  with d s show "leaves_chain D content c s'" by (simp add: leaves_chain_def)
qed

end

end
