(* ===== verification/Interrupted.thy ===== *)
theory Interrupted
  imports Durable
begin

text \<open>
  What each request leaves in the database, whatever its outcome. The chain that is left is the
  old one, the one the request leads to, or, where the request writes more than once, the one
  between the two writes.
\<close>

section \<open>Runs that may stop anywhere\<close>

definition leaves_one_of ::
  "('d, 'b, 'h, 'g) deps \<Rightarrow> ('d \<Rightarrow> db_content) \<Rightarrow> chain set \<Rightarrow> ('d, 'b, 'h, 'g) store \<Rightarrow> bool" where
  "leaves_one_of D content C s \<longleftrightarrow> (\<exists>c\<in>C. leaves_chain D content c s)"

lemma leaves_one_ofI: "leaves_chain D content c s \<Longrightarrow> c \<in> C \<Longrightarrow> leaves_one_of D content C s"
  by (auto simp: leaves_one_of_def)

lemma ends_seq:
  assumes "yields P m R" and "\<And>x. R x \<Longrightarrow> ends P (f x) Q" and "\<And>s. P s \<Longrightarrow> Q s"
  shows "ends P (tryM m f) Q"
  unfolding ends_def
proof (intro allI impI)
  fix s assume P: "P s"
  obtain r t where m: "m s = (r, t)" by force
  have t: "P t" using yieldsD [OF assms(1) P m] .
  show "Q (snd (tryM m f s))"
  proof (cases r)
    case (Ok x)
    from yields_OkD [OF assms(1) P m [unfolded Ok]] assms(2) have "ends P (f x) Q" by blast
    with t m Ok show ?thesis by (simp add: tryM_def ends_def)
  qed (use m t assms(3) in \<open>simp_all add: tryM_def\<close>)
qed

lemma ends_value:
  "yields P m (\<lambda>x. x = v) \<Longrightarrow> ends P (f v) Q \<Longrightarrow> (\<And>s. P s \<Longrightarrow> Q s) \<Longrightarrow> ends P (tryM m f) Q"
  by (rule ends_seq [where R = "\<lambda>x. x = v"]) simp_all

lemma ends_option:
  "(x = None \<Longrightarrow> ends P m Q) \<Longrightarrow> (\<And>a. x = Some a \<Longrightarrow> ends P (f a) Q) \<Longrightarrow>
    ends P (case x of None \<Rightarrow> m | Some a \<Rightarrow> f a) Q"
  by (cases x) auto

text \<open>Only the runs that do not return with \<open>Ok\<close>.\<close>

definition stops :: "('s \<Rightarrow> bool) \<Rightarrow> ('s, 'e, 'a) operation \<Rightarrow> ('s \<Rightarrow> bool) \<Rightarrow> bool" where
  "stops P m Q \<longleftrightarrow> (\<forall>s r s'. P s \<longrightarrow> m s = (r, s') \<longrightarrow> (\<forall>x. r \<noteq> Ok x) \<longrightarrow> Q s')"

lemma stopsD: "stops P m Q \<Longrightarrow> P s \<Longrightarrow> m s = (r, s') \<Longrightarrow> (\<And>x. r \<noteq> Ok x) \<Longrightarrow> Q s'"
  by (auto simp: stops_def)

lemma stops_basic:
  "(\<And>s. P s \<Longrightarrow> Q s) \<Longrightarrow> stops P (failM e) Q" "stops P (returnM x) Q" "stops P (modifyM f) Q"
  by (auto simp: stops_def)

lemma stops_seq:
  assumes "yields P m R" and "\<And>x. R x \<Longrightarrow> stops P (f x) Q" and "\<And>s. P s \<Longrightarrow> Q s"
  shows "stops P (tryM m f) Q"
  unfolding stops_def
proof (intro allI impI)
  fix s r s' assume P: "P s" and run: "tryM m f s = (r, s')" and no: "\<forall>x. r \<noteq> Ok x"
  obtain r1 t where m: "m s = (r1, t)" by force
  have t: "P t" using yieldsD [OF assms(1) P m] .
  show "Q s'"
  proof (cases r1)
    case (Ok x)
    from yields_OkD [OF assms(1) P m [unfolded Ok]] assms(2) have "stops P (f x) Q" by blast
    with t m Ok run no show ?thesis by (simp add: tryM_def stops_def)
  qed (use m t assms(3) run in \<open>auto simp: tryM_def\<close>)
qed

lemma stops_value:
  "yields P m (\<lambda>x. x = v) \<Longrightarrow> stops P (f v) Q \<Longrightarrow> (\<And>s. P s \<Longrightarrow> Q s) \<Longrightarrow> stops P (tryM m f) Q"
  by (rule stops_seq [where R = "\<lambda>x. x = v"]) simp_all

lemma stops_if:
  "(b \<Longrightarrow> stops P m Q) \<Longrightarrow> (\<not> b \<Longrightarrow> stops P m' Q) \<Longrightarrow> stops P (if b then m else m') Q"
  by auto

text \<open>The last step that may fail.\<close>

definition returns :: "('s, 'e, 'a) operation \<Rightarrow> bool" where
  "returns m \<longleftrightarrow> (\<forall>s. \<exists>x. fst (m s) = Ok x)"

lemma returns_basic: "returns (returnM y)" "returns (modifyM g)" "returns m \<Longrightarrow> (\<And>x. returns (f x)) \<Longrightarrow> returns (tryM m f)"
proof -
  show "returns (tryM m f)" if m: "returns m" and f: "\<And>x. returns (f x)"
    unfolding returns_def
  proof
    fix s
    obtain r t where run: "m s = (r, t)" by force
    with m obtain x where "r = Ok x" unfolding returns_def by (metis fst_conv)
    with run f [of x] show "\<exists>y. fst (tryM m f s) = Ok y" by (simp add: tryM_def returns_def)
  qed
qed (simp_all add: returns_def)

lemma returns_loop: "(\<And>x. returns (body x)) \<Longrightarrow> returns (forM xs body)"
  by (induction xs) (auto intro: returns_basic)

lemma stops_last:
  assumes "stops P m Q" and "\<And>x. returns (f x)"
  shows "stops P (tryM m f) Q"
  unfolding stops_def
proof (intro allI impI)
  fix s r s' assume P: "P s" and run: "tryM m f s = (r, s')" and no: "\<forall>x. r \<noteq> Ok x"
  obtain r1 t where m: "m s = (r1, t)" by force
  show "Q s'"
  proof (cases r1)
    case (Ok x)
    with m run have "f x t = (r, s')" by (simp add: tryM_def)
    with assms(2) [of x] no show ?thesis unfolding returns_def by (metis fst_conv)
  qed (use m P assms(1) run in \<open>auto simp: tryM_def stops_def\<close>)
qed

lemma stops_db_write: "(\<And>s. P s \<Longrightarrow> Q s) \<Longrightarrow> stops P (db_write D b) Q"
  by (auto simp: stops_def db_write_def split: sum.splits)

text \<open>The chains around the commit of a block.\<close>

definition put_chains :: "u64 \<Rightarrow> bytes32 \<Rightarrow> bool \<Rightarrow> chain \<Rightarrow> chain set" where
  "put_chains n h canonical c = {c, if canonical then spec_set n h c else c}"

text \<open>The heights of \<open>N\<close> cleared, then the entries of \<open>vs\<close>.\<close>

definition entry_heights :: "(bytes32 \<times> BlockRecord) list \<Rightarrow> (u64 \<times> bytes32) list" where
  "entry_heights vs = map (\<lambda>(h, r). (br_height r, h)) vs"

definition recut :: "u64 set \<Rightarrow> (u64 \<times> bytes32) list \<Rightarrow> chain \<Rightarrow> chain" where
  "recut N blocks c = fold (\<lambda>(n, h). spec_set n h) blocks (c\<lparr>ch_at := (\<lambda>n. if n \<in> N then None else ch_at c n)\<rparr>)"

lemma leaves_frame: "unchanged durable_part m \<Longrightarrow> preserves (leaves_chain D content c) m"
  by (rule preservesI) (metis leaves_chain_cong unchangedD)

context deps_laws
begin

lemma ends_commit:
  assumes "\<And>s d. P s \<Longrightarrow> content d = apply_batch b (content (db s)) \<Longrightarrow> P' (s\<lparr>db := d\<rparr>)"
    and "ends P' (f ()) Q" and "\<And>s. P s \<Longrightarrow> Q s"
  shows "ends P (tryM (db_write D b) f) Q"
  using assms by (auto simp: ends_def tryM_def db_write_def split: sum.splits dest: write_sound)

lemma stops_commit:
  assumes "\<And>s d. P s \<Longrightarrow> content d = apply_batch b (content (db s)) \<Longrightarrow> P' (s\<lparr>db := d\<rparr>)"
    and "stops P' (f ()) Q" and "\<And>s. P s \<Longrightarrow> Q s"
  shows "stops P (tryM (db_write D b) f) Q"
  unfolding stops_def
proof (intro allI impI)
  fix s r s' assume P: "P s" and run: "tryM (db_write D b) f s = (r, s')" and no: "\<forall>x. r \<noteq> Ok x"
  show "Q s'"
  proof (cases "rk_write (dp_rocks D) (db s) b")
    case (Inl e)
    with run P assms(3) show ?thesis by (auto simp: tryM_def db_write_def)
  next
    case (Inr d)
    with run have "f () (s\<lparr>db := d\<rparr>) = (r, s')" by (simp add: tryM_def db_write_def)
    from stopsD [OF assms(2) assms(1) [OF P write_sound [OF Inr]] this] no show ?thesis by blast
  qed
qed

lemma ends_put:
  assumes "\<And>s d. P s \<Longrightarrow> content d = (content (db s))(cf := (content (db s) cf)(k \<mapsto> v)) \<Longrightarrow> P' (s\<lparr>db := d\<rparr>)"
    and "ends P' (f ()) Q" and "\<And>s. P s \<Longrightarrow> Q s"
  shows "ends P (tryM (db_put D cf k v) f) Q"
  using assms by (auto simp: ends_def tryM_def db_put_def split: sum.splits dest: put_sound)

section \<open>Before the write\<close>

lemma reading_same: "unchanged (\<lambda>s. s) m \<Longrightarrow> yields (reading D content s0) m (\<lambda>_. True)"
  by (auto simp: yields_def dest: unchanged_state)

lemmas reading_guards = reading_same [OF unchanged_reads(5)] reading_same [OF unchanged_reads(6)]

lemma reading_tip:
  "yields (reading D content s0) (getM tip) (\<lambda>t. t = tip s0)"
  "yields (reading D content s0) (liftM (ok_or NoTip (tip s0))) (\<lambda>t. tip s0 = Some t)"
  "yields (reading D content s0) min_retained_height (\<lambda>n. n = min_retained_height_cached s0)"
  "yields (reading D content s0) (liftM (plain_add oc n 1)) (\<lambda>x. x = n + 1)"
  by (auto simp: yields_def reading_def min_retained_height_def run_simps dest: core_eqD(3,7))

lemma reading_serialize: "yields (reading D content s0) (serialize_block D b) (block_frame D (active_dict s0) b)"
proof (rule yields_readingI)
  fix s r s' assume inv: "store_inv D content s" and d: "active_dict s = active_dict s0"
    and run: "serialize_block D b s = (r, s')"
  have "s' = s" by (rule unchanged_state [OF unchanged_serialize run])
  with inv run d show "store_inv D content s' \<and> core s' = core s \<and> (\<forall>x. r = Ok x \<longrightarrow> block_frame D (active_dict s0) b x)"
    by (auto dest: serialize_block_Ok)
qed

lemma reading_leaves:
  assumes "reading D content s0 s"
  shows "leaves_chain D content (abs_chain content s0) s" and "durable D (content (db s0)) s"
    and "db s = db s0" and "active_dict s = active_dict s0" and "stored_chain (content (db s0)) = abs_chain content s0"
proof -
  have inv: "store_inv D content s" and c: "core s = core s0" using assms by (simp_all add: reading_def)
  note eq = core_eqD [OF c]
  have "abs_chain content s = abs_chain content s0"
    using core_known(6) [OF c] c by (simp add: abs_chain_def core_def)
  with leaves_chain_inv [OF inv] show l: "leaves_chain D content (abs_chain content s0) s" by simp
  show db: "db s = db s0" and "active_dict s = active_dict s0" using eq by simp_all
  from l show "durable D (content (db s0)) s" "stored_chain (content (db s0)) = abs_chain content s0"
    by (simp_all add: leaves_chain_def db)
qed

lemma reading_one_of:
  "reading D content s0 s \<Longrightarrow> abs_chain content s0 \<in> C \<Longrightarrow> leaves_one_of D content C s"
  using reading_leaves(1) leaves_one_ofI by blast

lemma reading_commit:
  assumes "reading D content s0 s" and "durable D (content d) s" and "stored_chain (content d) = c"
  shows "leaves_chain D content c (s\<lparr>db := d\<rparr>)"
proof -
  have "durable D (content d) (s\<lparr>db := d\<rparr>) = durable D (content d) s" by (rule durable_cong) simp_all
  with assms(2,3) show ?thesis by (simp add: leaves_chain_def)
qed

section \<open>New blocks\<close>

lemma put_rows_content:
  fixes b canonical
  defines "h \<equiv> hash_key (dp_block_hash D b)"
  shows "apply_batch (put_rows D b canonical c c') X CF_BLOCKS = (X CF_BLOCKS)(h \<mapsto> c)"
    and "apply_batch (put_rows D b canonical c c') X CF_HEADERS = (X CF_HEADERS)(h \<mapsto> c')"
    and "apply_batch (put_rows D b canonical c c') X CF_METADATA = X CF_METADATA"
    and "apply_batch (put_rows D b canonical c c') X CF_CANONICAL =
      (if canonical then (X CF_CANONICAL)(height_key (dp_block_height D b) \<mapsto> h) else X CF_CANONICAL)"
  by (auto simp: put_rows_def block_rows_def h_def)

lemma put_rows_durable:
  assumes d: "durable D X s" and new: "X CF_BLOCKS (hash_key (dp_block_hash D b)) = None"
    and fr: "block_frame D (active_dict s) b c" and ser: "dp_ser_header D (blk_header b) = Inr c'"
    and X': "X' = apply_batch (put_rows D b canonical c c') X"
  shows "durable D X' s" and "stored_chain X' =
    (if canonical then spec_set (dp_block_height D b) (dp_block_hash D b) (stored_chain X) else stored_chain X)"
proof -
  let ?Y = "X'(CF_CANONICAL := X CF_CANONICAL)"
  have Y: "durable D ?Y s"
    by (rule durable_block [OF d new fr ser]) (simp_all add: X' put_rows_content)
  show "durable D X' s"
  proof (rule durable_canonical(1) [OF Y])
    show "length k = 8 \<and> length v = 32" if "X' CF_CANONICAL k = Some v" for k v
      using that d by (auto simp: X' put_rows_content durable_def split: if_splits)
  qed simp
  show "stored_chain X' =
    (if canonical then spec_set (dp_block_height D b) (dp_block_hash D b) (stored_chain X) else stored_chain X)"
  proof (cases canonical)
    case True
    then show ?thesis
      using stored_chain_put [of X' X "dp_block_height D b" "dp_block_hash D b"] by (simp add: X' put_rows_content)
  next
    case False
    have "stored_tip X' = stored_tip X" "stored_min X' = stored_min X"
      by (simp_all add: stored_tip_def stored_min_def X' put_rows_content)
    with False show ?thesis by (simp add: stored_chain_def X' put_rows_content cong: if_cong)
  qed
qed

lemma put_block_interrupted:
  assumes inv: "store_inv D content s0"
  shows "ends (reading D content s0) (put_block D b canonical)
    (leaves_one_of D content (put_chains (dp_block_height D b) (dp_block_hash D b) canonical (abs_chain content s0)))"
proof -
  let ?c = "abs_chain content s0"
  let ?c' = "if canonical then spec_set (dp_block_height D b) (dp_block_hash D b) ?c else ?c"
  let ?Q = "leaves_one_of D content (put_chains (dp_block_height D b) (dp_block_hash D b) canonical ?c)"
  have old: "?Q s" if "reading D content s0 s" for s
    using reading_one_of [OF that] by (simp add: put_chains_def)
  have new: "?Q s" if "leaves_chain D content ?c' s" for s
    using leaves_one_ofI [OF that] by (simp add: put_chains_def)
  have commit: "leaves_chain D content ?c' (s\<lparr>db := d\<rparr>)"
    if s: "reading D content s0 s" and d: "content d = apply_batch (put_rows D b canonical c c') (content (db s))"
      and row: "content (db s0) CF_BLOCKS (hash_key (dp_block_hash D b)) = None"
      and fr: "block_frame D (active_dict s0) b c" and ser: "serialize_header D (blk_header b) = Ok c'" for s d c c'
  proof -
    note l = reading_leaves [OF s]
    have "dp_ser_header D (blk_header b) = Inr c'" using ser by (simp add: serialize_header_Ok)
    note rows = put_rows_durable [OF l(2) row fr [folded l(4)] this d [unfolded l(3)]]
    show ?thesis by (rule reading_commit [OF s rows(1)]) (simp add: rows(2) l(5))
  qed
  have tail: "preserves (leaves_chain D content c)
      (tryM (if canonical
            then tryM (with_bin (extend_write (dp_io D) n h)) (\<lambda>_. insert_canonical_height_cache n h)
            else returnM ()) (\<lambda>_.
       tryM (record_cache_insert h rc) (\<lambda>_.
       tryM (block_cache_insert D h b) (\<lambda>_.
       tryM (header_cache_insert D h hdr) (\<lambda>_.
       tryM (hash_to_height_insert D h n) (\<lambda>_.
       tryM (maybe_train_dictionary D) (\<lambda>_.
       returnM True)))))))" for c n h rc hdr
    by (intro preserves_tryM train_leaves preserves_if preserves_basic leaves_frame frame_rules)
      (simp_all add: durable_part_def)
  show ?thesis
    unfolding put_block_def Let_def put_rows_def [symmetric]
    by (intro ends_seq [OF reading_guards(1)] ends_seq [OF reading_steps(1)] ends_seq [OF reading_steps(2)] ends_split
        ends_basic ends_seq [OF reading_serialize] ends_seq [where m = "liftM r" and R = "\<lambda>x. r = Ok x" for r]
        ends_seq [where m = "if x then cf_handle D cf else returnM ()" and R = "\<lambda>_. True" for x cf]
        ends_commit [where P' = "leaves_chain D content ?c'"] ends_preserves [OF tail])
      (auto intro!: yields_basic intro: old new commit reading_steps(1) yields_if split del: if_split)
qed

section \<open>The tip\<close>

lemma leaves_tip:
  assumes "leaves_chain D content c s"
    and "content d = (content (db s))(CF_METADATA := (content (db s) CF_METADATA)(as_bytes META_TIP \<mapsto> tip_to_bytes t))"
  shows "leaves_chain D content (c\<lparr>ch_tip := Some t\<rparr>) (s\<lparr>db := d\<rparr>)"
proof -
  have l: "durable D (content (db s)) s" "stored_chain (content (db s)) = c"
    using assms(1) by (simp_all add: leaves_chain_def)
  have "durable D (content d) (s\<lparr>db := d\<rparr>) = durable D (content d) s" by (rule durable_cong) simp_all
  with durable_tip [OF l(1) assms(2)] l(2) show ?thesis by (simp add: leaves_chain_def)
qed

lemma preserves_leaves_modify:
  assumes "\<And>s. durable_part (f s) = durable_part s"
  shows "preserves (leaves_chain D content c) (modifyM f)"
  by (rule leaves_frame) (simp add: unchanged_def assms)

lemma set_tip_interrupted:
  "ends (leaves_chain D content c) (set_tip D t) (leaves_one_of D content {c, c\<lparr>ch_tip := Some t\<rparr>})"
proof -
  let ?c = "c\<lparr>ch_tip := Some t\<rparr>" and ?Q = "leaves_one_of D content {c, c\<lparr>ch_tip := Some t\<rparr>}"
  have old: "?Q s" if "leaves_chain D content c s" for s using leaves_one_ofI [OF that] by simp
  have new: "?Q s" if "leaves_chain D content ?c s" for s using leaves_one_ofI [OF that] by simp
  have same: "yields (leaves_chain D content c) m (\<lambda>_. True)" if "unchanged (\<lambda>s. s) m"
    for m :: "('d, 'b, 'h, 'g, unit) store_op"
    by (rule preserves_yields [OF preserves_unchanged [OF that]])
  have tip: "preserves (leaves_chain D content ?c) (modifyM (\<lambda>s. s\<lparr>tip := Some t\<rparr>))"
    by (rule preserves_leaves_modify) (simp add: durable_part_def)
  have put: "ends (leaves_chain D content c) (tryM (db_put D CF_METADATA (as_bytes META_TIP) (tip_to_bytes t))
      (\<lambda>_. modifyM (\<lambda>s. s\<lparr>tip := Some t\<rparr>))) ?Q"
    by (rule ends_put [where P' = "leaves_chain D content ?c", OF leaves_tip ends_preserves [OF tip new] old])
  show ?thesis
    unfolding set_tip_def
    by (rule ends_seq [OF same [OF unchanged_reads(5)] ends_seq [OF same [OF unchanged_reads(1)] put old] old])
qed

section \<open>Canonical entries\<close>

lemma leaves_entries:
  fixes X X' :: db_content and N :: "u64 set"
  assumes d: "durable D X s" and other: "\<And>cf. cf \<noteq> CF_CANONICAL \<Longrightarrow> X' cf = X cf"
    and shape: "\<And>k v. X' CF_CANONICAL k = Some v \<Longrightarrow> length k = 8 \<and> length v = 32"
    and rows: "\<And>n. X' CF_CANONICAL (height_key n) = (case entries_at vs n of Some h \<Rightarrow> Some (hash_key h)
      | None \<Rightarrow> if n \<in> N then None else X CF_CANONICAL (height_key n))"
  shows "durable D X' s" and "stored_chain X' = recut N (entry_heights vs) (stored_chain X)"
proof -
  note same = durable_canonical [OF d other shape]
  show "durable D X' s" by (rule same(1))
  let ?c = "stored_chain X"
  have "ch_at (stored_chain X') n = ch_at (recut N (entry_heights vs) ?c) n" for n
    by (auto simp: recut_def fold_spec_set entry_heights_def entries_at_def stored_chain_def same(2,3) rows hash_key_def
        split: option.splits)
  then show "stored_chain X' = recut N (entry_heights vs) ?c"
    by (intro chain.equality) (simp_all add: fun_eq_iff recut_def fold_spec_set stored_chain_def same(2,3))
qed

lemma durable_shape: "durable D X s \<Longrightarrow> X CF_CANONICAL k = Some v \<Longrightarrow> length k = 8 \<and> length v = 32"
  by (auto simp: durable_def)

lemma deletes_shape:
  "durable D X s \<Longrightarrow> apply_batch (map (\<lambda>n. DeleteCf CF_CANONICAL (height_key n)) ns) X CF_CANONICAL k = Some v \<Longrightarrow>
    length k = 8 \<and> length v = 32"
  by (auto simp: apply_deletes durable_def split: if_splits)

text \<open>The three batches of canonical rows.\<close>

lemma leaves_puts:
  assumes "durable D X s"
  shows "durable D (apply_batch (canonical_puts vs) X) s"
    and "stored_chain (apply_batch (canonical_puts vs) X) = recut {} (entry_heights vs) (stored_chain X)"
proof -
  have shape: "length k = 8 \<and> length v = 32" if "apply_batch (canonical_puts vs) X CF_CANONICAL k = Some v" for k v
    by (rule canonical_puts_shape [OF durable_shape [OF assms] that])
  have rows: "apply_batch (canonical_puts vs) X CF_CANONICAL (height_key n) = (case entries_at vs n of
      Some h \<Rightarrow> Some (hash_key h) | None \<Rightarrow> if n \<in> {} then None else X CF_CANONICAL (height_key n))" for n
    by (simp add: canonical_puts_rows split: option.splits)
  show "durable D (apply_batch (canonical_puts vs) X) s"
    "stored_chain (apply_batch (canonical_puts vs) X) = recut {} (entry_heights vs) (stored_chain X)"
    by (rule leaves_entries [OF assms canonical_puts_other shape rows]; assumption)+
qed

lemma leaves_deletes:
  fixes ns :: "u64 list"
  assumes "durable D X s"
  defines "X' \<equiv> apply_batch (map (\<lambda>n. DeleteCf CF_CANONICAL (height_key n)) ns) X"
  shows "durable D X' s" and "stored_chain X' = recut (set ns) [] (stored_chain X)"
proof -
  have inj: "height_key n \<in> height_key ` set ns \<longleftrightarrow> n \<in> set ns" for n by auto
  have shape: "length k = 8 \<and> length v = 32" if "X' CF_CANONICAL k = Some v" for k v
    using deletes_shape [OF assms(1)] that unfolding X'_def by blast
  have rows: "X' CF_CANONICAL (height_key n) = (case entries_at [] n of
      Some h \<Rightarrow> Some (hash_key h) | None \<Rightarrow> if n \<in> set ns then None else X CF_CANONICAL (height_key n))" for n
    by (simp add: X'_def apply_deletes inj entries_at_def)
  have other: "X' cf = X cf" if "cf \<noteq> CF_CANONICAL" for cf using that by (simp add: X'_def apply_deletes_other)
  show "durable D X' s" "stored_chain X' = recut (set ns) [] (stored_chain X)"
    using leaves_entries [OF assms(1) other shape rows] by (simp_all add: entry_heights_def)
qed

lemma leaves_reorg:
  fixes heights vs t X
  assumes "durable D X s"
  defines "X' \<equiv> apply_batch (reorg_rows heights vs t) X"
  shows "durable D X' s"
    and "stored_chain X' = (recut (set heights) (entry_heights vs) (stored_chain X))\<lparr>ch_tip := Some t\<rparr>"
proof -
  let ?Y = "apply_batch (map (\<lambda>n. DeleteCf CF_CANONICAL (height_key n)) (rev heights) @ canonical_puts vs) X"
  have inj: "height_key n \<in> height_key ` set heights \<longleftrightarrow> n \<in> set heights" for n by auto
  have shape: "length k = 8 \<and> length v = 32" if "?Y CF_CANONICAL k = Some v" for k v
    by (rule canonical_puts_shape [OF deletes_shape [OF assms(1)]]) (use that in simp_all)
  have rows: "?Y CF_CANONICAL (height_key n) = (case entries_at vs n of
      Some h \<Rightarrow> Some (hash_key h) | None \<Rightarrow> if n \<in> set heights then None else X CF_CANONICAL (height_key n))" for n
    by (simp add: canonical_puts_rows apply_deletes inj split: option.splits)
  have other: "?Y cf = X cf" if "cf \<noteq> CF_CANONICAL" for cf
    using that by (simp add: apply_deletes_other canonical_puts_other)
  note Y = leaves_entries [OF assms(1) other shape rows]
  have X': "X' = ?Y(CF_METADATA := (?Y CF_METADATA)(as_bytes META_TIP \<mapsto> tip_to_bytes t))"
    by (simp add: X'_def reorg_rows_def)
  show "durable D X' s" "stored_chain X' = (recut (set heights) (entry_heights vs) (stored_chain X))\<lparr>ch_tip := Some t\<rparr>"
    using durable_tip [OF Y(1) X'] Y(2) by simp_all
qed

end

end
