(* ===== verification/Crash.thy ===== *)
theory Crash
  imports Interrupted
begin

text \<open>
  What every request leaves in the database, whatever its outcome: \<open>may_leave\<close> lists the abstract
  chains. All requests but two commit once, so that the chain is the old one or the new one;
  \<open>rollback_to_height\<close> and \<open>extend_chain\<close> write the tip after the canonical rows, and a stop
  between the two leaves the rows moved under the old tip.
\<close>

section \<open>Requests that write once\<close>

definition placed ::
  "('d, 'b, 'h, 'g) deps \<Rightarrow> ('d \<Rightarrow> db_content) \<Rightarrow> ('d, 'b, 'h, 'g) store \<Rightarrow> bytes32 list \<Rightarrow> (u64 \<times> bytes32) list set" where
  "placed D content s hashes = {blocks. map snd blocks = hashes \<and>
     (\<forall>(n, h) \<in> set blocks. \<exists>hdr. known_header D content s h hdr \<and> hd_height hdr = n)}"

lemma placed_entries:
  assumes "map fst vs = hashes" and "\<forall>(h, r) \<in> set vs. known_record D content s h r"
  shows "entry_heights vs \<in> placed D content s hashes"
proof -
  have "map snd (entry_heights vs) = hashes"
    using assms(1) by (simp add: entry_heights_def case_prod_unfold comp_def)
  moreover have "\<exists>hdr. known_header D content s h hdr \<and> hd_height hdr = n" if "(n, h) \<in> set (entry_heights vs)" for n h
    using that assms(2) by (fastforce simp: entry_heights_def known_record_def dest: record_matches_fields(2))
  ultimately show ?thesis by (auto simp: placed_def)
qed

text \<open>Clearing the heights above a target up to the tip.\<close>

lemma recut_above:
  assumes "ch_tip c = Some t" and "n + 1 \<noteq> 0"
  shows "recut (set (range_incl (n + 1) (tip_height t))) [] c = c\<lparr>ch_at := spec_cut n c\<rparr>"
proof -
  have "n + 1 \<le> m \<longleftrightarrow> n < m" for m
    using unatSuc [of n] assms(2) by (simp add: word_le_nat_alt word_less_nat_alt Suc_le_eq add.commute)
  then show ?thesis
    by (intro chain.equality) (auto simp: recut_def spec_cut_def assms(1) fun_eq_iff)
qed

lemma recut_nothing: "recut {} blocks c = fold (\<lambda>(n, h). spec_set n h) blocks c"
  by (simp add: recut_def)

context deps_laws
begin

lemma set_canonical_interrupted:
  assumes inv: "store_inv D content s0"
  shows "ends (reading D content s0) (set_canonical D h)
    (leaves_one_of D content (insert (abs_chain content s0)
       ((\<lambda>blocks. fold (\<lambda>(n, h). spec_set n h) blocks (abs_chain content s0)) ` placed D content s0 [h])))"
    (is "ends _ _ (leaves_one_of D content ?C)")
proof -
  have old: "leaves_one_of D content ?C s" if "reading D content s0 s" for s using reading_one_of [OF that] by simp
  have rest: "ends (reading D content s0)
      (tryM (db_put D CF_CANONICAL (height_key (br_height rc)) (hash_key h)) (\<lambda>_.
       tryM (with_bin (extend_write (dp_io D) (br_height rc) h)) (\<lambda>_.
       tryM (insert_canonical_height_cache (br_height rc) h) (\<lambda>_.
       tryM (hash_to_height_insert D h (br_height rc)) (\<lambda>_.
       mark_canonical h rc))))) (leaves_one_of D content ?C)" if rc: "known_record D content s0 h rc" for rc
  proof -
    let ?c = "recut {} (entry_heights [(h, rc)]) (abs_chain content s0)"
    have "?c \<in> ?C"
      using placed_entries [of "[(h, rc)]" "[h]" D content s0] rc by (auto simp: recut_nothing)
    note mem = this
    have new: "leaves_one_of D content ?C s" if "leaves_chain D content ?c s" for s
      by (rule leaves_one_ofI [OF that mem])
    have commit: "leaves_chain D content ?c (s\<lparr>db := d\<rparr>)"
      if s: "reading D content s0 s" and d: "content d = (content (db s))(CF_CANONICAL :=
        (content (db s) CF_CANONICAL)(height_key (br_height rc) \<mapsto> hash_key h))" for s d
    proof -
      note l = reading_leaves [OF s]
      have "content d = apply_batch (canonical_puts [(h, rc)]) (content (db s0))"
        by (simp add: d l(3) canonical_puts_def)
      with leaves_puts [OF l(2), of "[(h, rc)]"] l(5) show ?thesis
        by (intro reading_commit [OF s]) simp_all
    qed
    have tail: "preserves (leaves_chain D content ?c)
       (tryM (with_bin (extend_write (dp_io D) (br_height rc) h)) (\<lambda>_.
        tryM (insert_canonical_height_cache (br_height rc) h) (\<lambda>_.
        tryM (hash_to_height_insert D h (br_height rc)) (\<lambda>_.
        mark_canonical h rc))))"
      by (intro leaves_frame frame_rules) (simp_all add: durable_part_def)
    show ?thesis by (rule ends_put [where P' = "leaves_chain D content ?c", OF commit ends_preserves [OF tail new] old])
  qed
  show ?thesis
    unfolding set_canonical_def
    by (rule ends_seq [OF reading_guards(1) ends_seq [OF get_record_yields [OF inv] ends_option old] old])
      (auto intro!: ends_basic ends_seq [OF reading_steps(1) rest] old)
qed

lemma set_canonical_batch_interrupted:
  assumes inv: "store_inv D content s0"
  shows "ends (reading D content s0) (set_canonical_batch D hashes)
    (leaves_one_of D content (insert (abs_chain content s0)
       ((\<lambda>blocks. fold (\<lambda>(n, h). spec_set n h) blocks (abs_chain content s0)) ` placed D content s0 hashes)))"
    (is "ends _ _ (leaves_one_of D content ?C)")
proof -
  have old: "leaves_one_of D content ?C s" if "reading D content s0 s" for s using reading_one_of [OF that] by simp
  have rest: "ends (reading D content s0) (tryM (cf_handle D CF_CANONICAL) (\<lambda>_.
      tryM (db_write D (canonical_puts vs)) (\<lambda>_.
      forM vs (\<lambda>(h, rc). tryM (with_bin (extend_write (dp_io D) (br_height rc) h)) (\<lambda>_. mark_canonical h rc)))))
     (leaves_one_of D content ?C)"
    if vs: "map fst vs = hashes \<and> (\<forall>(h, r) \<in> set vs. known_record D content s0 h r)" for vs
  proof -
    let ?c = "recut {} (entry_heights vs) (abs_chain content s0)"
    have "?c \<in> ?C" using placed_entries [of vs hashes D content s0] vs by (auto simp: recut_nothing)
    note mem = this
    have new: "leaves_one_of D content ?C s" if "leaves_chain D content ?c s" for s
      by (rule leaves_one_ofI [OF that mem])
    have commit: "leaves_chain D content ?c (s\<lparr>db := d\<rparr>)"
      if s: "reading D content s0 s" and d: "content d = apply_batch (canonical_puts vs) (content (db s))" for s d
      using leaves_puts [OF reading_leaves(2) [OF s], of vs] reading_leaves(3,5) [OF s] d
      by (intro reading_commit [OF s]) simp_all
    have tail: "preserves (leaves_chain D content ?c)
       (forM vs (\<lambda>(h, rc). tryM (with_bin (extend_write (dp_io D) (br_height rc) h)) (\<lambda>_. mark_canonical h rc)))"
      by (intro leaves_frame frame_rules) (simp_all add: durable_part_def)
    show ?thesis
      by (rule ends_seq [OF reading_steps(1) ends_commit [where P' = "leaves_chain D content ?c",
            OF commit ends_preserves [OF tail new] old] old])
  qed
  show ?thesis
    unfolding set_canonical_batch_def canonical_puts_def [symmetric]
    by (rule ends_seq [OF reading_guards(1) ends_split [OF ends_basic(1) [OF old]
          ends_seq [OF validate_hashes_yields [OF inv] rest old]] old])
qed

lemma init_genesis_interrupted:
  assumes fresh: "content (db s0) CF_BLOCKS (hash_key (dp_block_hash D b)) = None"
  shows "ends (reading D content s0) (init_genesis D b)
    (leaves_one_of D content {abs_chain content s0, spec_extend 0 (dp_block_hash D b) (abs_chain content s0)})"
    (is "ends _ _ (leaves_one_of D content {?c, ?c'})")
proof -
  let ?h = "dp_block_hash D b" and ?t = "\<lparr>tip_hash = dp_block_hash D b, tip_height = 0\<rparr>"
  have old: "leaves_one_of D content {?c, ?c'} s" if "reading D content s0 s" for s using reading_one_of [OF that] by simp
  have new: "leaves_one_of D content {?c, ?c'} s" if "leaves_chain D content ?c' s" for s
    using leaves_one_ofI [OF that] by simp
  have commit: "leaves_chain D content ?c' (s\<lparr>db := d\<rparr>)"
    if s: "reading D content s0 s" and d: "content d = apply_batch (genesis_rows D b c c') (content (db s))"
      and fr: "block_frame D (active_dict s0) b c" and ser: "serialize_header D (blk_header b) = Ok c'"
      and n0: "dp_block_height D b = 0" for s d c c'
  proof -
    note l = reading_leaves [OF s]
    have "dp_ser_header D (blk_header b) = Inr c'" using ser by (simp add: serialize_header_Ok)
    note rows = put_rows_durable [OF l(2) fresh fr [folded l(4)] this refl, of True]
    let ?X = "apply_batch (put_rows D b True c c') (content (db s0))"
    let ?Y = "?X(CF_METADATA := (?X CF_METADATA)(as_bytes META_TIP \<mapsto> tip_to_bytes ?t))"
    note Y = durable_tip [OF rows(1) refl [of ?Y]]
    have agree: "content d CF_BLOCKS = ?Y CF_BLOCKS" "content d CF_HEADERS = ?Y CF_HEADERS" "content d CF_CANONICAL = ?Y CF_CANONICAL"
      "content d CF_METADATA (as_bytes META_TIP) = ?Y CF_METADATA (as_bytes META_TIP)"
      "content d CF_METADATA (as_bytes META_MIN_HEIGHT) = ?Y CF_METADATA (as_bytes META_MIN_HEIGHT)"
      by (simp_all add: d l(3) genesis_rows_def put_rows_def n0)
    note same = durable_agree [of "content d" ?Y, OF agree]
    show ?thesis
      by (rule reading_commit [OF s]) (use Y rows(2) l(5) n0 in \<open>simp_all add: same spec_extend_def\<close>)
  qed
  have tail: "preserves (leaves_chain D content c)
      (tryM (with_bin (extend_write (dp_io D) 0 h)) (\<lambda>_.
       tryM (modifyM (\<lambda>s. s\<lparr>tip := x\<rparr>)) (\<lambda>_.
       tryM (record_cache_insert h rc) (\<lambda>_.
       tryM (block_cache_insert D h b) (\<lambda>_.
       tryM (header_cache_insert D h hdr) (\<lambda>_.
       maybe_train_dictionary D))))))" for c h x rc hdr
    by (intro preserves_tryM train_leaves leaves_frame frame_rules) (simp_all add: durable_part_def)
  have guard: "yields (reading D content s0) (\<lambda>s. if read_only s then (Err e, s) else (Ok (), s)) (\<lambda>_. True)" for e
    by (simp add: yields_def)
  show ?thesis
    unfolding init_genesis_def Let_def genesis_rows_def [symmetric]
    by (intro ends_seq [OF guard] ends_seq [OF reading_steps(1)] ends_seq [OF reading_steps(2)] ends_split
        ends_seq [where m = "if x then returnM True else y" and R = "\<lambda>_. True" for x y]
        ends_basic ends_seq [OF reading_serialize] ends_seq [where m = "liftM r" and R = "\<lambda>x. r = Ok x" for r]
        ends_commit [where P' = "leaves_chain D content ?c'"] ends_preserves [OF tail])
      (auto intro!: yields_basic yields_if yields_bind [OF reading_steps(2)] intro: old new commit reading_steps(1) split del: if_split)
qed

section \<open>Requests that write twice\<close>

lemma extend_chain_stops:
  fixes b
  defines "n \<equiv> dp_block_height D b" and "h \<equiv> dp_block_hash D b"
  assumes inv: "store_inv D content s" and run: "extend_chain D b s = (r, s')" and no: "\<And>x. r \<noteq> Ok x"
  shows "leaves_one_of D content {abs_chain content s, spec_set n h (abs_chain content s)} s'"
    (is "leaves_one_of D content ?C s'")
proof -
  let ?t = "\<lparr>tip_hash = h, tip_height = n\<rparr>"
  obtain r1 s1 where has: "has_block D h s = (r1, s1)" by force
  have s1: "reading D content s s1" using yieldsD [OF has_block_yields [OF inv] reading_refl [OF inv] has] .
  then have inv1: "store_inv D content s1" by (simp add: reading_def)
  have abs1: "abs_chain content s1 = abs_chain content s"
    using reading_leaves(1) [OF s1] leaves_chain_inv [OF inv1] by (simp add: leaves_chain_def)
  show ?thesis
  proof (cases "r1 = Ok False")
    case False
    then have "s' = s1" using run has no
      by (cases r1) (auto simp: extend_chain_def h_def [symmetric] Let_def tryM_def)
    with reading_one_of [OF s1] show ?thesis by simp
  next
    case True
    with yields_OkD [OF has_block_yields [OF inv] reading_refl [OF inv] has [unfolded True]]
    have new: "content (db s1) CF_BLOCKS (hash_key h) = None" using reading_leaves(3) [OF s1] by simp
    obtain r2 s2 where put: "put_block D b True s1 = (r2, s2)" by force
    have rest: "tryM (\<lambda>_. (r2, s2)) (\<lambda>_. tryM (set_tip D ?t) (\<lambda>_. returnM True)) s1 = (r, s')"
      using run has put True
      by (simp add: extend_chain_def h_def [symmetric] n_def [symmetric] Let_def tryM_def put_def)
    show ?thesis
    proof (cases "\<exists>x. r2 = Ok x")
      case True
      then obtain x where ok: "put_block D b True s1 = (Ok x, s2)" using put by auto
      have x: "r2 = Ok True" using put_block_Ok [OF inv1 ok] put ok new by (simp add: h_def split: if_splits)
      have inv2: "store_inv D content s2" using put_block_Ok [OF inv1 put [unfolded x]] by simp
      have "abs_chain content s2 = spec_set n h (abs_chain content s)"
        using refines_put [OF inv1, of b True s2] put x abs1 by (simp add: put_def n_def h_def)
      with leaves_chain_inv [OF inv2] have "leaves_chain D content (spec_set n h (abs_chain content s)) s2" by simp
      moreover have "s' = s2"
      proof -
        obtain r3 s3 where tip: "set_tip D ?t s2 = (r3, s3)" by force
        with rest x no have "r3 \<noteq> Ok ()" "s' = s3" by (cases r3; auto simp: tryM_def)+
        with set_tip_state [OF tip] show ?thesis by auto
      qed
      ultimately show ?thesis by (simp add: leaves_one_of_def)
    next
      case False
      with rest put have "put_block D b True s1 = (r2, s')" by (cases r2) (auto simp: tryM_def)
      from endsD [OF put_block_interrupted [OF inv1] reading_refl [OF inv1] this] abs1
      show ?thesis by (auto simp: leaves_one_of_def put_chains_def n_def h_def)
    qed
  qed
qed

lemma extend_chain_interrupted:
  fixes b
  defines "n \<equiv> dp_block_height D b" and "h \<equiv> dp_block_hash D b"
  assumes inv: "store_inv D content s" and run: "extend_chain D b s = (r, s')"
  shows "leaves_one_of D content {abs_chain content s, spec_set n h (abs_chain content s), spec_extend n h (abs_chain content s)} s'"
proof (cases "\<exists>x. r = Ok x")
  case True
  then obtain x where ok: "extend_chain D b s = (Ok x, s')" using run by blast
  have l: "leaves_chain D content (abs_chain content s') s'" by (rule leaves_chain_inv [OF extend_chain_Ok(1) [OF inv ok]])
  show ?thesis
  proof (cases x)
    case True
    with refines_extend [OF inv] ok l show ?thesis by (auto simp: leaves_one_of_def n_def h_def)
  next
    case False
    with extend_chain_Ok(3) [OF inv ok] have c: "core s' = core s" by simp
    then have "abs_chain content s' = abs_chain content s"
      using core_known(6) [OF c] by (simp add: abs_chain_def core_def)
    with l show ?thesis by (simp add: leaves_one_of_def)
  qed
next
  case False
  with extend_chain_stops [OF inv run] show ?thesis by (auto simp: leaves_one_of_def n_def h_def)
qed

lemma apply_reorg_interrupted:
  assumes inv: "store_inv D content s0" and wrap: "ancestor + 1 \<noteq> 0"
  shows "ends (reading D content s0) (apply_reorg D ancestor hashes)
    (leaves_one_of D content (insert (abs_chain content s0)
       ((\<lambda>blocks. spec_reorg ancestor blocks (abs_chain content s0)) ` (placed D content s0 hashes - {[]}))))"
    (is "ends _ _ (leaves_one_of D content ?C)")
proof -
  have old: "leaves_one_of D content ?C s" if "reading D content s0 s" for s using reading_one_of [OF that] by simp
  let ?new = "\<lambda>t vs. \<lparr>tip_hash = last hashes, tip_height = br_height (snd (last vs))\<rparr>"
  let ?c = "\<lambda>t vs. (recut (set (range_incl (ancestor + 1) (tip_height t))) (entry_heights vs) (abs_chain content s0))
      \<lparr>ch_tip := Some (?new t vs)\<rparr>"
  have new: "leaves_one_of D content ?C s"
    if l: "leaves_chain D content (?c t vs) s" and t: "tip s0 = Some t" and ne: "hashes \<noteq> []"
      and vs: "map fst vs = hashes \<and> (\<forall>(h, r) \<in> set vs. known_record D content s0 h r)" for s t vs
  proof (rule leaves_one_ofI [OF l])
    have "vs \<noteq> []" using ne vs by auto
    then have last: "snd (last (entry_heights vs)) = last hashes" "fst (last (entry_heights vs)) = br_height (snd (last vs))"
      and "entry_heights vs \<noteq> []"
      using vs by (auto simp: entry_heights_def last_map case_prod_unfold)
    have "?c t vs = spec_reorg ancestor (entry_heights vs) (abs_chain content s0)"
      using recut_above [of "abs_chain content s0" t ancestor, OF _ wrap] t
      by (simp add: spec_reorg_def last recut_def abs_chain_def)
    with placed_entries [of vs hashes D content s0] vs \<open>entry_heights vs \<noteq> []\<close> show "?c t vs \<in> ?C" by auto
  qed
  have commit: "leaves_chain D content (?c t vs) (s\<lparr>db := d\<rparr>)"
    if s: "reading D content s0 s" and d: "content d = apply_batch (reorg_rows (range_incl (ancestor + 1) (tip_height t)) vs (?new t vs)) (content (db s))"
    for s d t vs
    using leaves_reorg [OF reading_leaves(2) [OF s], of "range_incl (ancestor + 1) (tip_height t)" vs "?new t vs"]
      reading_leaves(3,5) [OF s] d
    by (intro reading_commit [OF s]) simp_all
  have tail: "preserves (leaves_chain D content c)
      (tryM (with_bin (truncate_to_height (dp_io D) ancestor)) (\<lambda>_.
       tryM (forM vs (\<lambda>(hash, record). with_bin (extend_write (dp_io D) (br_height record) hash))) (\<lambda>_.
       tryM (flag_records False reverted) (\<lambda>_.
       tryM (flag_records True (map fst vs)) (\<lambda>_.
       tryM (modifyM (\<lambda>s. s\<lparr>canonical_height_cache := f vs (canonical_height_cache s)\<rparr>)) (\<lambda>_.
       tryM (modifyM (\<lambda>s. s\<lparr>tip := x\<rparr>)) (\<lambda>_.
       returnM rr)))))))" for c vs reverted x f rr
    by (intro leaves_frame frame_rules) (simp_all add: durable_part_def)
  have rest: "ends (reading D content s0)
       (tryM (db_write D (reorg_rows (range_incl (ancestor + 1) (tip_height t)) vs (?new t vs))) (\<lambda>_.
        tryM (with_bin (truncate_to_height (dp_io D) ancestor)) (\<lambda>_.
        tryM (forM vs (\<lambda>(hash, record). with_bin (extend_write (dp_io D) (br_height record) hash))) (\<lambda>_.
        tryM (flag_records False reverted) (\<lambda>_.
        tryM (flag_records True (map fst vs)) (\<lambda>_.
        tryM (modifyM (\<lambda>s. s\<lparr>canonical_height_cache := f vs (canonical_height_cache s)\<rparr>)) (\<lambda>_.
        tryM (modifyM (\<lambda>s. s\<lparr>tip := x\<rparr>)) (\<lambda>_.
        returnM rr)))))))) (leaves_one_of D content ?C)"
    if "tip s0 = Some t" "hashes \<noteq> []" "map fst vs = hashes \<and> (\<forall>(h, r) \<in> set vs. known_record D content s0 h r)"
    for t vs reverted f x and rr :: ReorgResult
    by (rule ends_commit [where P' = "leaves_chain D content (?c t vs)", OF commit ends_preserves [OF tail new [OF _ that]] old])
  show ?thesis
    unfolding apply_reorg_def Let_def canonical_puts_def [symmetric] reorg_rows_def [symmetric]
    by (intro ends_seq [OF reading_guards(1)] ends_seq [OF reading_steps(1)] ends_split ends_basic
        ends_value [OF reading_tip(1)] ends_seq [OF reading_tip(2)] ends_value [OF reading_tip(4)]
        ends_seq [OF validate_hashes_yields [OF inv]] ends_value [OF collect_hashes_yields [OF inv]] rest)
      (assumption | erule old)+
qed

text \<open>
  \<open>rollback_to_height\<close> deletes the rows above the target in one write and moves the tip in a second;
  after that nothing can fail. \<open>prune_before_height\<close> cannot fail once its batch is committed.
\<close>

lemma rollback_stops:
  assumes inv: "store_inv D content s0" and t: "tip s0 = Some t"
  shows "stops (reading D content s0) (rollback_to_height D target)
    (leaves_one_of D content {abs_chain content s0, (abs_chain content s0)\<lparr>ch_at := spec_cut target (abs_chain content s0)\<rparr>})"
    (is "stops _ _ ?Q")
proof -
  let ?c = "abs_chain content s0"
  let ?cut = "?c\<lparr>ch_at := spec_cut target ?c\<rparr>"
  let ?heights = "range_incl (target + 1) (tip_height t)"
  have old: "?Q s" if "reading D content s0 s" for s using reading_one_of [OF that] by simp
  have rest: "stops (reading D content s0) (tryM (db_write D (map (\<lambda>n. DeleteCf CF_CANONICAL (height_key n)) ?heights)) (\<lambda>_.
         tryM (with_bin (truncate_to_height (dp_io D) target)) (\<lambda>_.
         tryM (get_hash_by_height D target) (\<lambda>x.
         tryM (case x of
                 Some target_hash \<Rightarrow> set_tip D \<lparr>tip_hash = target_hash, tip_height = target\<rparr>
               | None \<Rightarrow> returnM ()) (\<lambda>_.
         tryM (flag_records False reverted) (\<lambda>_.
         tryM (modifyM (\<lambda>s. s\<lparr>canonical_height_cache := fold bt_remove ?heights (canonical_height_cache s)\<rparr>)) (\<lambda>_.
         returnM reverted))))))) ?Q"
    if less: "target < tip_height t" for reverted
  proof -
    have "target + 1 \<noteq> 0"
    proof
      assume "target + 1 = 0"
      then have "target = - 1" by (simp add: eq_neg_iff_add_eq_0)
      with less word_n1_ge [of "tip_height t"] show False by simp
    qed
    note cut = recut_above [of ?c t target, OF _ this]
    have new: "?Q s" if "leaves_chain D content ?cut s" for s
      using leaves_one_ofI [OF that] by simp
    have commit: "leaves_chain D content ?cut (s\<lparr>db := d\<rparr>)"
      if s: "reading D content s0 s"
        and d: "content d = apply_batch (map (\<lambda>n. DeleteCf CF_CANONICAL (height_key n)) ?heights) (content (db s))" for s d
      using leaves_deletes [OF reading_leaves(2) [OF s], of ?heights] reading_leaves(3,5) [OF s] d cut t
      by (intro reading_commit [OF s]) (simp_all add: abs_chain_def)
    have frame: "preserves (leaves_chain D content ?cut) (with_bin (truncate_to_height (dp_io D) target))"
      "preserves (leaves_chain D content ?cut) (get_hash_by_height D target)"
      unfolding get_hash_by_height_def by (intro leaves_frame frame_rules; simp add: durable_part_def)+
    have tip: "stops (leaves_chain D content ?cut) (case x of
        Some target_hash \<Rightarrow> set_tip D \<lparr>tip_hash = target_hash, tip_height = target\<rparr> | None \<Rightarrow> returnM ()) ?Q" for x
      by (cases x) (auto simp: stops_def set_tip_def tryM_def require_writable_def cf_handle_def db_put_def new
          split: if_splits sum.splits)
    show ?thesis
      by (intro stops_commit [where P' = "leaves_chain D content ?cut"] stops_seq [OF preserves_yields [OF frame(1)]]
          stops_seq [OF preserves_yields [OF frame(2)]] stops_last [OF tip] returns_basic)
        (auto simp: flag_records_def returns_basic intro: commit new old)
  qed
  show ?thesis
    unfolding rollback_to_height_def Let_def
    by (intro stops_seq [OF reading_guards(1)] stops_seq [OF reading_steps(1)] stops_if stops_basic
        stops_value [OF reading_tip(1)] stops_seq [OF reading_tip(2)] stops_value [OF reading_tip(3)]
        stops_value [OF reading_tip(4)] stops_value [OF collect_hashes_yields [OF inv]])
      (auto simp: t intro!: rest intro: old)
qed

lemma prune_stops:
  assumes inv: "store_inv D content s0"
  shows "stops (reading D content s0) (prune_before_height D height) (leaves_chain D content (abs_chain content s0))"
proof -
  have old: "leaves_chain D content (abs_chain content s0) s" if "reading D content s0 s" for s by (rule reading_leaves(1) [OF that])
  have fin: "stops (reading D content s0) (tryM (db_write D batch) (\<lambda>_. tryM (modifyM f) (\<lambda>_.
      tryM (forM pruned (evict_block D)) (\<lambda>_. tryM (modifyM g) (\<lambda>_. returnM n))))) (leaves_chain D content (abs_chain content s0))"
    for f g batch pruned and n :: usize
    unfolding evict_block_def by (intro stops_last [OF stops_db_write] returns_basic returns_loop old)
  have loop: "yields (reading D content s0) (foldM (\<lambda>acc item.
      tryM (next_item item) (\<lambda>row. returnM (h acc row))) acc items) (\<lambda>_. True)" for h acc items
    by (intro reading_same frame_rules)
  show ?thesis
    unfolding prune_before_height_def case_prod_unfold
    by (intro stops_seq [OF reading_guards(1)] stops_seq [OF reading_steps(1)] stops_if stops_basic
        stops_value [OF reading_tip(3)] stops_seq [OF prune_canonical_yields [OF inv]]
        stops_seq [OF reading_same [OF unchanged_reads(3)]] stops_seq [OF loop] fin)
      (erule old)+
qed

section \<open>Requests that leave the chain alone\<close>

lemma leaves_other_families:
  assumes l: "leaves_chain D content c s"
    and same: "\<And>cf. cf \<in> {CF_BLOCKS, CF_HEADERS, CF_CANONICAL, CF_METADATA} \<Longrightarrow> content d cf = content (db s) cf"
  shows "leaves_chain D content c (s\<lparr>db := d\<rparr>)"
proof -
  have eq: "content d cf = content (db s) cf" if "cf \<in> {CF_BLOCKS, CF_HEADERS, CF_CANONICAL, CF_METADATA}" for cf
    by (rule same [OF that])
  have "durable D (content d) (s\<lparr>db := d\<rparr>) = durable D (content d) s" by (rule durable_cong) simp_all
  also have "\<dots> = durable D (content (db s)) s" by (rule durable_agree(1)) (simp_all add: eq)
  finally have "durable D (content d) (s\<lparr>db := d\<rparr>)" using l by (simp add: leaves_chain_def)
  moreover have "stored_chain (content d) = stored_chain (content (db s))" by (rule durable_agree(2)) (simp_all add: eq)
  ultimately show ?thesis using l by (simp add: leaves_chain_def)
qed

lemma put_other:
  assumes "cf \<notin> {CF_BLOCKS, CF_HEADERS, CF_CANONICAL, CF_METADATA}"
  shows "preserves (leaves_chain D content c) (db_put D cf k v)"
proof (rule preservesI)
  fix s r s' assume l: "leaves_chain D content c s" and run: "db_put D cf k v s = (r, s')"
  show "leaves_chain D content c s'"
  proof (cases "rk_put_cf (dp_rocks D) (db s) cf k v")
    case (Inr d)
    then have "s' = s\<lparr>db := d\<rparr>" using run by (simp add: db_put_def)
    with put_sound [OF Inr] assms show ?thesis
      by (auto intro!: leaves_other_families [OF l])
  qed (use run l in \<open>simp add: db_put_def\<close>)
qed

lemma compaction_leaves:
  assumes inv: "store_inv D content s" and comp: "compacted D content s s'"
  shows "leaves_chain D content (abs_chain content s) s'"
proof -
  obtain d where s': "s' = s\<lparr>db := d\<rparr>" using comp by (auto simp: compacted_def)
  note keeps = compacted_keeps [OF inv comp]
  have "abs_chain content s' = abs_chain content s"
    using keeps(2) [of CF_CANONICAL] by (simp add: abs_chain_def canonical_at_def s' fun_eq_iff)
  with leaves_chain_inv [OF keeps(1)] show ?thesis by simp
qed

lemma flush_leaves:
  assumes inv: "store_inv D content s" and run: "flush D s = (r, s')"
  shows "leaves_chain D content (abs_chain content s) s'"
  using flush_keeps [OF run] leaves_other_families [OF leaves_chain_inv [OF inv]] by auto

lemma ends_then:
  assumes "ends P m Q" and "\<And>x. preserves Q (f x)"
  shows "ends P (tryM m f) Q"
  unfolding ends_def
proof (intro allI impI)
  fix s assume P: "P s"
  obtain r t where m: "m s = (r, t)" by force
  from endsD [OF assms(1) P m] assms(2) m show "Q (snd (tryM m f s))"
    by (cases r) (auto simp: tryM_def preserves_def)
qed

lemma prune_checkpoints_leaves:
  assumes l: "leaves_chain D content c s"
  shows "ends (\<lambda>t. t = s) (prune_checkpoints_before_epoch D e) (leaves_chain D content c)"
proof -
  have same: "yields (\<lambda>t. t = s) m (\<lambda>_. True)" if "unchanged (\<lambda>s. s) m" for m :: "('d, 'b, 'h, 'g, 'x) store_op"
    using unchanged_state [OF that] by (auto simp: yields_def)
  have wr: "ends (\<lambda>t. t = s) (db_write D batch) (leaves_chain D content c)" if del: "checkpoint_deletes batch" for batch
  proof (cases "rk_write (dp_rocks D) (db s) batch")
    case (Inr d)
    with write_sound [OF Inr] checkpoint_deletes_other [OF del] l show ?thesis
      by (auto simp: ends_def db_write_def intro!: leaves_other_families)
  qed (use l in \<open>simp add: ends_def db_write_def\<close>)
  have fin: "ends (\<lambda>t. t = s) (case x of (batch, count) \<Rightarrow>
      tryM (if 0 < count then db_write D batch else returnM ()) (\<lambda>_. returnM count)) (leaves_chain D content c)"
    if "case x of (batch, count) \<Rightarrow> checkpoint_deletes batch" for x :: "write_batch \<times> usize"
  proof (cases x)
    case (Pair batch count)
    with that have "checkpoint_deletes batch" by simp
    then show ?thesis
      unfolding Pair prod.case by (intro ends_then ends_split wr ends_basic preserves_basic) (simp_all add: l)
  qed
  show ?thesis
    unfolding prune_checkpoints_before_epoch_def
    by (intro ends_seq [OF same [OF unchanged_reads(5)]] ends_seq [OF same [OF unchanged_reads(1)]]
        ends_seq [OF same [OF unchanged_reads(3)]] ends_split ends_basic ends_seq [OF prune_checkpoint_loop] fin)
      (simp_all add: l)
qed

section \<open>Every request\<close>

lemma refines_prune:
  assumes inv: "store_inv D content s" and run: "prune_before_height D height s = (Ok count, s')"
  shows "abs_chain content s' = spec_prune height (abs_chain content s)"
proof (cases "min_retained_height_cached s < height")
  case True
  from prune_Ok [OF inv run this] True show ?thesis
    by (intro chain.equality) (auto simp: abs_chain_def spec_prune_def fun_eq_iff)
next
  case False
  with run have "s' = s" by (auto simp: prune_before_height_def min_retained_height_def run_simps split: if_splits)
  with False show ?thesis by (auto simp: spec_prune_def abs_chain_def)
qed

lemma rollback_interrupted:
  assumes inv: "store_inv D content s" and run: "rollback_to_height D n s = (r, s')"
  defines "c \<equiv> abs_chain content s"
  shows "leaves_one_of D content {c, c\<lparr>ch_at := spec_cut n c\<rparr>, spec_rollback n c} s'"
proof (cases "\<exists>x. r = Ok x")
  case True
  then obtain x where ok: "rollback_to_height D n s = (Ok x, s')" using run by blast
  have "store_inv D content s'" using rollback_Ok [OF inv ok] by blast
  from leaves_chain_inv [OF this] refines_rollback(1) [OF inv ok] show ?thesis by (auto simp: leaves_one_of_def c_def)
next
  case no: False
  show ?thesis
  proof (cases "tip s")
    case None
    then have "s' = s" using run by (auto simp: rollback_to_height_def tryM_def require_writable_def ok_or_def split: if_splits)
    with leaves_chain_inv [OF inv] show ?thesis by (auto simp: leaves_one_of_def c_def)
  next
    case (Some t)
    from stopsD [OF rollback_stops [OF inv Some] reading_refl [OF inv] run] no show ?thesis
      by (auto simp: leaves_one_of_def c_def)
  qed
qed

lemma prune_interrupted:
  assumes inv: "store_inv D content s" and run: "prune_before_height D n s = (r, s')"
  shows "leaves_one_of D content {abs_chain content s, spec_prune n (abs_chain content s)} s'"
proof (cases "\<exists>x. r = Ok x")
  case True
  then obtain x where ok: "prune_before_height D n s = (Ok x, s')" using run by blast
  from leaves_chain_inv [OF prune_keeps [OF inv ok]] refines_prune [OF inv ok] show ?thesis by (auto simp: leaves_one_of_def)
next
  case False
  with stopsD [OF prune_stops [OF inv] reading_refl [OF inv] run] show ?thesis by (auto simp: leaves_one_of_def)
qed

end

fun may_leave ::
  "('d, 'b, 'h, 'g) deps \<Rightarrow> ('d \<Rightarrow> db_content) \<Rightarrow> request \<Rightarrow> ('d, 'b, 'h, 'g) store \<Rightarrow> chain set" where
  "may_leave D content (PutBlock b canonical) s =
     put_chains (dp_block_height D b) (dp_block_hash D b) canonical (abs_chain content s)"
| "may_leave D content (InitGenesis b) s =
     {abs_chain content s, spec_extend 0 (dp_block_hash D b) (abs_chain content s)}"
| "may_leave D content (ExtendChain b) s =
     {abs_chain content s, spec_set (dp_block_height D b) (dp_block_hash D b) (abs_chain content s),
      spec_extend (dp_block_height D b) (dp_block_hash D b) (abs_chain content s)}"
| "may_leave D content (SetCanonical h) s =
     insert (abs_chain content s)
       ((\<lambda>blocks. fold (\<lambda>(n, h). spec_set n h) blocks (abs_chain content s)) ` placed D content s [h])"
| "may_leave D content (SetCanonicalBatch hs) s =
     insert (abs_chain content s)
       ((\<lambda>blocks. fold (\<lambda>(n, h). spec_set n h) blocks (abs_chain content s)) ` placed D content s hs)"
| "may_leave D content (SetTip t) s = {abs_chain content s, (abs_chain content s)\<lparr>ch_tip := Some t\<rparr>}"
| "may_leave D content (Rollback n) s =
     {abs_chain content s, (abs_chain content s)\<lparr>ch_at := spec_cut n (abs_chain content s)\<rparr>,
      spec_rollback n (abs_chain content s)}"
| "may_leave D content (Reorg n hs) s =
     insert (abs_chain content s)
       ((\<lambda>blocks. spec_reorg n blocks (abs_chain content s)) ` (placed D content s hs - {[]}))"
| "may_leave D content (PruneBefore n) s = {abs_chain content s, spec_prune n (abs_chain content s)}"
| "may_leave D content _ s = {abs_chain content s}"

context deps_laws
begin

lemma quiet_requests:
  assumes inv: "store_inv D content s" and run: "perform D rq s = (r, s')"
    and rq: "rq \<in> {UpdateStatus h st, PutCheckpoint ck, PruneCheckpoints e, PutAttestation h a, InvalidateBlock h,
      InvalidateHeader h, InvalidateRecord h, DisableCanonicalBin, CompactAll, FlushAll}"
  shows "leaves_chain D content (abs_chain content s) s'"
proof -
  note l = leaves_chain_inv [OF inv]
  have put: "preserves (leaves_chain D content c) (put_checkpoint D ck)" "preserves (leaves_chain D content c) (put_attestation D h a)" for c
    unfolding put_checkpoint_def put_attestation_def
    by (intro preserve_rules preserves_unchanged [OF unchanged_reads(5)] preserves_unchanged [OF unchanged_reads(1)] put_other; simp)+
  show ?thesis
  proof (cases "rq \<in> {UpdateStatus h st, InvalidateBlock h, InvalidateHeader h, InvalidateRecord h, DisableCanonicalBin}")
    case True
    with run have "durable_part s' = durable_part s"
      by (auto simp: update_status_def invalidate_block_cache_entry_def invalidate_header_cache_entry_def durable_part_def
          invalidate_record_cache_entry_def disable_canonical_bin_acceleration_def split: option.splits)
    from leaves_chain_cong [OF this] l show ?thesis by simp
  next
    case False
    with rq run show ?thesis
      by (auto dest!: call_state intro: preservesD [OF put(1) l] preservesD [OF put(2) l]
          endsD [OF prune_checkpoints_leaves [OF l] refl] compaction_leaves [OF inv compact_drops] flush_leaves [OF inv])
  qed
qed

lemma requests_leave:
  assumes inv: "store_inv D content s" and ok: "admitted D content rq s" and run: "perform D rq s = (r, s')"
  shows "leaves_one_of D content (may_leave D content rq s) s'"
proof (cases "reads_only rq")
  case True
  from reading_one_of [OF reads_read [OF inv True run]] True show ?thesis by (cases rq) simp_all
next
  case False
  note quiet = leaves_one_ofI [OF quiet_requests [OF inv run]] and now = reading_refl [OF inv]
  show ?thesis
  proof (cases rq)
    case (PutBlock b canonical)
    then obtain x where "put_block D b canonical s = (x, s')" using run by (auto simp: put_def dest: call_state)
    from endsD [OF put_block_interrupted [OF inv] now this] PutBlock show ?thesis by simp
  next
    case (InitGenesis b)
    with ok run endsD [OF init_genesis_interrupted now] show ?thesis by auto
  next
    case (ExtendChain b)
    then obtain x where "extend_chain D b s = (x, s')" using run by (auto dest: call_state)
    from extend_chain_interrupted [OF inv this] ExtendChain show ?thesis by simp
  next
    case (SetCanonical h)
    with run endsD [OF set_canonical_interrupted [OF inv] now] show ?thesis by simp
  next
    case (SetCanonicalBatch hs)
    with run endsD [OF set_canonical_batch_interrupted [OF inv] now] show ?thesis by simp
  next
    case (SetTip t)
    with run endsD [OF set_tip_interrupted leaves_chain_inv [OF inv]] show ?thesis by simp
  next
    case (Rollback n)
    then obtain x where "rollback_to_height D n s = (x, s')" using run by (auto dest: call_state)
    from rollback_interrupted [OF inv this] Rollback show ?thesis by simp
  next
    case (Reorg n hs)
    then obtain x where x: "apply_reorg D n hs s = (x, s')" using run by (auto dest: call_state)
    have "n + 1 \<noteq> 0" using Reorg ok by simp
    from endsD [OF apply_reorg_interrupted [OF inv this] now x] Reorg show ?thesis by simp
  next
    case (PruneBefore n)
    then obtain x where "prune_before_height D n s = (x, s')" using run by (auto dest: call_state)
    from prune_interrupted [OF inv this] PruneBefore show ?thesis by simp
  qed (use False in \<open>auto intro!: quiet\<close>)
qed

end

end
