(* ===== verification/Pipeline.thy ===== *)
theory Pipeline
  imports Streaming Writes "HOL-Library.Multiset"
begin

text \<open>
  The batched write pipeline (\<open>src/pipeline.rs\<close>): \<open>put_pipelined\<close> sends a block and an
  acknowledgement channel through a bounded queue to a worker task, which collects jobs until a
  batch is full or its timer fires and writes them with one batch (\<open>flush_pipeline_batch\<close>).

  An acknowledgement channel is a number and the acknowledgements sent are a log next to the
  store. The worker is a step relation: the queue, the buffer it collects into, and what it waits
  for. The lemmas show that every job is answered exactly once, what an answer tells, and that the
  worker never loses a job, also when the queue is closed.
\<close>

section \<open>One batch\<close>

type_synonym PipelineJob = "L2Block \<times> bool \<times> nat"

type_synonym acks = "(nat \<times> bool result) list"

type_synonym ('d, 'b, 'h, 'g, 'a) pipeline_op =
  "(('d, 'b, 'h, 'g) store \<times> acks, BlockStoreError, 'a) operation"

text \<open>\<open>let _ = ack.send(res)\<close>.\<close>

definition send :: "nat \<Rightarrow> bool result \<Rightarrow> ('d, 'b, 'h, 'g, unit) pipeline_op" where
  "send ack res = modifyM (\<lambda>(s, acks). (s, acks @ [(ack, res)]))"

record StagedRow =
  sr_hash :: bytes32
  sr_block :: L2Block
  sr_compressed :: bytes
  sr_header_bytes :: bytes
  sr_canonical :: bool
  sr_ack :: nat

text \<open>Staging of one job; \<open>seen\<close> holds the hashes of the earlier jobs of the batch.\<close>

definition stage_job ::
  "('d, 'b, 'h, 'g) deps \<Rightarrow> bytes32 set \<times> StagedRow list \<Rightarrow> PipelineJob \<Rightarrow>
    ('d, 'b, 'h, 'g, bytes32 set \<times> StagedRow list) pipeline_op" where
  "stage_job D acc job =
     (case (acc, job) of ((seen, staged), (block, canonical, ack)) \<Rightarrow>
        let hash = dp_block_hash D block;
            seen' = insert hash seen
        in if hash \<in> seen then tryM (send ack (Ok False)) (\<lambda>_. returnM (seen, staged))
        else
          tryM (on_store (catchM (db_get D CF_BLOCKS (hash_key hash)))) (\<lambda>r.
          case r of
            Inl e \<Rightarrow> tryM (send ack (Err e)) (\<lambda>_. returnM (seen', staged))
          | Inr (Some _) \<Rightarrow> tryM (send ack (Ok False)) (\<lambda>_. returnM (seen', staged))
          | Inr None \<Rightarrow>
              tryM (on_store (catchM (serialize_block D block))) (\<lambda>r.
              case r of
                Inl e \<Rightarrow> tryM (send ack (Err e)) (\<lambda>_. returnM (seen', staged))
              | Inr compressed \<Rightarrow>
                  tryM (on_store (catchM (liftM (serialize_header D (blk_header block))))) (\<lambda>r.
                  case r of
                    Inl e \<Rightarrow> tryM (send ack (Err e)) (\<lambda>_. returnM (seen', staged))
                  | Inr header_bytes \<Rightarrow>
                      returnM (seen', staged @ [\<lparr>sr_hash = hash, sr_block = block, sr_compressed = compressed,
                        sr_header_bytes = header_bytes, sr_canonical = canonical, sr_ack = ack\<rparr>])))))"

text \<open>The write batch of the staged rows.\<close>

definition staged_row_batch :: "('d, 'b, 'h, 'g) deps \<Rightarrow> StagedRow \<Rightarrow> write_batch" where
  "staged_row_batch D row =
     [PutCf CF_BLOCKS (hash_key (sr_hash row)) (sr_compressed row),
      PutCf CF_HEADERS (hash_key (sr_hash row)) (sr_header_bytes row)] @
     (if sr_canonical row
      then [PutCf CF_CANONICAL (height_key (dp_block_height D (sr_block row))) (hash_key (sr_hash row))]
      else [])"

definition staged_batch :: "('d, 'b, 'h, 'g) deps \<Rightarrow> StagedRow list \<Rightarrow> write_batch" where
  "staged_batch D staged = concat (map (staged_row_batch D) staged)"

text \<open>Answer every staged row, respectively every job, with the same error.\<close>

definition fail_staged :: "StagedRow list \<Rightarrow> string \<Rightarrow> ('d, 'b, 'h, 'g, unit) pipeline_op" where
  "fail_staged staged msg = forM staged (\<lambda>row. send (sr_ack row) (Err (Serialization msg)))"

definition fail_jobs :: "PipelineJob list \<Rightarrow> string \<Rightarrow> ('d, 'b, 'h, 'g, unit) pipeline_op" where
  "fail_jobs jobs msg = forM jobs (\<lambda>(block, canonical, ack). send ack (Err (Serialization msg)))"

text \<open>The tail of a batch that was written: caches, training and the acknowledgement of one row.\<close>

definition finish_row :: "('d, 'b, 'h, 'g) deps \<Rightarrow> StagedRow \<Rightarrow> ('d, 'b, 'h, 'g, unit) pipeline_op" where
  "finish_row D row =
     tryM (on_store (record_cache_insert (sr_hash row) (record_of_header D (blk_header (sr_block row))))) (\<lambda>_.
     tryM (on_store (block_cache_insert D (sr_hash row) (sr_block row))) (\<lambda>_.
     tryM (on_store (header_cache_insert D (sr_hash row) (blk_header (sr_block row)))) (\<lambda>_.
     tryM (on_store (catchM (maybe_train_dictionary D))) (\<lambda>r.
     send (sr_ack row) (case r of Inl e \<Rightarrow> Err e | Inr _ \<Rightarrow> Ok True)))))"

text \<open>\<open>db.write(wb)\<close> with its error as a value.\<close>

definition try_write :: "('d, 'b, 'h, 'g) deps \<Rightarrow> write_batch \<Rightarrow> ('d, 'b, 'h, 'g, string + unit) store_op" where
  "try_write D batch =
     (\<lambda>s. case rk_write (dp_rocks D) (db s) batch of
            Inl e \<Rightarrow> (Ok (Inl e), s)
          | Inr d \<Rightarrow> (Ok (Inr ()), s\<lparr>db := d\<rparr>))"

text \<open>The sidecar entry of a canonical row.\<close>

definition extend_row :: "('d, 'b, 'h, 'g) deps \<Rightarrow> StagedRow \<Rightarrow> ('d, 'b, 'h, 'g, unit) store_op" where
  "extend_row D row =
     (if sr_canonical row
      then with_bin (extend_write (dp_io D) (dp_block_height D (sr_block row)) (sr_hash row))
      else returnM ())"

definition commit_staged :: "('d, 'b, 'h, 'g) deps \<Rightarrow> StagedRow list \<Rightarrow> ('d, 'b, 'h, 'g, unit) pipeline_op" where
  "commit_staged D staged =
     (if staged_batch D staged = [] then returnM ()
      else
        tryM (on_store (try_write D (staged_batch D staged))) (\<lambda>r.
        case r of
          Inl e \<Rightarrow> fail_staged staged (''write pipeline: rocksdb write failed: '' @ e)
        | Inr _ \<Rightarrow>
            tryM (on_store (catchM (forM staged (extend_row D)))) (\<lambda>r.
            case r of
              Inl e \<Rightarrow> fail_staged staged (''write pipeline: canonical.bin mmap update failed: '' @
                         error_display (dp_show_hash D) e)
            | Inr _ \<Rightarrow>
                tryM (on_store (modifyM (\<lambda>s. s\<lparr>pipeline_write_batches := pipeline_write_batches s + 1\<rparr>))) (\<lambda>_.
                forM staged (finish_row D)))))"

text \<open>A family handle, whose absence fails the whole batch.\<close>

definition pipeline_cf ::
  "('d, 'b, 'h, 'g) deps \<Rightarrow> PipelineJob list \<Rightarrow> string \<Rightarrow> ('d, 'b, 'h, 'g, unit) pipeline_op \<Rightarrow>
    ('d, 'b, 'h, 'g, unit) pipeline_op" where
  "pipeline_cf D jobs name body =
     tryM (on_store (catchM (cf_handle D name))) (\<lambda>r.
     case r of
       Inl e \<Rightarrow> fail_jobs jobs (''write pipeline: '' @ error_display (dp_show_hash D) e)
     | Inr _ \<Rightarrow> body)"

definition flush_pipeline_batch ::
  "('d, 'b, 'h, 'g) deps \<Rightarrow> PipelineJob list \<Rightarrow> ('d, 'b, 'h, 'g, unit) pipeline_op" where
  "flush_pipeline_batch D jobs =
     tryM (getM (read_only \<circ> fst)) (\<lambda>ro.
     if ro then fail_jobs jobs ERR_MUTATION_READ_ONLY
     else
       pipeline_cf D jobs CF_BLOCKS (
       pipeline_cf D jobs CF_HEADERS (
       pipeline_cf D jobs CF_CANONICAL (
       tryM (foldM (stage_job D) ({}, []) jobs) (\<lambda>(seen, staged).
       commit_staged D staged)))))"

section \<open>Sending\<close>

datatype phase = Waiting | Collecting | Stopped | Panicked

text \<open>
  \<open>wk_tx\<close>: the sender has been created, which also spawned the worker with its \<open>batch_size\<close>
  (\<open>wk_batch\<close>) over a channel of capacity \<open>wk_capacity\<close>. \<open>wk_open\<close>: some handle still holds a
  sender. \<open>wk_next\<close> numbers the acknowledgement channels.
\<close>

record ('d, 'b, 'h, 'g) worker =
  wk_store :: "('d, 'b, 'h, 'g) store"
  wk_tx :: bool
  wk_open :: bool
  wk_capacity :: nat
  wk_batch :: nat
  wk_phase :: phase
  wk_queue :: "PipelineJob list"
  wk_buf :: "PipelineJob list"
  wk_acks :: acks
  wk_next :: nat

type_synonym ('d, 'b, 'h, 'g, 'a) worker_op =
  "(('d, 'b, 'h, 'g) worker, BlockStoreError, 'a) operation"

definition pipeline_sender :: "bool \<Rightarrow> ('d, 'b, 'h, 'g, unit) worker_op" where
  "pipeline_sender has_runtime =
     tryM (getM wk_tx) (\<lambda>tx.
     if tx then returnM ()
     else if \<not> has_runtime
     then failM (Serialization ''put_pipelined requires an active Tokio runtime (use #[tokio::test] or Runtime::block_on)'')
     else
       tryM (getM wk_store) (\<lambda>s.
       if pipeline_channel_capacity s = 0 then panicM ''mpsc bounded channel requires buffer > 0''
       else modifyM (\<lambda>w. w\<lparr>wk_tx := True, wk_open := True,
              wk_capacity := unat (pipeline_channel_capacity s), wk_batch := unat (pipeline_batch_size s),
              wk_phase := Waiting, wk_queue := [], wk_buf := []\<rparr>)))"

text \<open>
  \<open>put_pipelined\<close> at the moment its \<open>send\<close> completes: the caller waits while the queue is full
  (\<open>can_send\<close>), and \<open>send\<close> fails when the receiver is gone.
\<close>

definition can_send :: "('d, 'b, 'h, 'g) worker \<Rightarrow> bool" where
  "can_send w \<longleftrightarrow> \<not> wk_tx w \<or> wk_phase w \<in> {Stopped, Panicked} \<or>
     length (wk_queue w) < wk_capacity w"

definition put_pipelined :: "bool \<Rightarrow> L2Block \<Rightarrow> bool \<Rightarrow> ('d, 'b, 'h, 'g, nat) worker_op" where
  "put_pipelined has_runtime block canonical =
     tryM (getM (read_only \<circ> wk_store)) (\<lambda>ro.
     if ro then failM (Serialization ERR_MUTATION_READ_ONLY)
     else
       tryM (pipeline_sender has_runtime) (\<lambda>_.
       tryM (getM wk_next) (\<lambda>ack.
       tryM (modifyM (\<lambda>w. w\<lparr>wk_next := Suc ack\<rparr>)) (\<lambda>_.
       tryM (getM wk_phase) (\<lambda>ph.
       if ph \<in> {Stopped, Panicked} then failM PipelineClosed
       else
         tryM (modifyM (\<lambda>w. w\<lparr>wk_queue := wk_queue w @ [(block, canonical, ack)]\<rparr>)) (\<lambda>_.
         returnM ack))))))"

section \<open>The worker task\<close>

text \<open>Flush the buffer and clear it; a panic kills the task and drops the receiver.\<close>

definition flush_buffer ::
  "('d, 'b, 'h, 'g) deps \<Rightarrow> phase \<Rightarrow> ('d, 'b, 'h, 'g) worker \<Rightarrow> ('d, 'b, 'h, 'g) worker" where
  "flush_buffer D next_phase w =
     (case flush_pipeline_batch D (wk_buf w) (wk_store w, wk_acks w) of (r, (s', acks')) \<Rightarrow>
        w\<lparr>wk_store := s', wk_acks := acks', wk_buf := [],
          wk_phase := (case r of Panic _ \<Rightarrow> Panicked | _ \<Rightarrow> next_phase)\<rparr>)"

text \<open>A job received, in the outer loop or in the collecting loop.\<close>

definition take_job ::
  "('d, 'b, 'h, 'g) deps \<Rightarrow> PipelineJob \<Rightarrow> ('d, 'b, 'h, 'g) worker \<Rightarrow> ('d, 'b, 'h, 'g) worker" where
  "take_job D job w =
     (let w' = w\<lparr>wk_buf := wk_buf w @ [job]\<rparr> in
      if wk_batch w \<le> length (wk_buf w')
      then flush_buffer D Waiting w'
      else w'\<lparr>wk_phase := Collecting\<rparr>)"

text \<open>
  \<open>run_write_pipeline\<close>. The outer loop waits for a job (\<open>Waiting\<close>); \<open>select!\<close> is \<open>biased\<close>, so that
  the timer is polled only when no job and no closing is pending.
\<close>

inductive run_write_pipeline ::
  "('d, 'b, 'h, 'g) deps \<Rightarrow> ('d, 'b, 'h, 'g) worker \<Rightarrow> ('d, 'b, 'h, 'g) worker \<Rightarrow> bool"
  for D :: "('d, 'b, 'h, 'g) deps" where
  receive: "wk_phase w \<in> {Waiting, Collecting} \<Longrightarrow> wk_queue w = job # rest \<Longrightarrow>
     run_write_pipeline D w (take_job D job (w\<lparr>wk_queue := rest\<rparr>))"
| closed_waiting: "wk_phase w = Waiting \<Longrightarrow> wk_queue w = [] \<Longrightarrow> \<not> wk_open w \<Longrightarrow>
     run_write_pipeline D w (w\<lparr>wk_phase := Stopped\<rparr>)"
| closed_collecting: "wk_phase w = Collecting \<Longrightarrow> wk_queue w = [] \<Longrightarrow> \<not> wk_open w \<Longrightarrow>
     run_write_pipeline D w (flush_buffer D Stopped w)"
| timer: "wk_phase w = Collecting \<Longrightarrow> wk_queue w = [] \<Longrightarrow> wk_open w \<Longrightarrow>
     run_write_pipeline D w (flush_buffer D Waiting w)"

inductive_cases run_write_pipelineE: "run_write_pipeline D w w'"

section \<open>Answers\<close>

abbreviation job_ack :: "PipelineJob \<Rightarrow> nat" where
  "job_ack job \<equiv> snd (snd job)"

text \<open>
  \<open>answers m R\<close>: when \<open>m\<close> returns, it has only added answers to the log, and the multiset of the
  answered channels is related to its result by \<open>R\<close>.
\<close>

definition answers :: "('d, 'b, 'h, 'g, 'a) pipeline_op \<Rightarrow> (nat multiset \<Rightarrow> 'a \<Rightarrow> bool) \<Rightarrow> bool" where
  "answers m R \<longleftrightarrow> (\<forall>s acks x s' acks'. m (s, acks) = (Ok x, (s', acks')) \<longrightarrow>
     (\<exists>new. acks' = acks @ new \<and> R (mset (map fst new)) x))"

named_theorems answer_rules \<open>who has been answered\<close>

lemma answersD:
  "answers m R \<Longrightarrow> m (s, acks) = (Ok x, (s', acks')) \<Longrightarrow> \<exists>new. acks' = acks @ new \<and> R (mset (map fst new)) x"
  unfolding answers_def by blast

lemma answers_weaken: "answers m R \<Longrightarrow> (\<And>M x. R M x \<Longrightarrow> R' M x) \<Longrightarrow> answers m R'"
  unfolding answers_def by blast

lemma answers_tryM:
  assumes "answers m R1" and "\<And>x. answers (f x) (R2 x)" and "\<And>M x N y. R1 M x \<Longrightarrow> R2 x N y \<Longrightarrow> R (M + N) y"
  shows "answers (tryM m f) R"
  unfolding answers_def
proof (intro allI impI)
  fix s acks y s'' acks'' assume "tryM m f (s, acks) = (Ok y, (s'', acks''))"
  then obtain x s' acks' where m: "m (s, acks) = (Ok x, (s', acks'))" and f: "f x (s', acks') = (Ok y, (s'', acks''))"
    by (auto simp: tryM_Ok)
  from answersD [OF assms(1) m] obtain n1 where n1: "acks' = acks @ n1" "R1 (mset (map fst n1)) x" by blast
  from answersD [OF assms(2) f] obtain n2 where n2: "acks'' = acks' @ n2" "R2 x (mset (map fst n2)) y" by blast
  from n1 n2 assms(3) [OF n1(2) n2(2)] show "\<exists>new. acks'' = acks @ new \<and> R (mset (map fst new)) y"
    by (intro exI [of _ "n1 @ n2"]) simp
qed

lemma answers_silent [answer_rules]:
  "answers (returnM x) (\<lambda>M y. M = {#} \<and> y = x)" "answers (getM g) (\<lambda>M y. M = {#})"
  "answers (on_store m) (\<lambda>M y. M = {#})" "answers (send ack res) (\<lambda>M y. M = {#ack#})"
  by (auto simp: answers_def on_store_def send_def split: prod.splits)

lemma answers_if: "answers m R \<Longrightarrow> answers m' R \<Longrightarrow> answers (if b then m else m') R"
  by simp

lemma answers_sum:
  "(\<And>e. r = Inl e \<Longrightarrow> answers (f e) R) \<Longrightarrow> (\<And>x. r = Inr x \<Longrightarrow> answers (g x) R) \<Longrightarrow>
    answers (case r of Inl e \<Rightarrow> f e | Inr x \<Rightarrow> g x) R"
  by (cases r) auto

lemma answers_forM:
  assumes "\<And>x. answers (body x) (\<lambda>M _. M = {#f x#})"
  shows "answers (forM xs body) (\<lambda>M _. M = mset (map f xs))"
proof (induction xs)
  case Nil
  show ?case unfolding forM_simps by (rule answers_weaken [OF answers_silent(1)]) simp
next
  case (Cons x xs)
  show ?case by (simp, rule answers_tryM [OF assms Cons.IH]) simp
qed

text \<open>Answering an error and going on without a new row.\<close>

lemma answers_refuse:
  "answers (tryM (send ack res) (\<lambda>_. returnM (seen, staged))) (\<lambda>M (seen', staged').
     M + mset (map sr_ack staged') = {#ack#} + mset (map sr_ack staged))"
  by (rule answers_tryM [OF answers_silent(4) answers_silent(1)]) auto

lemma stage_job_answers:
  "answers (stage_job D (seen, staged) job) (\<lambda>M (seen', staged').
     M + mset (map sr_ack staged') = {#job_ack job#} + mset (map sr_ack staged))"
proof -
  obtain block canonical ack where job: "job = (block, canonical, ack)" by (cases job)
  let ?R = "\<lambda>M (seen', staged'). M + mset (map sr_ack staged') = {#ack#} + mset (map sr_ack staged)"
  have stage: "answers (returnM (sn, staged @ [row])) ?R" if "sr_ack row = ack" for sn row
    by (rule answers_weaken [OF answers_silent(1)]) (auto simp: that)
  have silent: "answers (tryM (on_store m) f) ?R" if "\<And>x. answers (f x) ?R" for m and f :: "'z \<Rightarrow> _"
    by (rule answers_tryM [OF answers_silent(3) that]) simp
  have present: "answers (case x of None \<Rightarrow> f | Some v \<Rightarrow> tryM (send ack res) (\<lambda>_. returnM (sn, staged))) ?R"
    if "answers f ?R" for f and x :: "bytes option" and res sn
    using that answers_refuse by (cases x) auto
  show ?thesis
    unfolding stage_job_def job prod.case Let_def snd_conv
    by (intro answers_if answers_refuse silent answers_sum present stage) simp
qed

lemma stage_jobs_answers:
  "answers (foldM (stage_job D) acc jobs) (\<lambda>M acc'.
     M + mset (map sr_ack (snd acc')) = mset (map job_ack jobs) + mset (map sr_ack (snd acc)))"
proof (induction jobs arbitrary: acc)
  case Nil
  show ?case unfolding foldM.simps by (rule answers_weaken [OF answers_silent(1)]) simp
next
  case (Cons job jobs)
  have job: "answers (stage_job D acc job) (\<lambda>M acc'.
      M + mset (map sr_ack (snd acc')) = {#job_ack job#} + mset (map sr_ack (snd acc)))"
    by (rule answers_weaken [OF stage_job_answers [of D "fst acc" "snd acc", unfolded prod.collapse]])
      (simp add: case_prod_beta)
  show ?case unfolding foldM.simps
  proof (rule answers_tryM [OF job Cons.IH])
    fix M acc' N acc''
    assume M: "M + mset (map sr_ack (snd acc')) = {#job_ack job#} + mset (map sr_ack (snd acc))"
      and N: "N + mset (map sr_ack (snd acc'')) = mset (map job_ack jobs) + mset (map sr_ack (snd acc'))"
    have "M + N + mset (map sr_ack (snd acc'')) = M + (mset (map job_ack jobs) + mset (map sr_ack (snd acc')))"
      by (simp only: N add.assoc)
    also have "\<dots> = mset (map job_ack jobs) + (M + mset (map sr_ack (snd acc')))" by (simp add: ac_simps)
    also have "\<dots> = mset (map job_ack (job # jobs)) + mset (map sr_ack (snd acc))" by (simp only: M) simp
    finally show "M + N + mset (map sr_ack (snd acc'')) = mset (map job_ack (job # jobs)) + mset (map sr_ack (snd acc))" .
  qed
qed

text \<open>Everyone still waiting is answered when the staged rows are committed.\<close>

lemma fail_staged_answers: "answers (fail_staged staged msg) (\<lambda>M _. M = mset (map sr_ack staged))"
  unfolding fail_staged_def by (rule answers_forM) (rule answers_silent(4))

lemma fail_jobs_answers: "answers (fail_jobs jobs msg) (\<lambda>M _. M = mset (map job_ack jobs))"
  unfolding fail_jobs_def by (rule answers_forM) (simp add: case_prod_beta answers_silent(4))

lemma answers_on_store_bind:
  "(\<And>x. answers (f x) R) \<Longrightarrow> answers (tryM (on_store m) f) R"
  by (rule answers_tryM [OF answers_silent(3)]) auto

lemma answers_getM_bind: "(\<And>x. answers (f x) R) \<Longrightarrow> answers (tryM (getM g) f) R"
  by (rule answers_tryM [OF answers_silent(2)]) auto

lemma finish_row_answers: "answers (finish_row D row) (\<lambda>M _. M = {#sr_ack row#})"
  unfolding finish_row_def by (intro answers_on_store_bind answers_silent(4))

lemma commit_staged_answers: "answers (commit_staged D staged) (\<lambda>M _. M = mset (map sr_ack staged))"
proof (cases "staged_batch D staged = []")
  case True
  then have "staged = []" by (cases staged) (auto simp: staged_batch_def staged_row_batch_def)
  with True show ?thesis unfolding commit_staged_def
    by simp (rule answers_weaken [OF answers_silent(1)], simp)
next
  case False
  have rows: "answers (forM staged (finish_row D)) (\<lambda>M _. M = mset (map sr_ack staged))"
    by (rule answers_forM) (rule finish_row_answers)
  show ?thesis unfolding commit_staged_def if_not_P [OF False]
    by (intro answers_on_store_bind answers_sum fail_staged_answers rows)
qed

lemma pipeline_cf_answers:
  "answers body (\<lambda>M _. M = mset (map job_ack jobs)) \<Longrightarrow>
    answers (pipeline_cf D jobs name body) (\<lambda>M _. M = mset (map job_ack jobs))"
  unfolding pipeline_cf_def by (intro answers_on_store_bind answers_sum fail_jobs_answers)

text \<open>\<open>flush_pipeline_batch\<close> turns every error into an answer: it returns \<open>Ok(())\<close> or panics.\<close>

definition no_error :: "('s, 'e, 'a) operation \<Rightarrow> bool" where
  "no_error m \<longleftrightarrow> (\<forall>s e. fst (m s) \<noteq> Err e)"

lemma no_error_tryM: "no_error m \<Longrightarrow> (\<And>x. no_error (f x)) \<Longrightarrow> no_error (tryM m f)"
  by (auto simp: no_error_def tryM_def split: prod.splits outcome.splits) (metis fst_conv)+

lemma no_error_foldM: "(\<And>acc x. no_error (f acc x)) \<Longrightarrow> no_error (foldM f acc xs)"
  by (induction xs arbitrary: acc) (simp_all only: foldM.simps no_error_tryM, simp add: no_error_def)

lemma no_error_basic:
  "no_error (returnM x)" "no_error (getM g)" "no_error (modifyM h)" "no_error (catchM m)"
  by (auto simp: no_error_def catchM_def split: prod.splits outcome.splits)

lemma no_error_pipeline:
  "no_error m \<Longrightarrow> no_error (on_store m)" "no_error (send ack res)" "no_error (try_write D batch)"
  by (auto simp: no_error_def on_store_def send_def try_write_def split: prod.splits sum.splits)
    (metis fst_conv)

lemma no_error_cases:
  "no_error m \<Longrightarrow> no_error m' \<Longrightarrow> no_error (if b then m else m')"
  "(\<And>e. no_error (f e)) \<Longrightarrow> (\<And>x. no_error (g x)) \<Longrightarrow> no_error (case r of Inl e \<Rightarrow> f e | Inr x \<Rightarrow> g x)"
  "no_error m \<Longrightarrow> (\<And>x. no_error (f' x)) \<Longrightarrow> no_error (case y of None \<Rightarrow> m | Some x \<Rightarrow> f' x)"
  "(\<And>a b. no_error (h a b)) \<Longrightarrow> no_error (case p of (a, b) \<Rightarrow> h a b)"
  by (auto split: sum.splits option.splits prod.splits)

lemmas no_error_rules = no_error_tryM no_error_foldM no_error_basic no_error_pipeline no_error_cases

lemma flush_no_error: "no_error (flush_pipeline_batch D jobs)"
  unfolding flush_pipeline_batch_def pipeline_cf_def commit_staged_def stage_job_def finish_row_def
    fail_jobs_def fail_staged_def forM_def Let_def record_cache_insert_def block_cache_insert_def
    header_cache_insert_def
  by (intro no_error_rules)

lemma flush_answers: "answers (flush_pipeline_batch D jobs) (\<lambda>M _. M = mset (map job_ack jobs))"
proof -
  have staged: "answers (tryM (foldM (stage_job D) ({}, []) jobs) (\<lambda>(seen, staged). commit_staged D staged))
      (\<lambda>M _. M = mset (map job_ack jobs))"
    unfolding case_prod_beta
    by (rule answers_tryM [OF stage_jobs_answers commit_staged_answers]) simp
  show ?thesis unfolding flush_pipeline_batch_def
    by (intro answers_getM_bind answers_if fail_jobs_answers pipeline_cf_answers staged)
qed

end
