(* ===== verification/Pipeline_Acks.thy ===== *)
theory Pipeline_Acks
  imports Pipeline
begin

text \<open>
  What an acknowledgement of the write pipeline promises: a positive answer is sent only after the
  rows of the block have been written. Staging answers nothing positive and remembers every row it
  accepts once; a failed commit answers errors only; a successful one has written every row before
  the first answer, and what follows touches no row but the trained dictionary.
\<close>

section \<open>Staging\<close>

lemma on_store_catch_unchanged:
  assumes "unchanged (\<lambda>s. s) m"
  shows "on_store (catchM m) (s, acks) = (case fst (m s) of
      Ok x \<Rightarrow> (Ok (Inr x), (s, acks)) | Err e \<Rightarrow> (Ok (Inl e), (s, acks)) | Panic p \<Rightarrow> (Panic p, (s, acks)))"
proof -
  have "m s = (fst (m s), s)" using unchanged_state [OF assms, of s "fst (m s)" "snd (m s)"] by (metis prod.collapse)
  then show ?thesis by (auto simp: on_store_def catchM_def split: prod.splits outcome.splits)
qed

text \<open>No answer of a list says that a block was stored.\<close>

definition refusals :: "acks \<Rightarrow> bool" where
  "refusals new \<longleftrightarrow> (\<forall>a. (a, Ok True) \<notin> set new)"

lemma refusals_simps [simp]:
  "refusals []" "refusals (x # xs) \<longleftrightarrow> snd x \<noteq> Ok True \<and> refusals xs"
  "refusals (xs @ ys) \<longleftrightarrow> refusals xs \<and> refusals ys"
  by (cases x; auto simp: refusals_def)+

text \<open>A row staged for a job that is not stored yet: its hash, its acknowledgement and its serialized bytes.\<close>

definition row_for :: "('d, 'b, 'h, 'g) deps \<Rightarrow> ('d, 'b, 'h, 'g) store \<Rightarrow> PipelineJob \<Rightarrow> StagedRow \<Rightarrow> bool" where
  "row_for D s job row \<longleftrightarrow> sr_hash row = dp_block_hash D (fst job) \<and> sr_block row = fst job \<and>
     sr_canonical row = fst (snd job) \<and> sr_ack row = job_ack job \<and>
     fst (db_get D CF_BLOCKS (hash_key (sr_hash row)) s) = Ok None \<and>
     fst (serialize_block D (fst job) s) = Ok (sr_compressed row) \<and>
     serialize_header D (blk_header (fst job)) = Ok (sr_header_bytes row)"

definition staged_ok :: "bytes32 set \<Rightarrow> StagedRow list \<Rightarrow> bool" where
  "staged_ok seen staged \<longleftrightarrow> distinct (map sr_hash staged) \<and> sr_hash ` set staged \<subseteq> seen"

lemma stage_job_outcome:
  assumes "stage_job D (seen, staged) job (s, acks) = (Ok (seen', staged'), (s', acks'))"
  shows "s' = s \<and> (\<exists>new. acks' = acks @ new \<and> refusals new) \<and> seen' = insert (dp_block_hash D (fst job)) seen \<and>
    (staged' = staged \<or> dp_block_hash D (fst job) \<notin> seen \<and> (\<exists>row. staged' = staged @ [row] \<and> row_for D s job row))"
proof -
  obtain block canonical ack where job: "job = (block, canonical, ack)" by (cases job)
  have lifted: "on_store (catchM (liftM r)) (s, acks) = (case r of
      Ok x \<Rightarrow> (Ok (Inr x), (s, acks)) | Err e \<Rightarrow> (Ok (Inl e), (s, acks)) | Panic p \<Rightarrow> (Panic p, (s, acks)))"
    for r :: "bytes result"
    by (cases r) (simp_all add: on_store_def catchM_def)
  note steps = on_store_catch_unchanged [OF unchanged_reads(2)] on_store_catch_unchanged [OF unchanged_serialize] lifted
  let ?h = "dp_block_hash D block"
  show ?thesis
  proof (cases "?h \<in> seen")
    case True
    with assms show ?thesis by (auto simp: job stage_job_def Let_def tryM_Ok send_def insert_absorb)
  next
    case False
    note run = assms [unfolded job stage_job_def prod.case Let_def if_not_P [OF False]]
    show ?thesis
    proof (cases "fst (db_get D CF_BLOCKS (hash_key ?h) s)")
      case (Ok row)
      show ?thesis
      proof (cases row)
        case None
        with Ok run False show ?thesis
          by (cases "fst (serialize_block D block s)"; cases "serialize_header D (blk_header block)")
            (auto simp: tryM_Ok steps send_def row_for_def job)
      qed (use Ok run in \<open>auto simp: tryM_Ok steps send_def job\<close>)
    qed (use run in \<open>auto simp: tryM_Ok steps send_def job\<close>)
  qed
qed

lemma stage_jobs_outcome:
  assumes "foldM (stage_job D) (seen, staged) jobs (s, acks) = (Ok (seen', staged'), (s', acks'))"
    and "staged_ok seen staged" and "\<forall>row \<in> set staged. \<exists>job \<in> J. row_for D s job row" and "set jobs \<subseteq> J"
  shows "s' = s \<and> (\<exists>new. acks' = acks @ new \<and> refusals new) \<and> staged_ok seen' staged' \<and>
    (\<forall>row \<in> set staged'. \<exists>job \<in> J. row_for D s job row)"
  using assms
proof (induction jobs arbitrary: seen staged acks)
  case Nil
  then show ?case by simp
next
  case (Cons job jobs)
  from Cons.prems(1) obtain sn st s1 a1 where one: "stage_job D (seen, staged) job (s, acks) = (Ok (sn, st), (s1, a1))"
    and rest: "foldM (stage_job D) (sn, st) jobs (s1, a1) = (Ok (seen', staged'), (s', acks'))"
    by (auto simp: tryM_Ok)
  note o = stage_job_outcome [OF one]
  then have s1: "s1 = s" and sn: "sn = insert (dp_block_hash D (fst job)) seen"
    and st: "st = staged \<or> dp_block_hash D (fst job) \<notin> seen \<and> (\<exists>row. st = staged @ [row] \<and> row_for D s job row)" by auto
  obtain n1 where n1: "a1 = acks @ n1" "refusals n1" using o by blast
  have "staged_ok sn st"
  proof (cases "st = staged")
    case False
    then obtain row where "st = staged @ [row]" "sr_hash row = dp_block_hash D (fst job)"
      "dp_block_hash D (fst job) \<notin> seen" using st by (auto simp: row_for_def)
    with Cons.prems(2) show ?thesis unfolding staged_ok_def sn by fastforce
  qed (use Cons.prems(2) in \<open>auto simp: staged_ok_def sn\<close>)
  moreover have "\<forall>row \<in> set st. \<exists>job \<in> J. row_for D s job row"
    using st Cons.prems(3,4) by auto
  ultimately have "staged_ok sn st" "\<forall>row \<in> set st. \<exists>job \<in> J. row_for D s job row" by simp_all
  from Cons.IH [OF rest [unfolded s1] this] Cons.prems(4) obtain n2 where
    "s' = s" "acks' = a1 @ n2" "refusals n2" "staged_ok seen' staged'"
    "\<forall>row \<in> set staged'. \<exists>job \<in> J. row_for D s job row" by auto
  with n1 show ?case by auto
qed

section \<open>Committing\<close>

lemma staged_other:
  "h \<notin> sr_hash ` set staged \<Longrightarrow> cf \<in> {CF_BLOCKS, CF_HEADERS} \<Longrightarrow>
    apply_batch (staged_batch D staged) c cf (hash_key h) = c cf (hash_key h)"
  by (induction staged arbitrary: c) (auto simp: staged_batch_def staged_row_batch_def)

lemma staged_rows:
  assumes "distinct (map sr_hash staged)" and "row \<in> set staged"
  shows "apply_batch (staged_batch D staged) c CF_BLOCKS (hash_key (sr_hash row)) = Some (sr_compressed row)"
    and "apply_batch (staged_batch D staged) c CF_HEADERS (hash_key (sr_hash row)) = Some (sr_header_bytes row)"
proof -
  have "apply_batch (staged_batch D staged) c CF_BLOCKS (hash_key (sr_hash row)) = Some (sr_compressed row) \<and>
    apply_batch (staged_batch D staged) c CF_HEADERS (hash_key (sr_hash row)) = Some (sr_header_bytes row)"
    using assms
  proof (induction staged arbitrary: c)
    case (Cons r staged)
    have split: "staged_batch D (r # staged) = staged_row_batch D r @ staged_batch D staged"
      by (simp add: staged_batch_def)
    show ?case
    proof (cases "row = r")
      case True
      with Cons.prems have "sr_hash r \<notin> sr_hash ` set staged" by simp
      then show ?thesis unfolding split apply_batch_simps
        by (simp add: staged_other True) (simp add: staged_row_batch_def)
    qed (use Cons split in simp)
  qed simp
  then show "apply_batch (staged_batch D staged) c CF_BLOCKS (hash_key (sr_hash row)) = Some (sr_compressed row)"
    "apply_batch (staged_batch D staged) c CF_HEADERS (hash_key (sr_hash row)) = Some (sr_header_bytes row)" by auto
qed

text \<open>Failures answer no one positively.\<close>

lemma send_bind: "tryM (send a res) f (s, acks) = f () (s, acks @ [(a, res)])"
  by (simp add: send_def tryM_run(1))

lemma fail_refuses:
  assumes "forM xs (\<lambda>x. send (f x) (Err (Serialization msg))) (s, acks) = (r, (s', acks'))"
  shows "s' = s \<and> (\<exists>new. acks' = acks @ new \<and> refusals new)"
  using assms
proof (induction xs arbitrary: acks)
  case (Cons x xs)
  then have "forM xs (\<lambda>x. send (f x) (Err (Serialization msg))) (s, acks @ [(f x, Err (Serialization msg))]) = (r, (s', acks'))"
    by (simp add: send_bind)
  from Cons.IH [OF this] show ?case by auto
qed simp

lemma fail_staged_refuses:
  "fail_staged staged msg (s, acks) = (r, (s', acks')) \<Longrightarrow> s' = s \<and> (\<exists>new. acks' = acks @ new \<and> refusals new)"
  unfolding fail_staged_def by (rule fail_refuses)

lemma fail_jobs_refuses:
  "fail_jobs jobs msg (s, acks) = (r, (s', acks')) \<Longrightarrow> s' = s \<and> (\<exists>new. acks' = acks @ new \<and> refusals new)"
  unfolding fail_jobs_def case_prod_beta by (rule fail_refuses)

definition written :: "('d \<Rightarrow> db_content) \<Rightarrow> ('d, 'b, 'h, 'g) store \<Rightarrow> StagedRow \<Rightarrow> bool" where
  "written content s row \<longleftrightarrow> content (db s) CF_BLOCKS (hash_key (sr_hash row)) = Some (sr_compressed row) \<and>
     content (db s) CF_HEADERS (hash_key (sr_hash row)) = Some (sr_header_bytes row)"

context deps_laws
begin

text \<open>The answers of a written batch: by then every row is there.\<close>

lemma finish_row_outcome:
  assumes "finish_row D row (s, acks) = (Ok u, (s', acks'))"
  shows "(\<exists>res. acks' = acks @ [(sr_ack row, res)]) \<and> same_rows (content (db s)) (content (db s'))"
proof -
  obtain s1 res where train: "maybe_train_dictionary D (s\<lparr>
      record_cache := (record_cache s)(sr_hash row \<mapsto> record_of_header D (blk_header (sr_block row))),
      block_cache := cache_insert (dp_block_lru D) (block_cache s) (sr_hash row) (sr_block row),
      header_cache := cache_insert (dp_header_lru D) (header_cache s) (sr_hash row) (blk_header (sr_block row))\<rparr>) = (s1, s')"
    and acks: "acks' = acks @ [(sr_ack row, res)]"
    using assms unfolding finish_row_def
    by (auto simp: on_store_def catchM_def tryM_Ok record_cache_insert_def block_cache_insert_def header_cache_insert_def
        send_def split: prod.splits outcome.splits)
  from maybe_train_effect(1) [OF refl train] acks show ?thesis by simp
qed

lemma finish_rows_outcome:
  assumes "forM staged (finish_row D) (s, acks) = (Ok u, (s', acks'))"
  shows "(\<exists>new. acks' = acks @ new \<and> fst ` set new \<subseteq> sr_ack ` set staged) \<and>
    same_rows (content (db s)) (content (db s'))"
  using assms
proof (induction staged arbitrary: s acks)
  case (Cons row staged)
  then obtain s1 a1 where one: "finish_row D row (s, acks) = (Ok (), (s1, a1))"
    and rest: "forM staged (finish_row D) (s1, a1) = (Ok u, (s', acks'))" by (auto simp: tryM_Ok)
  from finish_row_outcome [OF one] obtain res where "a1 = acks @ [(sr_ack row, res)]"
    "same_rows (content (db s)) (content (db s1))" by blast
  moreover from Cons.IH [OF rest] obtain new where "acks' = a1 @ new" "fst ` set new \<subseteq> sr_ack ` set staged"
    "same_rows (content (db s1)) (content (db s'))" by blast
  ultimately show ?case by (auto simp: same_rows_def)
qed simp

lemma commit_staged_outcome:
  assumes run: "commit_staged D staged (s, acks) = (Ok u, (s', acks'))" and dist: "distinct (map sr_hash staged)"
  shows "\<exists>new. acks' = acks @ new \<and>
    (\<forall>a. (a, Ok True) \<in> set new \<longrightarrow> (\<exists>row \<in> set staged. sr_ack row = a \<and> written content s' row))"
proof (cases "staged_batch D staged = []")
  case True
  with run show ?thesis by (auto simp: commit_staged_def)
next
  case False
  have refused: ?thesis if "\<exists>new. acks' = acks @ new \<and> refusals new"
    using that by (auto simp: refusals_def)
  note run' = run [unfolded commit_staged_def if_not_P [OF False]]
  show ?thesis
  proof (cases "rk_write (dp_rocks D) (db s) (staged_batch D staged)")
    case (Inl e)
    with run' have "fail_staged staged (''write pipeline: rocksdb write failed: '' @ e) (s, acks) = (Ok u, (s', acks'))"
      by (simp add: on_store_def try_write_def tryM_run(1))
    from fail_staged_refuses [OF this] show ?thesis by (intro refused) simp
  next
    case (Inr d)
    let ?s = "s\<lparr>db := d\<rparr>"
    obtain r s2 where ext: "forM staged (extend_row D) ?s = (r, s2)" by force
    have keep: "db s2 = d"
    proof -
      have "unchanged db (forM staged (extend_row D))" unfolding extend_row_def by (intro frame_rules) simp_all
      from unchangedD [OF this ext] show ?thesis by simp
    qed
    show ?thesis
    proof (cases r)
      case (Err e)
      with run' Inr ext have "fail_staged staged (''write pipeline: canonical.bin mmap update failed: '' @
          error_display (dp_show_hash D) e) (s2, acks) = (Ok u, (s', acks'))"
        by (simp add: on_store_def try_write_def catchM_def tryM_run(1))
      from fail_staged_refuses [OF this] show ?thesis by (intro refused) simp
    next
      case (Panic p)
      with run' Inr ext show ?thesis by (simp add: on_store_def try_write_def catchM_def tryM_run)
    next
      case (Ok x)
      let ?t = "s2\<lparr>pipeline_write_batches := pipeline_write_batches s2 + 1\<rparr>"
      from Ok run' Inr ext have "forM staged (finish_row D) (?t, acks) = (Ok u, (s', acks'))"
        by (simp add: on_store_def try_write_def catchM_def tryM_run(1))
      from finish_rows_outcome [OF this] obtain new where new: "acks' = acks @ new" "fst ` set new \<subseteq> sr_ack ` set staged"
        and same: "same_rows (content d) (content (db s'))" by (auto simp: keep)
      have "written content s' row" if "row \<in> set staged" for row
        using same staged_rows [OF dist that, where D = D] write_sound [OF Inr]
        by (simp add: written_def same_rows_def dict_row_def)
      with new show ?thesis by (intro exI [of _ new]) force
    qed
  qed
qed

text \<open>A positive answer of a batch: the rows of the job it answers are in the database.\<close>

lemma flush_outcome:
  assumes "flush_pipeline_batch D jobs (s, acks) = (Ok u, (s', acks'))"
  shows "\<exists>new. acks' = acks @ new \<and> (\<forall>a. (a, Ok True) \<in> set new \<longrightarrow>
    (\<exists>job \<in> set jobs. \<exists>row. row_for D s job row \<and> job_ack job = a \<and> written content s' row))"
proof -
  have refused: ?thesis if "\<exists>new. acks' = acks @ new \<and> refusals new"
    using that by (auto simp: refusals_def)
  have cf: "unchanged (\<lambda>s. s) (cf_handle D name)" for name by (rule unchanged_reads(1))
  show ?thesis
  proof (cases "read_only s \<or> (\<exists>name \<in> {CF_BLOCKS, CF_HEADERS, CF_CANONICAL}. \<forall>x. fst (cf_handle D name s) \<noteq> Ok x)")
    case True
    then obtain msg where "fail_jobs jobs msg (s, acks) = (Ok u, (s', acks'))"
      using assms
      by (auto simp: flush_pipeline_batch_def pipeline_cf_def tryM_Ok on_store_catch_unchanged [OF cf]
          split: if_splits outcome.splits)
    from fail_jobs_refuses [OF this] show ?thesis by (intro refused) simp
  next
    case False
    then obtain seen staged s1 a1 where stage: "foldM (stage_job D) ({}, []) jobs (s, acks) = (Ok (seen, staged), (s1, a1))"
      and commit: "commit_staged D staged (s1, a1) = (Ok u, (s', acks'))"
      using assms
      by (auto simp: flush_pipeline_batch_def pipeline_cf_def tryM_Ok on_store_catch_unchanged [OF cf])
    from stage_jobs_outcome [OF stage, of "set jobs"] obtain n1 where "a1 = acks @ n1" "refusals n1" "staged_ok seen staged"
      and rows: "\<forall>row \<in> set staged. \<exists>job \<in> set jobs. row_for D s job row" by (auto simp: staged_ok_def)
    moreover from commit_staged_outcome [OF commit] \<open>staged_ok seen staged\<close> obtain n2 where "acks' = a1 @ n2"
      "\<forall>a. (a, Ok True) \<in> set n2 \<longrightarrow> (\<exists>row \<in> set staged. sr_ack row = a \<and> written content s' row)"
      by (auto simp: staged_ok_def)
    ultimately show ?thesis
      by (intro exI [of _ "n1 @ n2"]) (fastforce simp: refusals_def row_for_def)
  qed
qed

end

end
