(* ===== verification/Bulk.thy ===== *)
theory Bulk
  imports Crash Pipeline_Acks "HOL-Library.Sublist"
begin

text \<open>
  Requests of many blocks, however they end: an import of a snapshot leaves the chain after a prefix
  of its blocks, and a batch of the write pipeline, which is written at once, the old chain or the
  one with all its rows. A batch whose jobs are all answered without error keeps the invariant.
\<close>

section \<open>Imports\<close>

definition put_new :: "('d, 'b, 'h, 'g) deps \<Rightarrow> L2Block list \<Rightarrow> chain \<Rightarrow> chain" where
  "put_new D blocks c = fold (\<lambda>b. spec_set (dp_block_height D b) (dp_block_hash D b)) blocks c"

text \<open>
  The blocks of a stream up to some height; \<open>new\<close> are those that were not stored before, the only
  ones that an import makes canonical.
\<close>

definition import_chains :: "('d, 'b, 'h, 'g) deps \<Rightarrow> bytes \<Rightarrow> chain \<Rightarrow> chain set" where
  "import_chains D stream c = insert c {put_new D new c | m rest blocks new.
     dp_de_manifest D stream = Inr (m, rest) \<and>
     prefix (map (dp_block_height D) blocks) (range_incl (sm_start_height m) (sm_end_height m)) \<and>
     linked D None blocks \<and> subseq new blocks}"

lemma unchanged_fst_stream: "unchanged fst (on_stream p m)"
  by (simp add: unchanged_def on_stream_def split: prod.splits)

lemma unchanged_fst_lift: "unchanged fst (liftM r)"
  by (cases r) (simp_all add: unchanged_def)

lemma tryM_any:
  assumes "tryM m f s = (r, s')"
  obtains (stopped) r1 where "m s = (r1, s')" "\<And>x. r1 \<noteq> Ok x" "\<And>x. r \<noteq> Ok x"
    | (continued) x t where "m s = (Ok x, t)" "f x t = (r, s')"
proof -
  obtain r1 t where m: "m s = (r1, t)" by force
  with assms that show ?thesis by (cases r1) (auto simp: tryM_def)
qed

lemma import_block_any:
  assumes "import_block D (hasher, prev) n (s, r) = (res, (s', r'))" and "\<And>x. res \<noteq> Ok x"
  shows "s' = s \<or> (\<exists>b res'. dp_block_height D b = n \<and> linked D prev [b] \<and> put_block D b True s = (res', s'))"
proof -
  note run = assms(1) [unfolded import_block_def prod.case]
  have stream: "fst y = s" if "on_stream p m (s, r) = (x, y)" for p x y r and m :: "(reader, string, 'z) operation"
    using unchangedD [OF unchanged_fst_stream that] by simp
  from run show ?thesis
  proof (cases rule: tryM_any)
    case stopped
    with stream [OF stopped(1)] show ?thesis by simp
  next
    case one: (continued lb t1)
    obtain r1 where t1: "t1 = (s, r1)" using stream [OF one(1)] by (cases t1) simp
    from one(2) [unfolded t1] show ?thesis
    proof (cases rule: tryM_any)
      case stopped
      with stream [OF stopped(1)] show ?thesis by simp
    next
      case two: (continued c t2)
      obtain r2 where t2: "t2 = (s, r2)" using stream [OF two(1)] by (cases t2) simp
      from two(2) [unfolded t2] show ?thesis
      proof (cases rule: tryM_any)
        case stopped
        then show ?thesis
          using unchanged_state [OF unchanged_deserialize] by (auto simp: on_store_def split: prod.splits)
      next
        case three: (continued b t3)
        then have t3: "t3 = (s, r2)"
          using unchanged_state [OF unchanged_deserialize] by (auto simp: on_store_def split: prod.splits)
        show ?thesis
        proof (cases "dp_block_height D b \<noteq> n \<or> \<not> linked D prev [b]")
          case True
          with three(2) show ?thesis by (cases prev) (auto simp: t3 split: if_splits)
        next
          case False
          with three(2) have "tryM (on_store (put_block D b True)) (\<lambda>_. returnM (hasher @ lb @ c, Some (dp_block_hash D b))) (s, r2)
              = (res, (s', r'))"
            by (cases prev) (auto simp: t3)
          then show ?thesis
          proof (cases rule: tryM_any)
            case stopped
            with False show ?thesis by (auto simp: on_store_def split: prod.splits)
          next
            case (continued x t)
            then show ?thesis using assms(2) [of "(hasher @ lb @ c, Some (dp_block_hash D b))"] by simp
          qed
        qed
      qed
    qed
  qed
qed

context deps_laws
begin

lemma import_blocks_interrupted:
  assumes "store_inv D content s" and "foldM (import_block D) (hasher, prev) ns (s, r) = (res, (s', r'))"
  shows "\<exists>blocks new. prefix (map (dp_block_height D) blocks) ns \<and> linked D prev blocks \<and> subseq new blocks \<and>
    leaves_chain D content (put_new D new (abs_chain content s)) s'"
  using assms
proof (induction ns arbitrary: hasher prev s r)
  case Nil
  then show ?case by (intro exI [of _ "[]"]) (simp add: put_new_def leaves_chain_inv)
next
  case (Cons n ns)
  let ?c = "abs_chain content s"
  have stays: ?case if "s' = s"
    using that leaves_chain_inv [OF Cons.prems(1)] by (intro exI [of _ "[]"]) (simp add: put_new_def)
  from Cons.prems(2) have "tryM (import_block D (hasher, prev) n) (\<lambda>acc. foldM (import_block D) acc ns) (s, r) = (res, (s', r'))"
    by simp
  then show ?case
  proof (cases rule: tryM_any)
    case (stopped r1)
    show ?thesis
    proof (cases "s' = s")
      case False
      with import_block_any [OF stopped(1,2)] obtain b res' where n: "dp_block_height D b = n"
        and link: "linked D prev [b]" and put: "put_block D b True s = (res', s')" by blast
      from endsD [OF put_block_interrupted [OF Cons.prems(1)] reading_refl [OF Cons.prems(1)] put]
      obtain new where "subseq new [b]" "leaves_chain D content (put_new D new ?c) s'"
        unfolding leaves_one_of_def put_chains_def
      proof (elim bexE)
        fix c assume that: "\<And>new. subseq new [b] \<Longrightarrow> leaves_chain D content (put_new D new ?c) s' \<Longrightarrow> thesis"
          and c: "c \<in> {?c, if True then spec_set (dp_block_height D b) (dp_block_hash D b) ?c else ?c}"
            "leaves_chain D content c s'"
        then show thesis using that [of "[]"] that [of "[b]"] by (auto simp: put_new_def)
      qed
      with n link show ?thesis by (intro exI [of _ "[b]"] exI [of _ new]) simp
    qed (rule stays)
  next
    case (continued acc t)
    obtain s1 r1 where t: "t = (s1, r1)" by (cases t)
    from import_block_Ok [OF continued(1) [unfolded t]] obtain b u h1 where n: "dp_block_height D b = n"
      and link: "linked D prev [b]" and put: "put_block D b True s = (Ok u, s1)" and acc: "acc = (h1, Some (dp_block_hash D b))"
      by (auto split: option.splits)
    have inv1: "store_inv D content s1" using put_block_Ok [OF Cons.prems(1) put] by blast
    from Cons.IH [OF inv1 continued(2) [unfolded t acc]] obtain blocks new where
      bs: "prefix (map (dp_block_height D) blocks) ns" "linked D (Some (dp_block_hash D b)) blocks" "subseq new blocks"
      and l: "leaves_chain D content (put_new D new (abs_chain content s1)) s'" by blast
    have pre: "prefix (map (dp_block_height D) (b # blocks)) (n # ns)" "linked D prev (b # blocks)" using bs n link by simp_all
    show ?thesis
    proof (cases u)
      case True
      then have "abs_chain content s1 = put_new D [b] ?c"
        using refines_put [OF Cons.prems(1), of b True s1] put by (simp add: put_def put_new_def)
      with l have "leaves_chain D content (put_new D (b # new) ?c) s'" by (simp add: put_new_def)
      with pre bs(3) show ?thesis by blast
    next
      case False
      then have "s1 = s" using put_block_Ok [OF Cons.prems(1) put] by (auto split: if_splits)
      with l pre bs(3) show ?thesis by blast
    qed
  qed
qed

lemma import_interrupted:
  assumes inv: "store_inv D content s" and run: "import_snapshot D (s, rd) = (r, (s', rd'))"
  shows "leaves_one_of D content (import_chains D (rd_bytes rd) (abs_chain content s)) s'"
proof -
  have stays: ?thesis if "s' = s"
    using that leaves_one_ofI [OF leaves_chain_inv [OF inv]] by (simp add: import_chains_def)
  from run [unfolded import_snapshot_def] show ?thesis
  proof (cases rule: tryM_any)
    case stopped
    from unchangedD [OF unchanged_fst_stream stopped(1)] have "s' = s" by simp
    then show ?thesis by (rule stays)
  next
    case (continued m t)
    obtain rd1 where t: "t = (s, rd1)" using unchangedD [OF unchanged_fst_stream continued(1)] by (cases t) simp
    have m: "dp_de_manifest D (rd_bytes rd) = Inr (m, rd_bytes rd1)"
      using continued(1) by (auto simp: t stream_steps_Ok read_manifest_def split: sum.splits)
    from continued(2) [unfolded t] show ?thesis
    proof (cases rule: tryM_any)
      case stopped
      from unchangedD [OF unchanged_fst_lift stopped(1)] have "s' = s" by simp
      then show ?thesis by (rule stays)
    next
      case two: (continued mb t2)
      have t2: "t2 = (s, rd1)" using two(1) by (auto simp: liftM_Ok)
      show ?thesis
      proof (cases "sm_version m = SNAPSHOT_VERSION")
        case False
        with two(2) have "s' = s" by (simp add: t2)
        then show ?thesis by (rule stays)
      next
        case True
        let ?ns = "range_incl (sm_start_height m) (sm_end_height m)"
        obtain res s2 rd2 where blocks: "foldM (import_block D) (mb, None) ?ns (s, rd1) = (res, (s2, rd2))"
          by (metis prod.collapse)
        from True two(2) have "s' = s2"
        proof (cases res)
          case (Ok acc)
          with True two(2) blocks have "(case acc of (hasher, _) \<Rightarrow>
              tryM (on_stream ''snapshot checksum read: '' (read_exact 32)) (\<lambda>checksum_bytes.
              if bytes32_new checksum_bytes \<noteq> dp_sha256 D hasher then failM (Serialization ''snapshot checksum mismatch'')
              else returnM m)) (s2, rd2) = (r, (s', rd'))"
            by (simp add: t2 tryM_run(1))
          moreover have "unchanged fst (case acc of (hasher, _) \<Rightarrow>
              tryM (on_stream ''snapshot checksum read: '' (read_exact 32)) (\<lambda>checksum_bytes.
              if bytes32_new checksum_bytes \<noteq> dp_sha256 D hasher then failM (Serialization ''snapshot checksum mismatch'')
              else returnM m))"
            by (intro frame_rules unchanged_fst_stream)
          ultimately show ?thesis by (auto dest: unchangedD)
        qed (simp_all add: t2 tryM_run(2,3) blocks)
        with import_blocks_interrupted [OF inv blocks] m show ?thesis
          unfolding leaves_one_of_def import_chains_def by blast
      qed
    qed
  qed
qed

end

section \<open>Batches of the write pipeline\<close>

text \<open>The canonical jobs among \<open>jobs\<close>, in their order.\<close>

definition put_jobs :: "('d, 'b, 'h, 'g) deps \<Rightarrow> PipelineJob list \<Rightarrow> chain \<Rightarrow> chain" where
  "put_jobs D jobs c =
     fold (\<lambda>(b, canonical, _). if canonical then spec_set (dp_block_height D b) (dp_block_hash D b) else id) jobs c"

text \<open>A batch leaves out jobs whose block is stored already or cannot be serialized.\<close>

definition batch_chains :: "('d, 'b, 'h, 'g) deps \<Rightarrow> PipelineJob list \<Rightarrow> chain \<Rightarrow> chain set" where
  "batch_chains D jobs c = insert c {put_jobs D new c | new. subseq new jobs}"

lemma unchanged_send: "unchanged fst (send a res)"
  by (simp add: unchanged_def send_def split: prod.splits)

lemma unchanged_on_store: "unchanged (\<lambda>s. s) m \<Longrightarrow> unchanged fst (on_store (catchM m))"
  by (auto simp: unchanged_def on_store_def catchM_def split: prod.splits outcome.splits) (metis snd_conv)+

lemma unchanged_case_sum:
  "(\<And>a. unchanged g (f a)) \<Longrightarrow> (\<And>b. unchanged g (h b)) \<Longrightarrow> unchanged g (case x of Inl a \<Rightarrow> f a | Inr b \<Rightarrow> h b)"
  by (cases x) auto

lemma stage_job_still: "unchanged fst (stage_job D acc job)"
  unfolding stage_job_def Let_def
  by (intro frame_rules unchanged_send unchanged_on_store unchanged_case_sum)

lemma stage_jobs_rows:
  assumes "foldM (stage_job D) (seen, staged) jobs (s, acks) = (Ok (seen', staged'), (s', acks'))"
  shows "s' = s \<and> (\<exists>new rows. staged' = staged @ rows \<and> subseq new jobs \<and> list_all2 (row_for D s) new rows)"
  using assms
proof (induction jobs arbitrary: seen staged acks)
  case Nil
  then show ?case by simp
next
  case (Cons job jobs)
  from Cons.prems obtain sn st s1 a1 where one: "stage_job D (seen, staged) job (s, acks) = (Ok (sn, st), (s1, a1))"
    and rest: "foldM (stage_job D) (sn, st) jobs (s1, a1) = (Ok (seen', staged'), (s', acks'))"
    by (auto simp: tryM_Ok)
  note o = stage_job_outcome [OF one]
  then have s1: "s1 = s" by blast
  from Cons.IH [OF rest [unfolded s1]] obtain new rows where rest: "s' = s" "staged' = st @ rows" "subseq new jobs"
    "list_all2 (row_for D s) new rows" by blast
  from o consider "st = staged" | row where "st = staged @ [row]" "row_for D s job row" by blast
  then show ?case
  proof cases
    case 1
    with rest show ?thesis by (intro conjI exI [of _ new] exI [of _ rows]) auto
  next
    case (2 row)
    with rest show ?thesis by (intro conjI exI [of _ "job # new"] exI [of _ "row # rows"]) auto
  qed
qed

text \<open>A row that can be written: its block is not there, and the bytes are those of the block.\<close>

definition new_row :: "('d, 'b, 'h, 'g) deps \<Rightarrow> db_content \<Rightarrow> ('d, 'b, 'h, 'g) store \<Rightarrow> StagedRow \<Rightarrow> bool" where
  "new_row D X s row \<longleftrightarrow> sr_hash row = dp_block_hash D (sr_block row) \<and>
     X CF_BLOCKS (hash_key (sr_hash row)) = None \<and>
     block_frame D (active_dict s) (sr_block row) (sr_compressed row) \<and>
     dp_ser_header D (blk_header (sr_block row)) = Inr (sr_header_bytes row)"

definition put_staged :: "('d, 'b, 'h, 'g) deps \<Rightarrow> StagedRow list \<Rightarrow> chain \<Rightarrow> chain" where
  "put_staged D staged c = fold (\<lambda>row. if sr_canonical row
     then spec_set (dp_block_height D (sr_block row)) (sr_hash row) else id) staged c"

lemma put_staged_jobs:
  "list_all2 (row_for D s) jobs rows \<Longrightarrow> put_staged D rows c = put_jobs D jobs c"
  by (induction arbitrary: c rule: list_all2_induct) (auto simp: put_staged_def put_jobs_def row_for_def)

lemma staged_row_puts:
  "sr_hash row = dp_block_hash D (sr_block row) \<Longrightarrow>
    staged_row_batch D row = put_rows D (sr_block row) (sr_canonical row) (sr_compressed row) (sr_header_bytes row)"
  by (simp add: staged_row_batch_def put_rows_def block_rows_def)

lemma staged_batch_Cons: "staged_batch D (row # staged) = staged_row_batch D row @ staged_batch D staged"
  by (simp add: staged_batch_def)

lemma new_rows_Cons:
  assumes "distinct (map sr_hash (row # staged))" and "\<forall>r \<in> set (row # staged). new_row D X s r"
  shows "\<forall>r \<in> set staged. new_row D (apply_batch (staged_row_batch D row) X) s r"
proof
  fix r assume r: "r \<in> set staged"
  let ?X = "apply_batch (staged_row_batch D row) X"
  from r have "new_row D X s r" using assms(2) by simp
  moreover have "sr_hash row \<notin> sr_hash ` set staged" using assms(1) by simp
  with r have "sr_hash r \<noteq> sr_hash row" by (metis imageI)
  then have "?X CF_BLOCKS (hash_key (sr_hash r)) = X CF_BLOCKS (hash_key (sr_hash r))"
    by (simp add: staged_row_batch_def)
  ultimately show "new_row D ?X s r" unfolding new_row_def by metis
qed

lemma on_store_preserves:
  "preserves P m \<Longrightarrow> preserves (P \<circ> fst) (on_store m)" "preserves P m \<Longrightarrow> preserves (P \<circ> fst) (on_store (catchM m))"
  by (fastforce simp: preserves_def on_store_def catchM_def split: prod.splits outcome.splits)+

lemma send_preserves: "preserves (P \<circ> fst) (send a res)"
  by (simp add: preserves_def send_def split: prod.splits)

context deps_laws
begin

lemma row_for_new:
  assumes "row_for D s job row"
  shows "new_row D (content (db s)) s row"
proof -
  obtain t where "serialize_block D (fst job) s = (Ok (sr_compressed row), t)"
    using assms by (metis row_for_def prod.collapse)
  from serialize_block_Ok [OF this] have "block_frame D (active_dict s) (fst job) (sr_compressed row)" by blast
  moreover obtain t' where "db_get D CF_BLOCKS (hash_key (sr_hash row)) s = (Ok None, t')"
    using assms by (metis row_for_def prod.collapse)
  then have "content (db s) CF_BLOCKS (hash_key (sr_hash row)) = None"
    by (auto simp: db_get_def of_sum_Ok dest: get_sound)
  ultimately show ?thesis using assms by (auto simp: row_for_def new_row_def serialize_header_Ok)
qed

lemma staged_durable:
  assumes "durable D X s" and "distinct (map sr_hash staged)" and "\<forall>row \<in> set staged. new_row D X s row"
  shows "durable D (apply_batch (staged_batch D staged) X) s \<and>
    stored_chain (apply_batch (staged_batch D staged) X) = put_staged D staged (stored_chain X)"
  using assms
proof (induction staged arbitrary: X)
  case Nil
  then show ?case by (simp add: staged_batch_def put_staged_def)
next
  case (Cons row staged)
  have "new_row D X s row" using Cons.prems(3) by simp
  then have row: "sr_hash row = dp_block_hash D (sr_block row)" "X CF_BLOCKS (hash_key (sr_hash row)) = None"
    "block_frame D (active_dict s) (sr_block row) (sr_compressed row)"
    "dp_ser_header D (blk_header (sr_block row)) = Inr (sr_header_bytes row)"
    unfolding new_row_def by blast+
  let ?X = "apply_batch (staged_row_batch D row) X"
  note one = put_rows_durable [OF Cons.prems(1) row(2) [unfolded row(1)] row(3,4) refl,
      of "sr_canonical row", folded staged_row_puts [OF row(1)]]
  from Cons.IH [OF one(1) _ new_rows_Cons [OF Cons.prems(2,3)]] Cons.prems(2) one(2) row(1) show ?case
    by (simp add: staged_batch_Cons put_staged_def)
qed

lemma after_write_leaves:
  "preserves (leaves_chain D content c \<circ> fst) (forM staged (finish_row D))"
  "preserves (leaves_chain D content c \<circ> fst) (on_store (catchM (forM staged (extend_row D))))"
  "preserves (leaves_chain D content c \<circ> fst) (on_store (modifyM (\<lambda>s. s\<lparr>pipeline_write_batches := pipeline_write_batches s + 1\<rparr>)))"
  "preserves (leaves_chain D content c \<circ> fst) (fail_staged staged msg)"
proof -
  show "preserves (leaves_chain D content c \<circ> fst) (forM staged (finish_row D))"
    unfolding finish_row_def
    by (intro preserves_forM preserves_tryM on_store_preserves send_preserves train_leaves leaves_frame frame_rules)
      (simp_all add: durable_part_def)
  show "preserves (leaves_chain D content c \<circ> fst) (on_store (catchM (forM staged (extend_row D))))"
    unfolding extend_row_def
    by (intro on_store_preserves leaves_frame frame_rules) (simp_all add: durable_part_def)
  show "preserves (leaves_chain D content c \<circ> fst) (on_store (modifyM (\<lambda>s. s\<lparr>pipeline_write_batches := pipeline_write_batches s + 1\<rparr>)))"
    by (intro on_store_preserves leaves_frame frame_rules) (simp_all add: durable_part_def)
  show "preserves (leaves_chain D content c \<circ> fst) (fail_staged staged msg)"
    unfolding fail_staged_def by (intro preserves_forM send_preserves)
qed

lemma commit_interrupted:
  assumes l: "leaves_chain D content c s" and rows: "distinct (map sr_hash staged)"
      "\<forall>row \<in> set staged. new_row D (content (db s)) s row"
    and run: "commit_staged D staged (s, acks) = (r, (s', acks'))"
  shows "leaves_chain D content c s' \<or> leaves_chain D content (put_staged D staged c) s'"
proof (cases "staged_batch D staged = []")
  case True
  with run l show ?thesis by (simp add: commit_staged_def)
next
  case False
  note run' = run [unfolded commit_staged_def if_not_P [OF False]]
  show ?thesis
  proof (cases "rk_write (dp_rocks D) (db s) (staged_batch D staged)")
    case (Inl e)
    with run' have "fail_staged staged (''write pipeline: rocksdb write failed: '' @ e) (s, acks) = (r, (s', acks'))"
      by (simp add: on_store_def try_write_def tryM_run(1))
    from fail_staged_refuses [OF this] l show ?thesis by simp
  next
    case (Inr d)
    let ?c = "put_staged D staged c" and ?s = "s\<lparr>db := d\<rparr>"
    have cd: "content d = apply_batch (staged_batch D staged) (content (db s))" by (rule write_sound [OF Inr])
    have "durable D (content (db s)) s" "stored_chain (content (db s)) = c" using l by (simp_all add: leaves_chain_def)
    with staged_durable [OF _ rows] cd have "durable D (content d) s" "stored_chain (content d) = ?c" by simp_all
    moreover have "durable D (content d) ?s = durable D (content d) s" by (rule durable_cong) simp_all
    ultimately have new: "(leaves_chain D content ?c \<circ> fst) (?s, acks)" by (simp add: leaves_chain_def)
    define tail where "tail = tryM (on_store (catchM (forM staged (extend_row D)))) (\<lambda>r.
            case r of
              Inl e \<Rightarrow> fail_staged staged (''write pipeline: canonical.bin mmap update failed: '' @
                         error_display (dp_show_hash D) e)
            | Inr _ \<Rightarrow>
                tryM (on_store (modifyM (\<lambda>s. s\<lparr>pipeline_write_batches := pipeline_write_batches s + 1\<rparr>))) (\<lambda>_.
                forM staged (finish_row D)))"
    have done_write: "on_store (try_write D (staged_batch D staged)) (s, acks) = (Ok (Inr ()), (?s, acks))"
      using Inr by (simp add: on_store_def try_write_def)
    have "preserves (leaves_chain D content ?c \<circ> fst) tail"
      unfolding tail_def
      by (intro preserves_tryM after_write_leaves) (auto split: sum.splits intro!: preserves_tryM after_write_leaves)
    moreover have "tail (?s, acks) = (r, (s', acks'))"
      using run' [folded tail_def] done_write by (simp add: tryM_def)
    ultimately have "(leaves_chain D content ?c \<circ> fst) (s', acks')" using new preservesD by fast
    then show ?thesis by simp
  qed
qed

text \<open>A batch, whatever fails in it.\<close>

lemma pipeline_cf_any:
  "pipeline_cf D jobs name body (s, acks) = (r, x) \<Longrightarrow>
    (\<exists>msg. fail_jobs jobs msg (s, acks) = (r, x)) \<or> body (s, acks) = (r, x)"
  by (auto simp: pipeline_cf_def on_store_def catchM_def cf_handle_def tryM_def split: if_splits)

lemma flush_any:
  assumes "flush_pipeline_batch D jobs (s, acks) = (r, x)"
  shows "(\<exists>msg. fail_jobs jobs msg (s, acks) = (r, x)) \<or>
    tryM (foldM (stage_job D) ({}, []) jobs) (\<lambda>(seen, staged). commit_staged D staged) (s, acks) = (r, x)"
proof (cases "read_only s")
  case True
  with assms show ?thesis by (auto simp: flush_pipeline_batch_def)
next
  case False
  with assms show ?thesis
    unfolding flush_pipeline_batch_def by (auto dest!: pipeline_cf_any)
qed

lemma flush_interrupted:
  assumes inv: "store_inv D content s" and run: "flush_pipeline_batch D jobs (s, acks) = (r, (s', acks'))"
  shows "leaves_one_of D content (batch_chains D jobs (abs_chain content s)) s'"
proof -
  let ?c = "abs_chain content s"
  have old: ?thesis if "s' = s"
    using that leaves_one_ofI [OF leaves_chain_inv [OF inv]] by (simp add: batch_chains_def)
  from flush_any [OF run] show ?thesis
  proof (elim disjE exE)
    fix msg assume "fail_jobs jobs msg (s, acks) = (r, (s', acks'))"
    from fail_jobs_refuses [OF this] show ?thesis by (intro old) simp
  next
    assume "tryM (foldM (stage_job D) ({}, []) jobs) (\<lambda>(seen, staged). commit_staged D staged) (s, acks) = (r, (s', acks'))"
    then show ?thesis
    proof (cases rule: tryM_any)
      case stopped
      have "unchanged fst (foldM (stage_job D) ({}, []) jobs)" by (intro frame_rules stage_job_still)
      from unchangedD [OF this stopped(1)] show ?thesis by (intro old) simp
    next
      case (continued x t)
      obtain seen staged a1 where x: "x = (seen, staged)" and t: "t = (s, a1)"
        using stage_jobs_rows continued(1) by (metis prod.collapse)
      note stage = continued(1) [unfolded x t]
      from stage_jobs_rows [OF stage] obtain new where new: "subseq new jobs" "list_all2 (row_for D s) new staged" by auto
      have "distinct (map sr_hash staged)"
        using stage_jobs_outcome [OF stage, of "set jobs"] by (auto simp: staged_ok_def)
      moreover have "\<forall>row \<in> set staged. new_row D (content (db s)) s row"
      proof
        fix row assume "row \<in> set staged"
        then obtain i where "i < length staged" "row = staged ! i" by (auto simp: in_set_conv_nth)
        then have "row_for D s (new ! i) row" using list_all2_nthD2 [OF new(2)] by simp
        then show "new_row D (content (db s)) s row" by (rule row_for_new)
      qed
      moreover have "commit_staged D staged (s, a1) = (r, (s', acks'))" using continued(2) by (simp add: x t)
      ultimately have "leaves_chain D content ?c s' \<or> leaves_chain D content (put_staged D staged ?c) s'"
        by (rule commit_interrupted [OF leaves_chain_inv [OF inv]])
      then show ?thesis
        using new(1) put_staged_jobs [OF new(2), of ?c] unfolding leaves_one_of_def batch_chains_def by auto
    qed
  qed
qed

end

section \<open>Batches that succeed\<close>

definition canonical_entries :: "('d, 'b, 'h, 'g) deps \<Rightarrow> StagedRow list \<Rightarrow> (bytes32 \<times> BlockRecord) list" where
  "canonical_entries D staged =
     map (\<lambda>row. (sr_hash row, record_of_header D (blk_header (sr_block row)))) (filter sr_canonical staged)"

definition row_there ::
  "('d, 'b, 'h, 'g) deps \<Rightarrow> ('d \<Rightarrow> db_content) \<Rightarrow> ('d, 'b, 'h, 'g) store \<Rightarrow> StagedRow \<Rightarrow> bool" where
  "row_there D content s row \<longleftrightarrow> dp_block_hash D (sr_block row) = sr_hash row \<and>
     stored_block D content s (sr_hash row) (sr_block row) \<and>
     stored_header D content s (sr_hash row) (blk_header (sr_block row))"

lemma staged_metadata: "apply_batch (staged_batch D staged) X CF_METADATA = X CF_METADATA"
  by (induction staged arbitrary: X) (simp_all add: staged_batch_def staged_row_batch_def)

lemma fail_staged_errors:
  assumes "fail_staged staged msg (s, acks) = (r, (s', acks'))" and "staged \<noteq> []"
  shows "\<exists>a more. acks' = acks @ (a, Err (Serialization msg)) # more"
proof -
  obtain row rest where staged: "staged = row # rest" using assms(2) by (cases staged) auto
  with assms(1) have "fail_staged rest msg (s, acks @ [(sr_ack row, Err (Serialization msg))]) = (r, (s', acks'))"
    by (simp add: fail_staged_def send_bind)
  from fail_staged_refuses [OF this] show ?thesis by auto
qed

context deps_laws
begin

lemma staged_canonical:
  "X CF_CANONICAL = Y CF_CANONICAL \<Longrightarrow>
    apply_batch (staged_batch D staged) X CF_CANONICAL = apply_batch (canonical_puts (canonical_entries D staged)) Y CF_CANONICAL"
proof (induction staged arbitrary: X Y)
  case Nil
  then show ?case by (simp add: staged_batch_def canonical_entries_def canonical_puts_def)
next
  case (Cons row staged)
  let ?Y = "if sr_canonical row then Y(CF_CANONICAL := (Y CF_CANONICAL)
      (height_key (dp_block_height D (sr_block row)) \<mapsto> hash_key (sr_hash row))) else Y"
  have "apply_batch (staged_row_batch D row) X CF_CANONICAL = ?Y CF_CANONICAL"
    using Cons.prems by (simp add: staged_row_batch_def)
  from Cons.IH [of "apply_batch (staged_row_batch D row) X" ?Y, OF this] show ?case
    by (simp add: staged_batch_Cons canonical_entries_def canonical_puts_def block_height_header record_of_header_def fun_upd_def)
qed

lemma staged_data:
  assumes "data_inv D (\<lambda>_. X) s" and "distinct (map sr_hash staged)" and "\<forall>row \<in> set staged. new_row D X s row"
  shows "data_inv D (\<lambda>_. apply_batch (staged_batch D staged) X) s"
  using assms
proof (induction staged arbitrary: X)
  case Nil
  then show ?case by (simp add: staged_batch_def)
next
  case (Cons row staged)
  have "new_row D X s row" using Cons.prems(3) by simp
  then have row: "sr_hash row = dp_block_hash D (sr_block row)" "X CF_BLOCKS (hash_key (sr_hash row)) = None"
    "block_frame D (active_dict s) (sr_block row) (sr_compressed row)"
    "dp_ser_header D (blk_header (sr_block row)) = Inr (sr_header_bytes row)"
    unfolding new_row_def by blast+
  have "data_inv D (\<lambda>_. apply_batch (staged_row_batch D row) X) s"
    by (rule data_inv_new_block [OF Cons.prems(1) row(2-4) row(1) [symmetric]]) (simp_all add: staged_row_batch_def)
  from Cons.IH [OF this _ new_rows_Cons [OF Cons.prems(2,3)]] Cons.prems(2) show ?case by (simp add: staged_batch_Cons)
qed

lemma extend_rows_bin:
  assumes "forM staged (extend_row D) s = (Ok u, s')"
  shows "\<exists>bin'. forM (canonical_entries D staged) (\<lambda>(h, r). extend_write (dp_io D) (br_height r) h) (canonical_bin s) = (Ok (), bin') \<and>
    s' = s\<lparr>canonical_bin := bin'\<rparr>"
  using assms
proof (induction staged arbitrary: s)
  case Nil
  then show ?case by (simp add: canonical_entries_def)
next
  case (Cons row staged)
  obtain s1 where one: "extend_row D row s = (Ok (), s1)" and rest: "forM staged (extend_row D) s1 = (Ok u, s')"
    using Cons.prems by (auto simp: tryM_Ok)
  from Cons.IH [OF rest] obtain bin' where
    bin': "forM (canonical_entries D staged) (\<lambda>(h, r). extend_write (dp_io D) (br_height r) h) (canonical_bin s1) = (Ok (), bin')"
    "s' = s1\<lparr>canonical_bin := bin'\<rparr>" by blast
  show ?case
  proof (cases "sr_canonical row")
    case True
    with one obtain b where b: "extend_write (dp_io D) (dp_block_height D (sr_block row)) (sr_hash row) (canonical_bin s) = (Ok (), b)"
      "s1 = s\<lparr>canonical_bin := b\<rparr>" by (auto simp: extend_row_def run_simps)
    with True bin' show ?thesis
      by (simp add: canonical_entries_def tryM_run(1) block_height_header record_of_header_def)
  next
    case False
    with one have "s1 = s" by (simp add: extend_row_def)
    with False bin' show ?thesis by (simp add: canonical_entries_def)
  qed
qed

lemma row_there_dict:
  assumes there: "row_there D content s row" and rows: "same_rows (content (db s)) (content d)"
    and s': "s' = s\<lparr>db := d, zstd_dict := z\<rparr>" and z: "z = zstd_dict s \<or> zstd_dict s = None"
  shows "row_there D content s' row"
proof -
  have same: "content d CF_BLOCKS k = content (db s) CF_BLOCKS k" "content d CF_HEADERS k = content (db s) CF_HEADERS k" for k
    using rows by (simp_all add: same_rows_def dict_row_def)
  obtain c where "content (db s) CF_BLOCKS (hash_key (sr_hash row)) = Some c"
    "block_frame D (active_dict s) (sr_block row) c" using there by (auto simp: row_there_def stored_block_def)
  then have "stored_block D content s' (sr_hash row) (sr_block row)"
    by (intro stored_block_dict) (use z in \<open>simp_all add: s' same\<close>)
  with there show ?thesis by (simp add: row_there_def stored_header_def s' same)
qed

lemma finish_row_keeps:
  assumes inv: "store_inv D content s" and there: "row_there D content s row"
    and run: "finish_row D row (s, acks) = (Ok u, (s', acks'))"
  shows "store_inv D content s' \<and> (\<forall>r. row_there D content s r \<longrightarrow> row_there D content s' r)"
proof -
  let ?t = "s\<lparr>record_cache := (record_cache s)(sr_hash row \<mapsto> record_of_header D (blk_header (sr_block row))),
      block_cache := cache_insert (dp_block_lru D) (block_cache s) (sr_hash row) (sr_block row),
      header_cache := cache_insert (dp_header_lru D) (header_cache s) (sr_hash row) (blk_header (sr_block row))\<rparr>"
  obtain res where train: "maybe_train_dictionary D ?t = (res, s')"
    using run unfolding finish_row_def
    by (auto simp: on_store_def catchM_def tryM_Ok record_cache_insert_def block_cache_insert_def header_cache_insert_def
        send_def split: prod.splits outcome.splits)
  have "store_inv D content ?t"
    using there by (intro inv_cache_new_block [OF inv]) (simp_all add: row_there_def)
  note trained = inv_maybe_train [OF this train]
  from trained(2) obtain d z where s': "s' = ?t\<lparr>db := d, zstd_dict := z\<rparr>"
    and rows: "same_rows (content (db ?t)) (content d)" and z: "z = zstd_dict ?t \<or> zstd_dict ?t = None" by blast
  have "row_there D content s' r" if "row_there D content s r" for r
  proof (rule row_there_dict [OF _ rows s' z])
    show "row_there D content ?t r"
      using that by (simp add: row_there_def stored_block_def stored_header_def active_dict_def)
  qed
  with trained(1) show ?thesis by blast
qed

lemma finish_rows_keep:
  assumes "store_inv D content s" and "\<forall>row \<in> set staged. row_there D content s row"
    and "forM staged (finish_row D) (s, acks) = (Ok u, (s', acks'))"
  shows "store_inv D content s'"
  using assms
proof (induction staged arbitrary: s acks)
  case (Cons row staged)
  then obtain s1 a1 where one: "finish_row D row (s, acks) = (Ok (), (s1, a1))"
    and rest: "forM staged (finish_row D) (s1, a1) = (Ok u, (s', acks'))" by (auto simp: tryM_Ok)
  from finish_row_keeps [OF Cons.prems(1) _ one] Cons.prems(2) have "store_inv D content s1"
    "\<forall>row \<in> set staged. row_there D content s1 row" by auto
  from Cons.IH [OF this rest] show ?case .
qed simp

text \<open>What is written and extended, before the caches.\<close>

lemma written_keeps:
  assumes inv: "store_inv D content s" and rw: "\<not> read_only s" and dist: "distinct (map sr_hash staged)"
    and rows: "\<forall>row \<in> set staged. new_row D (content (db s)) s row"
    and fresh: "\<forall>row \<in> set staged. sr_canonical row \<longrightarrow>
      bt_get (canonical_height_cache s) (dp_block_height D (sr_block row)) = None"
    and cd: "content d = apply_batch (staged_batch D staged) (content (db s))"
    and ext: "forM staged (extend_row D) (s\<lparr>db := d\<rparr>) = (Ok u, s')"
  shows "store_inv D content s' \<and> (\<forall>row \<in> set staged. row_there D content s' row)"
proof -
  let ?vs = "canonical_entries D staged"
  from extend_rows_bin [OF ext] obtain bin' where
    bin': "forM ?vs (\<lambda>(h, r). extend_write (dp_io D) (br_height r) h) (canonical_bin s) = (Ok (), bin')"
    and s': "s' = s\<lparr>db := d, canonical_bin := bin'\<rparr>" by auto
  have old: "data_inv D (\<lambda>_. content (db s)) s" "index_ok (\<lambda>_. content (db s)) s" "meta_ok (\<lambda>_. content (db s)) s"
    using inv by (simp_all add: store_inv_def content_now)
  have data: "data_inv D (\<lambda>_. content d) s" unfolding cd by (rule staged_data [OF old(1) dist rows])
  have meta: "meta_ok (\<lambda>_. content d) s"
    by (rule meta_ok_rows_cong [THEN iffD2, OF _ old(3)]) (simp add: cd staged_metadata)
  have "entries_at ?vs n = None" if "bt_get (canonical_height_cache s) n = Some x" for n x
  proof (rule ccontr)
    assume "entries_at ?vs n \<noteq> None"
    then obtain row where "row \<in> set staged" "sr_canonical row" "dp_block_height D (sr_block row) = n"
      by (auto simp: entries_at_def canonical_entries_def block_height_header record_of_header_def dest!: map_of_SomeD)
    with fresh that show False by auto
  qed
  then have "index_ok (\<lambda>_. apply_batch (canonical_puts ?vs) (content (db s))) (s\<lparr>canonical_bin := bin'\<rparr>)"
    by (intro index_entries [OF old(2) rw bin']) blast
  then have "index_ok (\<lambda>_. content d) (s\<lparr>canonical_bin := bin'\<rparr>)"
    by (rule index_ok_rows_cong [THEN iffD2, rotated]) (simp add: cd staged_canonical [OF refl])
  moreover have "data_inv D (\<lambda>_. content d) (s\<lparr>canonical_bin := bin'\<rparr>)"
  proof -
    have "active_dict (s\<lparr>canonical_bin := bin'\<rparr>) = active_dict s" by (simp add: active_dict_def)
    with data show ?thesis
      by (simp add: data_inv_def rows_ok_def blocks_cached_def headers_cached_def records_cached_def known_defs)
  qed
  moreover have "meta_ok (\<lambda>_. content d) (s\<lparr>canonical_bin := bin'\<rparr>)"
    using meta by (simp add: meta_ok_def cong: option.case_cong)
  ultimately have "store_inv D content (s\<lparr>canonical_bin := bin'\<rparr>\<lparr>db := d\<rparr>)"
    by (simp only: store_inv_def content_local)
  moreover have "s' = s\<lparr>canonical_bin := bin'\<rparr>\<lparr>db := d\<rparr>" by (simp add: s')
  ultimately have inv': "store_inv D content s'" by (simp only:)
  have "row_there D content s' row" if row: "row \<in> set staged" for row
  proof -
    have new: "new_row D (content (db s)) s row" using rows row by blast
    note there = staged_rows [OF dist row, of D "content (db s)", folded cd]
    have same: "content (db s') = content d" "active_dict s' = active_dict s" by (simp_all add: s' active_dict_def)
    show ?thesis
      using new there unfolding new_row_def row_there_def stored_block_def stored_header_def same by metis
  qed
  with inv' show ?thesis by blast
qed

lemma commit_keeps:
  assumes inv: "store_inv D content s" and rw: "\<not> read_only s" and dist: "distinct (map sr_hash staged)"
    and rows: "\<forall>row \<in> set staged. new_row D (content (db s)) s row"
    and fresh: "\<forall>row \<in> set staged. sr_canonical row \<longrightarrow>
      bt_get (canonical_height_cache s) (dp_block_height D (sr_block row)) = None"
    and run: "commit_staged D staged (s, acks) = (Ok u, (s', acks @ new))"
    and answered: "\<forall>(a, res) \<in> set new. \<exists>b. res = Ok b"
  shows "store_inv D content s'"
proof (cases "staged_batch D staged = []")
  case True
  with run inv show ?thesis by (simp add: commit_staged_def)
next
  case False
  then have ne: "staged \<noteq> []" by (auto simp: staged_batch_def)
  have failed: False if "fail_staged staged msg (t, acks) = (Ok u, (s', acks @ new))" for msg t
    using fail_staged_errors [OF that ne] answered by fastforce
  note run' = run [unfolded commit_staged_def if_not_P [OF False]]
  show ?thesis
  proof (cases "rk_write (dp_rocks D) (db s) (staged_batch D staged)")
    case (Inl e)
    with run' have "fail_staged staged (''write pipeline: rocksdb write failed: '' @ e) (s, acks) = (Ok u, (s', acks @ new))"
      by (simp add: on_store_def try_write_def tryM_run(1))
    from failed [OF this] show ?thesis ..
  next
    case (Inr d)
    obtain res s2 where ext: "forM staged (extend_row D) (s\<lparr>db := d\<rparr>) = (res, s2)" by force
    show ?thesis
    proof (cases res)
      case (Ok x)
      let ?t = "s2\<lparr>pipeline_write_batches := pipeline_write_batches s2 + 1\<rparr>"
      note w = written_keeps [OF inv rw dist rows fresh write_sound [OF Inr] ext [unfolded Ok]]
      have "row_there D content ?t row" if "row_there D content s2 row" for row
        using that by (simp add: row_there_def stored_block_def stored_header_def active_dict_def)
      with w have "store_inv D content ?t" "\<forall>row \<in> set staged. row_there D content ?t row" by simp_all
      moreover from Ok run' Inr ext have "forM staged (finish_row D) (?t, acks) = (Ok u, (s', acks @ new))"
        by (simp add: on_store_def try_write_def catchM_def tryM_run(1))
      ultimately show ?thesis by (rule finish_rows_keep)
    next
      case (Err e)
      with run' Inr ext have "fail_staged staged (''write pipeline: canonical.bin mmap update failed: '' @
          error_display (dp_show_hash D) e) (s2, acks) = (Ok u, (s', acks @ new))"
        by (simp add: on_store_def try_write_def catchM_def tryM_run(1))
      from failed [OF this] show ?thesis ..
    next
      case (Panic p)
      with run' Inr ext show ?thesis by (simp add: on_store_def try_write_def catchM_def tryM_run)
    qed
  qed
qed

text \<open>
  A batch that answers every job with \<open>Ok\<close> keeps the invariant, if the height cache holds none of
  the heights of its canonical jobs: the code does not refresh it.
\<close>

lemma flush_keeps_inv:
  assumes inv: "store_inv D content s" and run: "flush_pipeline_batch D jobs (s, acks) = (Ok u, (s', acks @ new))"
    and answered: "\<forall>(a, res) \<in> set new. \<exists>b. res = Ok b"
    and fresh: "\<forall>(b, canonical, a) \<in> set jobs. canonical \<longrightarrow> bt_get (canonical_height_cache s) (dp_block_height D b) = None"
  shows "store_inv D content s'"
proof (cases "read_only s")
  case True
  with run have "fail_jobs jobs ERR_MUTATION_READ_ONLY (s, acks) = (Ok u, (s', acks @ new))"
    by (simp add: flush_pipeline_batch_def)
  from fail_jobs_refuses [OF this] inv show ?thesis by simp
next
  case rw: False
  from flush_any [OF run] show ?thesis
  proof (elim disjE exE)
    fix msg assume "fail_jobs jobs msg (s, acks) = (Ok u, (s', acks @ new))"
    from fail_jobs_refuses [OF this] inv show ?thesis by simp
  next
    assume "tryM (foldM (stage_job D) ({}, []) jobs) (\<lambda>(seen, staged). commit_staged D staged) (s, acks) = (Ok u, (s', acks @ new))"
    then obtain seen staged s1 a1 where stage: "foldM (stage_job D) ({}, []) jobs (s, acks) = (Ok (seen, staged), (s1, a1))"
      and commit: "commit_staged D staged (s1, a1) = (Ok u, (s', acks @ new))" by (auto simp: tryM_Ok)
    from stage_jobs_outcome [OF stage, of "set jobs"] obtain n1 where s1: "s1 = s" and a1: "a1 = acks @ n1"
      and dist: "distinct (map sr_hash staged)" and rows: "\<forall>row \<in> set staged. \<exists>job \<in> set jobs. row_for D s job row"
      by (auto simp: staged_ok_def)
    from commit_staged_outcome [OF commit dist] obtain n2 where n2: "acks @ new = a1 @ n2" by blast
    then have new: "new = n1 @ n2" by (simp add: a1)
    have "\<forall>row \<in> set staged. new_row D (content (db s)) s row" using rows row_for_new by blast
    moreover have "\<forall>row \<in> set staged. sr_canonical row \<longrightarrow>
        bt_get (canonical_height_cache s) (dp_block_height D (sr_block row)) = None"
      using rows fresh by (fastforce simp: row_for_def)
    moreover have "\<forall>(a, res) \<in> set n2. \<exists>b. res = Ok b" using answered new by auto
    ultimately show ?thesis
      using commit_keeps [OF inv rw dist, of acks] commit n2 unfolding s1
      by (intro commit_keeps [OF inv rw dist, where acks = a1 and new = n2]) simp_all
  qed
qed

end

end
