(* ===== verification/Histories.thy ===== *)
theory Histories
  imports Bulk
begin

text \<open>
  Recovery after a crash, and the life of a store: requests, reads, compactions of RocksDB's own,
  imports, batches of the write pipeline, restarts and crashes in any order. One relation collects
  them; the store invariant holds in everything it reaches.
\<close>

section \<open>The same store over calls that fail\<close>

text \<open>
  A request that is cut short runs over other calls to the database and the file system: those that
  succeeded, and then one that did not. Blocks, codecs and caches are the same.
\<close>

definition over :: "'d rocksdb \<Rightarrow> io_env \<Rightarrow> ('d, 'b, 'h, 'g) deps \<Rightarrow> ('d, 'b, 'h, 'g) deps" where
  "over R io D = D\<lparr>dp_rocks := R, dp_io := io\<rparr>"

lemma over_fields [simp]:
  "dp_rocks (over R io D) = R" "dp_block_lru (over R io D) = dp_block_lru D" "dp_header_lru (over R io D) = dp_header_lru D"
  "dp_height_lru (over R io D) = dp_height_lru D" "dp_block_hash (over R io D) = dp_block_hash D"
  "dp_block_height (over R io D) = dp_block_height D"
  by (simp_all add: over_def)

lemma over_known [simp]:
  "known_header (over R io D) = known_header D" "known_block (over R io D) = known_block D"
  "known_record (over R io D) = known_record D" "stored_header (over R io D) = stored_header D"
  "block_frame (over R io D) = block_frame D"
  by (simp_all add: fun_eq_iff known_defs record_matches_def record_of_header_def block_frame_def frame_of_def over_def)

lemma over_inv [simp]: "store_inv (over R io D) = store_inv D"
  by (simp add: fun_eq_iff store_inv_def data_inv_def rows_ok_def blocks_cached_def headers_cached_def
      records_cached_def) (simp add: over_def)

lemma over_leaves [simp]: "leaves_one_of (over R io D) = leaves_one_of D"
  by (simp add: fun_eq_iff leaves_one_of_def leaves_chain_def durable_def rows_ok_def) (simp add: over_def)

lemma over_admitted [simp]: "admitted (over R io D) content rq s = admitted D content rq s"
  by (cases rq) simp_all

lemma over_may_leave [simp]: "may_leave (over R io D) content rq s = may_leave D content rq s"
  by (cases rq) (simp_all add: placed_def)

lemma over_bulk [simp]:
  "import_chains (over R io D) = import_chains D" "batch_chains (over R io D) = batch_chains D"
proof -
  have "linked (over R io D) prev bs = linked D prev bs" for prev bs
    by (induction bs arbitrary: prev) simp_all
  then show "import_chains (over R io D) = import_chains D"
    by (simp add: fun_eq_iff import_chains_def put_new_def) (simp add: over_def)
  show "batch_chains (over R io D) = batch_chains D"
    by (simp add: fun_eq_iff batch_chains_def put_jobs_def cong: if_cong)
qed

text \<open>Imports and batches, with the store they leave and the chains it may have.\<close>

datatype bulk = Import reader | Batch "PipelineJob list" acks

fun left_by :: "('d, 'b, 'h, 'g) deps \<Rightarrow> bulk \<Rightarrow> ('d, 'b, 'h, 'g) store \<Rightarrow> ('d, 'b, 'h, 'g) store" where
  "left_by D (Import rd) s = fst (snd (import_snapshot D (s, rd)))"
| "left_by D (Batch jobs acks) s = fst (snd (flush_pipeline_batch D jobs (s, acks)))"

fun bulk_leaves :: "('d, 'b, 'h, 'g) deps \<Rightarrow> bulk \<Rightarrow> chain \<Rightarrow> chain set" where
  "bulk_leaves D (Import rd) c = import_chains D (rd_bytes rd) c"
| "bulk_leaves D (Batch jobs acks) c = batch_chains D jobs c"

context deps_laws
begin

lemma bulk_interrupted:
  assumes inv: "store_inv D content s"
  shows "leaves_one_of D content (bulk_leaves D bk (abs_chain content s)) (left_by D bk s)"
proof (cases bk)
  case (Import rd)
  obtain r s' rd' where "import_snapshot D (s, rd) = (r, (s', rd'))" by (metis prod.collapse)
  with import_interrupted [OF inv this] Import show ?thesis by simp
next
  case (Batch jobs acks)
  obtain r s' acks' where "flush_pipeline_batch D jobs (s, acks) = (r, (s', acks'))" by (metis prod.collapse)
  with flush_interrupted [OF inv this] Batch show ?thesis by simp
qed

lemma over_laws: "rocksdb_laws R content \<Longrightarrow> deps_laws (over R io D) content"
proof -
  have "codec_laws (over R io D)"
    using codec_laws_axioms by (simp add: over_def codec_laws_def)
  then show "rocksdb_laws R content \<Longrightarrow> deps_laws (over R io D) content"
    by (simp add: deps_laws_def blru.lru_laws_axioms hlru.lru_laws_axioms nlru.lru_laws_axioms)
qed

text \<open>Any run of a request over calls that may fail.\<close>

lemma interrupted_leaves:
  assumes "rocksdb_laws R content" and "store_inv D content s" and "admitted D content rq s"
    and "perform (over R io D) rq s = (r, s')"
  shows "leaves_one_of D content (may_leave D content rq s) s'"
  using deps_laws.requests_leave [OF over_laws [OF assms(1), of io], of s rq r s'] assms by simp

end

section \<open>Recovery\<close>

context live_deps
begin

lemma recover:
  assumes left: "leaves_chain D content c s" and op: "open_store D env config disk = (Ok t, disk')"
    and db: "\<And>cfs d. env_open_db env (cfg_path config) cfs = Inr d \<Longrightarrow> content d = content (db s)"
    and dict: "dict_kept content s (cfg_use_compression_dict config) (cfg_zstd_dictionary_override config)"
  shows "store_inv D content t" and "abs_chain content t = c" and "content (db t) = content (db s)"
proof -
  obtain u where u: "store_inv D content u" "db u = db s" "zstd_dict u = zstd_dict s"
    "use_compression_dict u = use_compression_dict s" "abs_chain content u = c"
    using leaves_chain_store [OF left] by metis
  have act: "active_dict u = active_dict s" by (simp add: active_dict_def u)
  have "dict_kept content u (cfg_use_compression_dict config) (cfg_zstd_dictionary_override config)"
    using dict by (simp add: dict_kept_def act u)
  note o = open_store_restart [OF u(1) op _ this, unfolded u(2), OF db]
  show "store_inv D content t" by (rule o(1))
  show "content (db t) = content (db s)" by (rule o(6))
  show "abs_chain content t = c" using o(2-4) u(5) by (simp add: abs_chain_def)
qed

lemma bulk_recovers:
  assumes "rocksdb_laws R content" and "store_inv D content s"
    and op: "open_store D env config disk = (Ok t, disk')"
    and db: "\<And>cfs d. env_open_db env (cfg_path config) cfs = Inr d \<Longrightarrow> content d = content (db (left_by (over R io D) bk s))"
    and dict: "dict_kept content (left_by (over R io D) bk s) (cfg_use_compression_dict config) (cfg_zstd_dictionary_override config)"
  shows "store_inv D content t" and "abs_chain content t \<in> bulk_leaves D bk (abs_chain content s)"
proof -
  have "leaves_one_of D content (bulk_leaves D bk (abs_chain content s)) (left_by (over R io D) bk s)"
    using deps_laws.bulk_interrupted [OF over_laws [OF assms(1), of io], of s bk] assms(2) by (cases bk) simp_all
  then obtain c where c: "c \<in> bulk_leaves D bk (abs_chain content s)" "leaves_chain D content c (left_by (over R io D) bk s)"
    by (auto simp: leaves_one_of_def)
  note r = recover [OF c(2) op db dict]
  show "store_inv D content t" by (rule r(1))
  show "abs_chain content t \<in> bulk_leaves D bk (abs_chain content s)" using r(2) c(1) by simp
qed

lemma crash_recovers:
  assumes "rocksdb_laws R content" and "store_inv D content s" and "admitted D content rq s"
    and "perform (over R io D) rq s = (r, s')" and op: "open_store D env config disk = (Ok t, disk')"
    and db: "\<And>cfs d. env_open_db env (cfg_path config) cfs = Inr d \<Longrightarrow> content d = content (db s')"
    and dict: "dict_kept content s' (cfg_use_compression_dict config) (cfg_zstd_dictionary_override config)"
  shows "store_inv D content t" and "abs_chain content t \<in> may_leave D content rq s"
proof -
  from interrupted_leaves [OF assms(1-4)] obtain c where c: "c \<in> may_leave D content rq s" "leaves_chain D content c s'"
    by (auto simp: leaves_one_of_def)
  note r = recover [OF c(2) op db dict]
  show "store_inv D content t" by (rule r(1))
  show "abs_chain content t \<in> may_leave D content rq s" using r(2) c(1) by simp
qed

end

text \<open>
  A block that is there is a duplicate for \<open>extend_chain\<close>, which then returns early: also when the
  previous attempt died before it had moved the tip.
\<close>

context deps_laws
begin

lemma extend_chain_known:
  assumes inv: "store_inv D content s" and row: "content (db s) CF_BLOCKS (hash_key (dp_block_hash D b)) \<noteq> None"
    and run: "extend_chain D b s = (Ok r, s')"
  shows "\<not> r" and "abs_chain content s' = abs_chain content s"
proof -
  obtain p s1 where has: "has_block D (dp_block_hash D b) s = (Ok p, s1)"
    using run by (auto simp: extend_chain_def Let_def run_simps)
  have "p" using yields_OkD [OF has_block_yields [OF inv] reading_refl [OF inv] has] row by (auto split: if_splits)
  with run has show "\<not> r" by (auto simp: extend_chain_def Let_def run_simps)
  with extend_chain_Ok(3) [OF inv run] have c: "core s' = core s" by simp
  then show "abs_chain content s' = abs_chain content s"
    using core_known(6) [OF c] by (simp add: abs_chain_def core_def)
qed

end

context live_deps
begin

lemma stale_tip_stays:
  fixes b
  defines "n \<equiv> dp_block_height D b" and "h \<equiv> dp_block_hash D b"
  assumes inv: "store_inv D content s" and R: "rocksdb_laws R content"
    and run: "extend_chain (over R io D) b s = (r, s')" and no: "\<And>x. r \<noteq> Ok x"
    and row: "content (db s') CF_BLOCKS (hash_key h) \<noteq> None"
    and op: "open_store D env config disk = (Ok t, disk')"
    and db: "\<And>cfs d. env_open_db env (cfg_path config) cfs = Inr d \<Longrightarrow> content d = content (db s')"
    and dict: "dict_kept content s' (cfg_use_compression_dict config) (cfg_zstd_dictionary_override config)"
    and again: "extend_chain D b t = (Ok r', t')"
  shows "\<not> r'" and "tip t' = tip s" and "abs_chain content t' \<in> {abs_chain content s, spec_set n h (abs_chain content s)}"
proof -
  have "leaves_one_of D content {abs_chain content s, spec_set n h (abs_chain content s)} s'"
    using deps_laws.extend_chain_stops [OF over_laws [OF R] _ run no] inv by (simp add: n_def h_def)
  then obtain c where c: "c \<in> {abs_chain content s, spec_set n h (abs_chain content s)}" and l: "leaves_chain D content c s'"
    by (auto simp: leaves_one_of_def)
  have rec: "store_inv D content t" "abs_chain content t = c" "content (db t) = content (db s')"
    by (rule recover [OF l op _ dict], erule db)+
  note k = extend_chain_known [OF rec(1) _ again]
  have row': "content (db t) CF_BLOCKS (hash_key (dp_block_hash D b)) \<noteq> None" using rec(3) row by (simp add: h_def)
  show "\<not> r'" by (rule k(1) [OF row'])
  have abs: "abs_chain content t' = c" using k(2) [OF row'] rec(2) by simp
  with c show "abs_chain content t' \<in> {abs_chain content s, spec_set n h (abs_chain content s)}" by simp
  have "ch_tip c = tip s" using c by (auto simp: abs_chain_def)
  with abs show "tip t' = tip s" by (auto simp: abs_chain_def)
qed

end

section \<open>Histories\<close>

text \<open>
  Everything that may happen to a store: a request that returns, a reading request with any
  outcome, a compaction of RocksDB's own, an import of a snapshot, a batch of the write pipeline
  that answers its jobs without error (and makes no height canonical that the height cache holds,
  which the code would leave stale), a restart on the database that is left, with a dictionary that
  still covers the stored frames (\<open>dict_kept\<close>), and a crash: a request, an import or a batch that ends
  anywhere, over calls that may fail, followed by a restart on what it left.
\<close>

definition reopens ::
  "('d, 'b, 'h, 'g) deps \<Rightarrow> ('d \<Rightarrow> db_content) \<Rightarrow> ('d, 'b, 'h, 'g) store \<Rightarrow> ('d, 'b, 'h, 'g) store \<Rightarrow> bool" where
  "reopens D content s t \<longleftrightarrow> (\<exists>env config disk disk'. open_store D env config disk = (Ok t, disk') \<and>
     (\<forall>cfs d. env_open_db env (cfg_path config) cfs = Inr d \<longrightarrow> content d = content (db s)) \<and>
     dict_kept content s (cfg_use_compression_dict config) (cfg_zstd_dictionary_override config))"

inductive history ::
  "('d, 'b, 'h, 'g) deps \<Rightarrow> ('d \<Rightarrow> db_content) \<Rightarrow> ('d, 'b, 'h, 'g) store \<Rightarrow> ('d, 'b, 'h, 'g) store \<Rightarrow> bool"
  for D :: "('d, 'b, 'h, 'g) deps" and content :: "'d \<Rightarrow> db_content" and s0 :: "('d, 'b, 'h, 'g) store" where
  start: "history D content s0 s0"
| request: "history D content s0 s \<Longrightarrow> admitted D content rq s \<Longrightarrow> perform D rq s = (Ok u, s') \<Longrightarrow>
     history D content s0 s'"
| read: "history D content s0 s \<Longrightarrow> reads_only rq \<Longrightarrow> perform D rq s = (r, s') \<Longrightarrow> history D content s0 s'"
| background: "history D content s0 s \<Longrightarrow> compacted D content s s' \<Longrightarrow> history D content s0 s'"
| imported: "history D content s0 s \<Longrightarrow> import_snapshot D (s, rd) = (Ok m, (s', rd')) \<Longrightarrow> history D content s0 s'"
| batched: "history D content s0 s \<Longrightarrow> flush_pipeline_batch D jobs (s, acks) = (Ok u, (s', acks @ new)) \<Longrightarrow>
     \<forall>(a, res) \<in> set new. \<exists>b. res = Ok b \<Longrightarrow>
     \<forall>(b, canonical, a) \<in> set jobs. canonical \<longrightarrow> bt_get (canonical_height_cache s) (dp_block_height D b) = None \<Longrightarrow>
     history D content s0 s'"
| restart: "history D content s0 s \<Longrightarrow> reopens D content s s' \<Longrightarrow> history D content s0 s'"
| crash: "history D content s0 s \<Longrightarrow> rocksdb_laws R content \<Longrightarrow> admitted D content rq s \<Longrightarrow>
     perform (over R io D) rq s = (r, s') \<Longrightarrow> reopens D content s' t \<Longrightarrow> history D content s0 t"
| bulk_crash: "history D content s0 s \<Longrightarrow> rocksdb_laws R content \<Longrightarrow> reopens D content (left_by (over R io D) bk s) t \<Longrightarrow>
     history D content s0 t"

text \<open>
  Only \<open>restart\<close> and the crashes need that the calls of the reopened store succeed: \<open>open\<close> ignores an
  error reading the minimum height.
\<close>

context live_deps
begin

lemma history_inv: "history D content s0 s \<Longrightarrow> store_inv D content s0 \<Longrightarrow> store_inv D content s"
proof (induction rule: history.induct)
  case (request s rq u s')
  then show ?case using requests_keep by blast
next
  case (read s rq r s')
  then show ?case using reads_keep by blast
next
  case (background s s')
  then show ?case using compacted_keeps(1) by blast
next
  case (imported s rd m s' rd')
  from import_snapshot_Ok [OF imported.hyps(2)] obtain blocks where "put_blocks D blocks s = (Ok (), s')" by blast
  then show ?case using put_blocks_Ok imported by blast
next
  case (batched s jobs acks u s' new)
  from flush_keeps_inv [OF batched.IH [OF batched.prems] batched.hyps(2-4)] show ?case .
next
  case (restart s s')
  then obtain env config disk disk' where op: "open_store D env config disk = (Ok s', disk')"
    and db: "\<And>cfs d. env_open_db env (cfg_path config) cfs = Inr d \<Longrightarrow> content d = content (db s)"
    and dict: "dict_kept content s (cfg_use_compression_dict config) (cfg_zstd_dictionary_override config)"
    by (auto simp: reopens_def)
  from restart show ?case by (intro open_store_restart(1) [OF _ op db dict]) simp
next
  case (crash s R rq io r s' t)
  then obtain env config disk disk' where op: "open_store D env config disk = (Ok t, disk')"
    and db: "\<And>cfs d. env_open_db env (cfg_path config) cfs = Inr d \<Longrightarrow> content d = content (db s')"
    and dict: "dict_kept content s' (cfg_use_compression_dict config) (cfg_zstd_dictionary_override config)"
    by (auto simp: reopens_def)
  from crash show ?case by (intro crash_recovers(1) [OF _ _ _ _ op db dict]) simp_all
next
  case (bulk_crash s R io bk t)
  let ?s = "left_by (over R io D) bk s"
  from bulk_crash obtain env config disk disk' where op: "open_store D env config disk = (Ok t, disk')"
    and db: "\<And>cfs d. env_open_db env (cfg_path config) cfs = Inr d \<Longrightarrow> content d = content (db ?s)"
    and dict: "dict_kept content ?s (cfg_use_compression_dict config) (cfg_zstd_dictionary_override config)"
    by (auto simp: reopens_def)
  from bulk_crash show ?case by (intro bulk_recovers(1) [OF _ _ op db dict]) simp_all
qed

end

end
