(* ===== verification/Recovery_Properties.thy ===== *)
theory Recovery_Properties
  imports Maintenance_Properties Histories
begin

text \<open>
  Properties of a store whose process dies in the middle of a request, and of the whole life of a
  store. The witnesses crash the reference store between two writes.
\<close>

section \<open>Crashes\<close>

text \<open>
  C5: Crash recovery. Let a request run over calls of RocksDB and of the file system any of which may
  fail, and let it end anywhere: with a result, an error or a panic. A store opened on the database
  that is left, whatever became of \<open>canonical.bin\<close>, satisfies the invariant, and its chain is one of
  those that the request may leave: the old chain or the one the request leads to, and for the two
  requests that write twice also the chain between the writes (the rows of the canonical index
  moved under the old tip).
\<close>

theorem crash_recovery:
  assumes "live_deps D content" and "store_inv D content s"
    and "rocksdb_laws R content" and "admitted D content rq s" and "perform (over R io D) rq s = (r, s')"
    and "reopens D content s' t"
  shows "store_inv D content t \<and> abs_chain content t \<in> may_leave D content rq s"
proof -
  obtain env config disk disk' where op: "open_store D env config disk = (Ok t, disk')"
    and db: "\<And>cfs d. env_open_db env (cfg_path config) cfs = Inr d \<Longrightarrow> content d = content (db s')"
    and dict: "dict_kept content s' (cfg_use_compression_dict config) (cfg_zstd_dictionary_override config)"
    using assms(6) by (auto simp: reopens_def)
  from live_deps.crash_recovers [OF assms(1,3,2,4,5) op db dict] show ?thesis by simp
qed

text \<open>The reference database whose single puts fail: what a crash before \<open>set_tip\<close> looks like.\<close>

definition ref_full :: "ref_db rocksdb" where
  "ref_full = ref_rocks\<lparr>rk_put_cf := (\<lambda>_ _ _ _. Inl ''no space left'')\<rparr>"

lemma ref_full_laws: "rocksdb_laws ref_full ref_content"
  using ref_db.rocksdb_laws_axioms by (simp add: ref_full_def rocksdb_laws_def)

lemma ref_full_simps [simp]:
  "rk_cf_handle ref_full = rk_cf_handle ref_rocks" "rk_get_cf ref_full = rk_get_cf ref_rocks"
  "rk_write ref_full = rk_write ref_rocks" "rk_put_cf ref_full d cf k v = Inl ''no space left''"
  by (simp_all add: ref_full_def)

definition ref_dying :: "(ref_db, L2Block ref_lru, L2BlockHeader ref_lru, u64 ref_lru) deps" where
  "ref_dying = over ref_full (dp_io ref_deps) ref_deps"

lemma ref_dying_simps [simp]:
  "dp_rocks ref_dying = ref_full" "dp_io ref_dying = dp_io ref_deps" "dp_oc ref_dying = dp_oc ref_deps"
  "dp_block_lru ref_dying = ref_lru" "dp_header_lru ref_dying = ref_lru" "dp_height_lru ref_dying = ref_lru"
  "dp_block_hash ref_dying = dp_block_hash ref_deps" "dp_block_height ref_dying = dp_block_height ref_deps"
  "dp_ser_block ref_dying = dp_ser_block ref_deps" "dp_ser_header ref_dying = dp_ser_header ref_deps"
  "dp_encode_all ref_dying = dp_encode_all ref_deps" "dp_is_canonical ref_dying = dp_is_canonical ref_deps"
  by (simp_all add: ref_dying_def over_def)

text \<open>A rollback to height 0 that dies before its second write.\<close>

lemma ref_cut_run:
  obtains s' where "perform ref_dying (Rollback 0) ref_two = (Err (RocksDb ''no space left''), s')"
    and "db s' = ref_write [DeleteCf CF_CANONICAL (height_key 1)] (db ref_two)"
    and "zstd_dict s' = None" and "use_compression_dict s' = use_compression_dict ref_two"
  by (simp add: call_def rollback_to_height_def set_tip_def ref_walk ref_eval ref_states ref_folds block_rows_def)

lemma ref_cut_rows:
  defines "d \<equiv> ref_write [DeleteCf CF_CANONICAL (height_key 1)] (db ref_two)"
  shows "ref_content d CF_METADATA (as_bytes META_TIP) = Some (tip_to_bytes \<lparr>tip_hash = 6, tip_height = 1\<rparr>)"
    "ref_content d CF_METADATA (as_bytes META_MIN_HEIGHT) = None" "ref_content d CF_METADATA (as_bytes META_ZSTD_DICT) = None"
    "ref_rows CF_CANONICAL d = [(height_key 0, bytes32_octets 5)]"
  by (simp_all add: d_def ref_states ref_folds block_rows_def ref_write_def ref_content_def hash_key_def)

lemma ref_reopens:
  assumes "open_store ref_deps (ref_env_on (db s)) ref_config None = (Ok t, disk')" and "active_dict s = None"
  shows "reopens ref_deps ref_content s t"
  unfolding reopens_def
  by (intro exI [of _ "ref_env_on (db s)"] exI [of _ ref_config] exI [of _ None] exI [of _ disk'])
    (use assms in \<open>simp add: ref_env_on_def dict_kept_def\<close>)

theorem crash_recovery_witness:
  "\<exists>s' t. perform (over ref_full (dp_io ref_deps) ref_deps) (Rollback 0) ref_two = (Err (RocksDb ''no space left''), s') \<and>
     open_store ref_deps (ref_env_on (db s')) ref_config None = (Ok t, Some (bytes32_octets 5)) \<and>
     store_inv ref_deps ref_content t \<and>
     abs_chain ref_content t \<in> may_leave ref_deps ref_content (Rollback 0) ref_two \<and>
     \<not> tip_on_chain (abs_chain ref_content t)"
proof -
  obtain s' where run: "perform ref_dying (Rollback 0) ref_two = (Err (RocksDb ''no space left''), s')"
    and db: "db s' = ref_write [DeleteCf CF_CANONICAL (height_key 1)] (db ref_two)"
    and dict: "active_dict s' = None"
    by (rule ref_cut_run) (simp add: active_dict_def)
  let ?t = "new_store ref_deps ref_config False False (db s') (Rw \<lparr>df_bytes = bytes32_octets 5, df_mapped = True\<rparr>) None
    (Some \<lparr>tip_hash = 6, tip_height = 1\<rparr>)"
  have op: "open_store ref_deps (ref_env_on (db s')) ref_config None = (Ok ?t, Some (bytes32_octets 5))"
    unfolding db by (rule ref_open_run [OF ref_cut_rows(1-3) ref_bin_run [OF ref_cut_rows(4)]])
  from crash_recovery [OF ref_live.live_deps_axioms ref_two_inv ref_full_laws _ run [unfolded ref_dying_def] ref_reopens [OF op dict]]
  have "store_inv ref_deps ref_content ?t \<and> abs_chain ref_content ?t \<in> may_leave ref_deps ref_content (Rollback 0) ref_two"
    by simp
  moreover have "ref_content (db s') CF_CANONICAL (height_key 1) = None"
    using ref_rows_listing [of "db s'" CF_CANONICAL] unfolding db ref_cut_rows(4)
    by (simp add: is_listing_def fun_eq_iff split: if_splits)
  then have "\<not> tip_on_chain (abs_chain ref_content ?t)"
    by (simp add: tip_on_chain_def abs_chain_def canonical_at_def live_deps.new_store_fields [OF ref_live.live_deps_axioms])
  ultimately show ?thesis using run op unfolding ref_dying_def by blast
qed


text \<open>The second block of the reference chain, stored and canonical, but not the tip.\<close>

lemma ref_half_run:
  obtains s' where "extend_chain ref_dying (ref_block 6 1 5) ref_genesis = (Err (RocksDb ''no space left''), s')"
    and "db s' = ref_write (ref_rows_of (ref_block 6 1 5) @ [PutCf CF_CANONICAL (height_key 1) (hash_key 6)]) (db ref_genesis)"
    and "active_dict s' = None"
  by (simp add: extend_chain_def put_def put_block_def set_tip_def has_block_def cache_contains_peek ref_eval ref_states ref_folds block_rows_def
     active_dict_def)

lemma ref_half_rows:
  defines "d \<equiv> ref_write (ref_rows_of (ref_block 6 1 5) @ [PutCf CF_CANONICAL (height_key 1) (hash_key 6)]) (db ref_genesis)"
  shows "ref_content d CF_METADATA (as_bytes META_TIP) = Some (tip_to_bytes \<lparr>tip_hash = 5, tip_height = 0\<rparr>)"
    "ref_content d CF_METADATA (as_bytes META_MIN_HEIGHT) = None" "ref_content d CF_METADATA (as_bytes META_ZSTD_DICT) = None"
    "ref_rows CF_CANONICAL d = [(height_key 0, bytes32_octets 5), (height_key 1, bytes32_octets 6)]"
    "ref_content d CF_BLOCKS (hash_key 6) \<noteq> None" "ref_content d CF_HEADERS (hash_key 6) \<noteq> None"
    "ref_content d CF_CANONICAL (height_key 1) = Some (hash_key 6)"
  by (simp_all add: d_def ref_states ref_folds block_rows_def ref_write_def ref_content_def hash_key_def height_order)

lemma ref_half_bin:
  assumes "ref_rows CF_CANONICAL d = [(height_key 0, bytes32_octets 5), (height_key 1, bytes32_octets 6)]"
  shows "open_bin ref_deps d path True None =
    (Ok (Rw \<lparr>df_bytes = bytes32_octets 5 @ bytes32_octets 6, df_mapped = True\<rparr>), Some (bytes32_octets 5 @ bytes32_octets 6))"
proof -
  have "length (bytes32_octets h) \<noteq> 0" for h by simp
  then have "bytes32_octets h \<noteq> []" for h by (metis list.size(3))
  then show ?thesis
    by (simp add: open_bin_def assms open_synced_def dense_bytes_from_cf_def plain_add_def plain_mul_def
        vec_with_capacity_def place_hash_def saturating_mul_def write_at_def io_try_def map_file_def
        open_read_write_def map_existing_def tryM_def)
qed



text \<open>A batch with the second block of the reference chain, over the database whose single puts fail.\<close>

lemma ref_batch_run:
  defines "s' \<equiv> left_by ref_dying (Batch [(ref_block 6 1 5, True, 0)] []) ref_genesis"
  shows "db s' = ref_write (ref_rows_of (ref_block 6 1 5) @ [PutCf CF_CANONICAL (height_key 1) (hash_key 6)]) (db ref_genesis)"
    and "active_dict s' = None"
  by (simp_all add: s'_def flush_pipeline_batch_def pipeline_cf_def on_store_def catchM_def stage_job_def commit_staged_def
      staged_batch_def staged_row_batch_def try_write_def extend_row_def finish_row_def send_def forM_def
      ref_eval ref_states ref_folds block_rows_def active_dict_def)





end
