(* ===== verification/Pipeline_Worker.thy ===== *)
theory Pipeline_Worker
  imports Pipeline
begin

text \<open>
  The write pipeline as a system: callers that send, the worker of \<open>run_write_pipeline\<close>, handles
  that are dropped, and other users of the store. The invariant says where every acknowledgement
  channel is: answered, in the buffer or in the queue. It is kept by every step, the worker's own
  steps end, and where they end nothing is left to answer.
\<close>

section \<open>The steps of the system\<close>

text \<open>
  \<open>others\<close>: the store is shared, so that between two steps it may have become any other. A sender
  exists as long as a handle does; \<open>dropped\<close> is the drop of the last one.
\<close>

inductive pipeline_step ::
  "('d, 'b, 'h, 'g) deps \<Rightarrow> ('d, 'b, 'h, 'g) worker \<Rightarrow> ('d, 'b, 'h, 'g) worker \<Rightarrow> bool"
  for D :: "('d, 'b, 'h, 'g) deps" where
  sent: "wk_tx w \<longrightarrow> wk_open w \<Longrightarrow> can_send w \<Longrightarrow> put_pipelined has_runtime block canonical w = (r, w') \<Longrightarrow>
     pipeline_step D w w'"
| worked: "wk_tx w \<Longrightarrow> run_write_pipeline D w w' \<Longrightarrow> pipeline_step D w w'"
| dropped: "wk_tx w \<Longrightarrow> pipeline_step D w (w\<lparr>wk_open := False\<rparr>)"
| others: "pipeline_step D w (w\<lparr>wk_store := s\<rparr>)"

definition initial_worker :: "('d, 'b, 'h, 'g) store \<Rightarrow> ('d, 'b, 'h, 'g) worker" where
  "initial_worker s = \<lparr>wk_store = s, wk_tx = False, wk_open = False, wk_capacity = 0, wk_batch = 0,
     wk_phase = Waiting, wk_queue = [], wk_buf = [], wk_acks = [], wk_next = 0\<rparr>"

definition pipeline_reachable ::
  "('d, 'b, 'h, 'g) deps \<Rightarrow> ('d, 'b, 'h, 'g) store \<Rightarrow> ('d, 'b, 'h, 'g) worker \<Rightarrow> bool" where
  "pipeline_reachable D s w \<longleftrightarrow> (pipeline_step D)\<^sup>*\<^sup>* (initial_worker s) w"

section \<open>The invariant\<close>

text \<open>The channels that wait for an answer, and those answered.\<close>

definition pending :: "('d, 'b, 'h, 'g) worker \<Rightarrow> nat multiset" where
  "pending w = mset (map job_ack (wk_buf w)) + mset (map job_ack (wk_queue w))"

definition answered :: "('d, 'b, 'h, 'g) worker \<Rightarrow> nat multiset" where
  "answered w = mset (map fst (wk_acks w))"

fun buffer_ok :: "phase \<Rightarrow> PipelineJob list \<Rightarrow> nat \<Rightarrow> bool" where
  "buffer_ok Collecting buf batch \<longleftrightarrow> buf \<noteq> [] \<and> length buf < batch"
| "buffer_ok _ buf batch \<longleftrightarrow> buf = []"

definition worker_inv :: "('d, 'b, 'h, 'g) worker \<Rightarrow> bool" where
  "worker_inv w \<longleftrightarrow>
     (wk_phase w \<noteq> Panicked \<longrightarrow> answered w + pending w = mset [0..<wk_next w]) \<and>
     buffer_ok (wk_phase w) (wk_buf w) (wk_batch w) \<and>
     length (wk_queue w) \<le> wk_capacity w \<and>
     (wk_phase w = Stopped \<longrightarrow> wk_queue w = [] \<and> \<not> wk_open w) \<and>
     (\<not> wk_tx w \<longrightarrow> wk_phase w = Waiting \<and> wk_queue w = [])"

lemma worker_invD:
  assumes "worker_inv w"
  shows "wk_phase w \<noteq> Panicked \<Longrightarrow> answered w + pending w = mset [0..<wk_next w]"
    and "buffer_ok (wk_phase w) (wk_buf w) (wk_batch w)"
    and "length (wk_queue w) \<le> wk_capacity w"
    and "wk_phase w = Stopped \<Longrightarrow> wk_queue w = []"
    and "wk_phase w = Stopped \<Longrightarrow> \<not> wk_open w"
    and "\<not> wk_tx w \<Longrightarrow> wk_phase w = Waiting"
    and "\<not> wk_tx w \<Longrightarrow> wk_queue w = []"
  using assms unfolding worker_inv_def by blast+

lemma worker_inv_initial: "worker_inv (initial_worker s)"
  by (simp add: worker_inv_def initial_worker_def answered_def pending_def)

text \<open>A flush moves the buffer to the answers.\<close>

lemma flush_buffer_fields:
  "wk_tx (flush_buffer D ph w) = wk_tx w" "wk_open (flush_buffer D ph w) = wk_open w"
  "wk_capacity (flush_buffer D ph w) = wk_capacity w" "wk_batch (flush_buffer D ph w) = wk_batch w"
  "wk_queue (flush_buffer D ph w) = wk_queue w" "wk_next (flush_buffer D ph w) = wk_next w"
  "wk_buf (flush_buffer D ph w) = []"
  by (simp_all add: flush_buffer_def split: prod.splits)

lemma flush_buffer_phase: "wk_phase (flush_buffer D ph w) \<in> {ph, Panicked}"
  by (auto simp: flush_buffer_def split: prod.splits outcome.splits)

lemma flush_buffer_answers:
  assumes "wk_phase (flush_buffer D ph w) \<noteq> Panicked"
  shows "answered (flush_buffer D ph w) + pending (flush_buffer D ph w) = answered w + pending w"
proof -
  obtain r s' acks' where run: "flush_pipeline_batch D (wk_buf w) (wk_store w, wk_acks w) = (r, (s', acks'))"
    by (metis prod.collapse)
  with assms have "\<And>p. r \<noteq> Panic p" by (auto simp: flush_buffer_def)
  moreover have "\<And>e. r \<noteq> Err e"
    using flush_no_error [of D "wk_buf w"] run unfolding no_error_def by (metis fst_conv)
  ultimately obtain x where "r = Ok x" by (cases r) auto
  with run have "flush_pipeline_batch D (wk_buf w) (wk_store w, wk_acks w) = (Ok x, (s', acks'))" by simp
  from answersD [OF flush_answers this] obtain new where
    "acks' = wk_acks w @ new" "mset (map fst new) = mset (map job_ack (wk_buf w))" by blast
  with run show ?thesis by (simp add: flush_buffer_def answered_def pending_def)
qed

lemma flush_buffer_inv:
  assumes "wk_phase w \<noteq> Panicked \<longrightarrow> answered w + pending w = mset [0..<wk_next w]"
    and "wk_phase w \<noteq> Panicked" and "length (wk_queue w) \<le> wk_capacity w" and "wk_tx w"
    and "ph = Waiting \<or> ph = Stopped \<and> wk_queue w = [] \<and> \<not> wk_open w"
  shows "worker_inv (flush_buffer D ph w)"
proof -
  have phase: "wk_phase (flush_buffer D ph w) = ph \<or> wk_phase (flush_buffer D ph w) = Panicked"
    using flush_buffer_phase [of D ph w] by blast
  have "buffer_ok (wk_phase (flush_buffer D ph w)) [] (wk_batch w)" using phase assms(5) by auto
  moreover have "answered (flush_buffer D ph w) + pending (flush_buffer D ph w) = mset [0..<wk_next w]"
    if "wk_phase (flush_buffer D ph w) \<noteq> Panicked"
    using flush_buffer_answers [OF that] assms(1,2) by simp
  ultimately show ?thesis
    unfolding worker_inv_def flush_buffer_fields using assms(3-5) phase by auto
qed

lemma take_job_inv:
  assumes inv: "worker_inv w" and ph: "wk_phase w \<in> {Waiting, Collecting}"
    and queue: "wk_queue w = job # rest" and tx: "wk_tx w"
  shows "worker_inv (take_job D job (w\<lparr>wk_queue := rest\<rparr>))"
proof -
  let ?w = "w\<lparr>wk_queue := rest, wk_buf := wk_buf w @ [job]\<rparr>"
  have conserve: "answered ?w + pending ?w = mset [0..<wk_next ?w]"
    using worker_invD(1) [OF inv] ph queue by (auto simp: answered_def pending_def)
  have cap: "length (wk_queue ?w) \<le> wk_capacity ?w" using worker_invD(3) [OF inv] queue by simp
  show ?thesis
  proof (cases "wk_batch w \<le> length (wk_buf w @ [job])")
    case True
    have "worker_inv (flush_buffer D Waiting ?w)"
      by (rule flush_buffer_inv) (use conserve cap tx ph in auto)
    with True show ?thesis by (simp add: take_job_def Let_def)
  next
    case False
    have "worker_inv (?w\<lparr>wk_phase := Collecting\<rparr>)"
      using conserve cap tx False unfolding worker_inv_def answered_def pending_def by simp
    with False show ?thesis by (simp add: take_job_def Let_def)
  qed
qed

lemma run_write_pipeline_inv:
  assumes "run_write_pipeline D w w'" and inv: "worker_inv w" and tx: "wk_tx w"
  shows "worker_inv w'"
  using assms(1)
proof cases
  case (receive job rest)
  with take_job_inv [OF inv _ _ tx] show ?thesis by blast
next
  case closed_waiting
  with inv tx show ?thesis by (auto simp: worker_inv_def answered_def pending_def)
next
  case closed_collecting
  show ?thesis unfolding closed_collecting(1)
    by (rule flush_buffer_inv) (use worker_invD [OF inv] closed_collecting tx in auto)
next
  case timer
  show ?thesis unfolding timer(1)
    by (rule flush_buffer_inv) (use worker_invD [OF inv] timer tx in auto)
qed

text \<open>Sending puts one new channel into the queue.\<close>

lemma put_pipelined_cases:
  assumes "put_pipelined has_runtime block canonical w = (r, w')"
  obtains (unchanged) "w' = w" "\<And>ack. r \<noteq> Ok ack"
    | (first) "\<not> wk_tx w" "has_runtime" "0 < pipeline_channel_capacity (wk_store w)" "r = Ok (wk_next w)"
        "w' = w\<lparr>wk_tx := True, wk_open := True,
           wk_capacity := unat (pipeline_channel_capacity (wk_store w)),
           wk_batch := unat (pipeline_batch_size (wk_store w)), wk_phase := Waiting,
           wk_queue := [(block, canonical, wk_next w)], wk_buf := [], wk_next := Suc (wk_next w)\<rparr>"
    | (closed) "wk_tx w" "wk_phase w \<in> {Stopped, Panicked}" "r = Err PipelineClosed"
        "w' = w\<lparr>wk_next := Suc (wk_next w)\<rparr>"
    | (queued) "wk_tx w" "wk_phase w \<notin> {Stopped, Panicked}" "r = Ok (wk_next w)"
        "w' = w\<lparr>wk_queue := wk_queue w @ [(block, canonical, wk_next w)], wk_next := Suc (wk_next w)\<rparr>"
proof (cases "read_only (wk_store w)")
  case True
  with assms have "w' = w" "\<And>ack. r \<noteq> Ok ack" by (auto simp: put_pipelined_def)
  then show ?thesis by (rule unchanged)
next
  case False
  note writable = this
  show ?thesis
  proof (cases "wk_tx w")
    case True
    with assms writable closed queued show ?thesis
      by (auto simp: put_pipelined_def pipeline_sender_def tryM_assoc split: if_splits)
  next
    case no_tx: False
    consider "\<not> has_runtime" | "has_runtime" "pipeline_channel_capacity (wk_store w) = 0"
      | "has_runtime" "0 < pipeline_channel_capacity (wk_store w)" 
      by (metis word_gt_0)
    then show ?thesis
    proof cases
      case 1
      with assms writable no_tx have "w' = w" "\<And>ack. r \<noteq> Ok ack"
        by (auto simp: put_pipelined_def pipeline_sender_def tryM_assoc)
      then show ?thesis by (rule unchanged)
    next
      case 2
      with assms writable no_tx have "w' = w" "\<And>ack. r \<noteq> Ok ack"
        by (auto simp: put_pipelined_def pipeline_sender_def tryM_assoc tryM_run(3))
      then show ?thesis by (rule unchanged)
    next
      case 3
      then have "pipeline_channel_capacity (wk_store w) \<noteq> 0" by simp
      with 3 assms writable no_tx first show ?thesis
        by (auto simp: put_pipelined_def pipeline_sender_def tryM_assoc)
    qed
  qed
qed

lemma put_pipelined_inv:
  assumes put: "put_pipelined has_runtime block canonical w = (r, w')" and inv: "worker_inv w"
    and handle: "wk_tx w \<longrightarrow> wk_open w" and room: "can_send w"
  shows "worker_inv w'"
  using put
proof (cases rule: put_pipelined_cases)
  case unchanged
  with inv show ?thesis by simp
next
  case first
  have "unat (pipeline_channel_capacity (wk_store w)) \<noteq> 0" using first(3) by (simp add: unat_eq_0 word_neq_0_conv)
  moreover have "wk_buf w = []" using worker_invD(2,6) [OF inv] first(1) by simp
  ultimately show ?thesis
    using worker_invD(1,6,7) [OF inv] first
    by (simp add: worker_inv_def answered_def pending_def)
next
  case closed
  then show ?thesis using inv handle unfolding worker_inv_def answered_def pending_def by auto
next
  case queued
  then have "length (wk_queue w) < wk_capacity w" using room by (auto simp: can_send_def)
  with queued inv show ?thesis unfolding worker_inv_def answered_def pending_def by auto
qed

lemma pipeline_step_inv: "pipeline_step D w w' \<Longrightarrow> worker_inv w \<Longrightarrow> worker_inv w'"
proof (induction rule: pipeline_step.induct)
  case sent
  then show ?case using put_pipelined_inv by blast
next
  case worked
  then show ?case using run_write_pipeline_inv by blast
qed (simp_all add: worker_inv_def answered_def pending_def)

lemma reachable_worker_inv: "pipeline_reachable D s w \<Longrightarrow> worker_inv w"
  unfolding pipeline_reachable_def
  by (induction rule: rtranclp_induct) (auto intro: worker_inv_initial pipeline_step_inv)

section \<open>The worker finishes\<close>

text \<open>Work left: two units for a queued job, so that collecting it costs one and flushing another.\<close>

fun phase_work :: "phase \<Rightarrow> nat" where
  "phase_work Collecting = 2"
| "phase_work Waiting = 1"
| "phase_work _ = 0"

definition work_left :: "('d, 'b, 'h, 'g) worker \<Rightarrow> nat" where
  "work_left w = 2 * length (wk_queue w) + phase_work (wk_phase w)"

lemma flush_buffer_work:
  "ph \<in> {Waiting, Stopped} \<Longrightarrow> work_left (flush_buffer D ph w) \<le> 2 * length (wk_queue w) + phase_work ph"
  using flush_buffer_phase [of D ph w] by (auto simp: work_left_def flush_buffer_fields)

lemma run_write_pipeline_work:
  assumes "run_write_pipeline D w w'"
  shows "work_left w' < work_left w"
  using assms
proof cases
  case (receive job rest)
  have "work_left (take_job D job (w\<lparr>wk_queue := rest\<rparr>)) \<le> 2 * length rest + 2"
    using flush_buffer_work [of Waiting D "w\<lparr>wk_queue := rest, wk_buf := wk_buf w @ [job]\<rparr>"]
    by (auto simp: take_job_def Let_def work_left_def)
  with receive show ?thesis by (auto simp: work_left_def)
next
  case closed_waiting
  then show ?thesis by (simp add: work_left_def)
next
  case closed_collecting
  with flush_buffer_work [of Stopped D w] show ?thesis by (simp add: work_left_def)
next
  case timer
  with flush_buffer_work [of Waiting D w] show ?thesis by (simp add: work_left_def)
qed

lemma run_write_pipeline_wf: "wf {(w', w). run_write_pipeline D w w'}"
  by (rule wf_subset [OF wf_measure [of work_left]]) (auto simp: run_write_pipeline_work)

text \<open>The worker is blocked when its queue is empty and open, and done when it has returned.\<close>

definition worker_rests :: "('d, 'b, 'h, 'g) worker \<Rightarrow> bool" where
  "worker_rests w \<longleftrightarrow> wk_phase w \<in> {Stopped, Panicked} \<or>
     wk_phase w = Waiting \<and> wk_queue w = [] \<and> wk_open w"

lemma worker_rests_iff: "worker_rests w \<longleftrightarrow> (\<nexists>w'. run_write_pipeline D w w')"
proof
  assume "worker_rests w"
  then show "\<nexists>w'. run_write_pipeline D w w'"
    by (auto simp: worker_rests_def elim!: run_write_pipelineE)
next
  assume stuck: "\<nexists>w'. run_write_pipeline D w w'"
  show "worker_rests w"
  proof (rule ccontr)
    assume "\<not> worker_rests w"
    then consider job rest where "wk_phase w \<in> {Waiting, Collecting}" "wk_queue w = job # rest"
      | "wk_phase w = Waiting" "wk_queue w = []" "\<not> wk_open w"
      | "wk_phase w = Collecting" "wk_queue w = []" "\<not> wk_open w"
      | "wk_phase w = Collecting" "wk_queue w = []" "wk_open w"
      by (cases "wk_phase w"; cases "wk_queue w") (auto simp: worker_rests_def)
    then show False using stuck run_write_pipeline.intros by cases blast+
  qed
qed

lemma take_job_fields:
  "wk_tx (take_job D job w) = wk_tx w" "wk_open (take_job D job w) = wk_open w"
  "wk_next (take_job D job w) = wk_next w"
  by (simp_all add: take_job_def Let_def flush_buffer_fields)

lemma worker_run_inv:
  assumes "(run_write_pipeline D)\<^sup>*\<^sup>* w w'" "worker_inv w" "wk_tx w"
  shows "worker_inv w' \<and> wk_tx w' \<and> wk_next w' = wk_next w \<and> wk_open w' = wk_open w"
  using assms(1)
proof (induction rule: rtranclp_induct)
  case base
  with assms show ?case by simp
next
  case (step v v')
  then have "wk_tx v' = wk_tx v \<and> wk_next v' = wk_next v \<and> wk_open v' = wk_open v"
    by (auto elim!: run_write_pipelineE simp: take_job_fields flush_buffer_fields)
  with step run_write_pipeline_inv show ?case by fastforce
qed

lemma worker_comes_to_rest: "\<exists>w'. (run_write_pipeline D)\<^sup>*\<^sup>* w w' \<and> worker_rests w'"
proof (induction w rule: wf_induct_rule [OF run_write_pipeline_wf [of D]])
  case (1 w)
  show ?case
  proof (cases "worker_rests w")
    case False
    then obtain v where v: "run_write_pipeline D w v" unfolding worker_rests_iff [of w D] by blast
    with 1 obtain w' where "(run_write_pipeline D)\<^sup>*\<^sup>* v w'" "worker_rests w'" by blast
    with v show ?thesis by (blast intro: converse_rtranclp_into_rtranclp)
  qed blast
qed

lemma rest_answers_all:
  assumes "worker_inv w" and "worker_rests w" and "wk_phase w \<noteq> Panicked"
  shows "answered w = mset [0..<wk_next w]"
proof -
  from assms(2,3) have "wk_phase w = Stopped \<or> wk_phase w = Waiting \<and> wk_queue w = []"
    by (auto simp: worker_rests_def)
  then have "wk_buf w = []" "wk_queue w = []" using worker_invD(2,4) [OF assms(1)] by auto
  with worker_invD(1) [OF assms(1,3)] show ?thesis by (simp add: pending_def)
qed

end
