(* ===== verification/Pipeline_Equivalence.thy ===== *)
theory Pipeline_Equivalence
  imports Pipeline
begin

text \<open>
  A batch against the blocks put one after another (\<open>put_block\<close>), which the documentation of
  \<open>flush_pipeline_batch\<close> says it mirrors. Over a database whose calls succeed and while no
  dictionary is waiting to be trained, whatever \<open>put_block\<close> accepts in sequence one batch accepts:
  the same answers, the same rows, the same sidecar and the same caches.
\<close>

section \<open>The blocks of a batch one after another\<close>

definition put_job ::
  "('d, 'b, 'h, 'g) deps \<Rightarrow> (nat \<times> bool) list \<Rightarrow> PipelineJob \<Rightarrow> ('d, 'b, 'h, 'g, (nat \<times> bool) list) store_op" where
  "put_job D results job =
     (case job of (block, canonical, ack) \<Rightarrow>
        tryM (put_block D block canonical) (\<lambda>b. returnM (results @ [(ack, b)])))"

definition put_all ::
  "('d, 'b, 'h, 'g) deps \<Rightarrow> PipelineJob list \<Rightarrow> ('d, 'b, 'h, 'g, (nat \<times> bool) list) store_op" where
  "put_all D jobs = foldM (put_job D) [] jobs"

text \<open>No dictionary will be trained.\<close>

definition trained :: "('d, 'b, 'h, 'g) store \<Rightarrow> bool" where
  "trained s \<longleftrightarrow> use_compression_dict s \<longrightarrow> zstd_dict s \<noteq> None"

lemma trained_no_training: "trained s \<Longrightarrow> maybe_train_dictionary D s = (Ok (), s)"
  by (auto simp: trained_def maybe_train_dictionary_def)

text \<open>What a block's frame depends on.\<close>

definition codec_settings :: "('d, 'b, 'h, 'g) store \<Rightarrow> _" where
  "codec_settings s = (compression_level s, use_compression_dict s, zstd_dict s, read_only s)"

lemma codec_settingsD:
  assumes "codec_settings t = codec_settings s"
  shows "read_only t = read_only s" "trained t = trained s"
    and "fst (serialize_block D b t) = fst (serialize_block D b s)"
  using assms
  by (auto simp: codec_settings_def trained_def serialize_block_def tryM_def Let_def liftM_def
      split: outcome.splits option.splits)

text \<open>The caches a written row enters.\<close>

definition cache_row :: "('d, 'b, 'h, 'g) deps \<Rightarrow> ('d, 'b, 'h, 'g) store \<Rightarrow> StagedRow \<Rightarrow> ('d, 'b, 'h, 'g) store" where
  "cache_row D s row = s\<lparr>
     record_cache := (record_cache s)(sr_hash row \<mapsto> record_of_header D (blk_header (sr_block row))),
     block_cache := cache_insert (dp_block_lru D) (block_cache s) (sr_hash row) (sr_block row),
     header_cache := cache_insert (dp_header_lru D) (header_cache s) (sr_hash row) (blk_header (sr_block row))\<rparr>"

definition block_caches :: "('d, 'b, 'h, 'g) store \<Rightarrow> _" where
  "block_caches s = (record_cache s, block_cache s, header_cache s)"

definition row_of :: "('d, 'b, 'h, 'g) deps \<Rightarrow> PipelineJob \<Rightarrow> bytes \<Rightarrow> bytes \<Rightarrow> StagedRow" where
  "row_of D job compressed header_bytes =
     \<lparr>sr_hash = dp_block_hash D (fst job), sr_block = fst job, sr_compressed = compressed,
      sr_header_bytes = header_bytes, sr_canonical = fst (snd job), sr_ack = job_ack job\<rparr>"

context live_deps
begin

lemma serialize_run: "serialize_block D b s = (fst (serialize_block D b s), s)"
  using unchanged_state [OF unchanged_serialize [of "\<lambda>s. s" D b]] by (metis prod.collapse)

lemma serialize_same: "serialize_block D b s = (Ok c, s') \<Longrightarrow> fst (serialize_block D b s) = Ok c \<and> s' = s"
  using unchanged_state [OF unchanged_serialize [of "\<lambda>s. s" D b]] by simp

lemma put_block_steady:
  assumes put: "put_block D block canonical t = (Ok b, t')" and tr: "trained t"
  shows "\<not> read_only t"
    and "b \<longleftrightarrow> content (db t) CF_BLOCKS (hash_key (dp_block_hash D block)) = None"
    and "\<not> b \<Longrightarrow> t' = t"
    and "b \<Longrightarrow> \<exists>c c'. fst (serialize_block D block t) = Ok c \<and> serialize_header D (blk_header block) = Ok c' \<and>
      (let row = row_of D (block, canonical, ack) c c' in
       content (db t') = apply_batch (staged_row_batch D row) (content (db t)) \<and>
       extend_row D row t = (Ok (), t\<lparr>canonical_bin := canonical_bin t'\<rparr>) \<and>
       codec_settings t' = codec_settings t \<and> block_caches t' = block_caches (cache_row D t row))"
proof -
  let ?h = "dp_block_hash D block" and ?n = "dp_block_height D block"
  show rw: "\<not> read_only t" using put by (auto simp: put_block_def run_simps)
  have "(b \<longleftrightarrow> content (db t) CF_BLOCKS (hash_key ?h) = None) \<and> (\<not> b \<longrightarrow> t' = t) \<and>
    (b \<longrightarrow> (\<exists>c c'. fst (serialize_block D block t) = Ok c \<and> serialize_header D (blk_header block) = Ok c' \<and>
      (let row = row_of D (block, canonical, ack) c c' in
       content (db t') = apply_batch (staged_row_batch D row) (content (db t)) \<and>
       extend_row D row t = (Ok (), t\<lparr>canonical_bin := canonical_bin t'\<rparr>) \<and>
       codec_settings t' = codec_settings t \<and> block_caches t' = block_caches (cache_row D t row))))"
  proof (cases "content (db t) CF_BLOCKS (hash_key ?h)")
    case (Some c)
    with put rw show ?thesis by (auto simp: put_block_def run_simps Let_def live.get_eq)
  next
    case None
    let ?rows = "\<lambda>c c'. block_rows D block c c' @
      (if canonical then [PutCf CF_CANONICAL (height_key ?n) (hash_key ?h)] else [])"
    obtain c c' d s2 where ser: "fst (serialize_block D block t) = Ok c" "serialize_header D (blk_header block) = Ok c'"
      and wr: "rk_write (dp_rocks D) (db t) (?rows c c') = Inr d"
      and s2: "(if canonical then tryM (with_bin (extend_write (dp_io D) ?n ?h)) (\<lambda>_. insert_canonical_height_cache ?n ?h)
          else returnM ()) (t\<lparr>db := d\<rparr>) = (Ok (), s2)"
      and train: "maybe_train_dictionary D (s2\<lparr>record_cache := (record_cache s2)(?h \<mapsto> record_of_header D (blk_header block)),
          block_cache := cache_insert (dp_block_lru D) (block_cache s2) ?h block,
          header_cache := cache_insert (dp_header_lru D) (header_cache s2) ?h (blk_header block),
          hash_to_height_cache := cache_insert (dp_height_lru D) (hash_to_height_cache s2) ?h ?n\<rparr>) = (Ok (), t')"
      and b: "b"
      using put None
      by (auto simp: put_block_def tryM_Ok small_steps_Ok Let_def cache_step_defs(1-4) liftM_Ok live.get_eq
          dest!: serialize_same split: if_splits simp del: if_split)
    note cd = write_sound [OF wr]
    obtain bin' hc where ext: "(if canonical then extend_write (dp_io D) ?n ?h (canonical_bin t) = (Ok (), bin')
          else bin' = canonical_bin t)"
      and s2': "s2 = t\<lparr>db := d, canonical_bin := bin', canonical_height_cache := hc\<rparr>"
    proof (cases canonical)
      case False
      with s2 have "s2 = t\<lparr>db := d\<rparr>" by simp
      then show ?thesis by (intro that [of "canonical_bin t" "canonical_height_cache t"]) (simp_all add: False)
    next
      case True
      then obtain bin' where e: "extend_write (dp_io D) ?n ?h (canonical_bin t) = (Ok (), bin')"
        and "s2 = snd (insert_canonical_height_cache ?n ?h (t\<lparr>db := d, canonical_bin := bin'\<rparr>))"
        using s2 by (auto simp: run_simps insert_canonical_height_cache_def)
      then have "s2 = t\<lparr>db := d, canonical_bin := bin', canonical_height_cache := canonical_height_cache s2\<rparr>"
        by (simp add: insert_canonical_height_cache_def)
      with True e show ?thesis by (intro that [of bin' "canonical_height_cache s2"]) simp_all
    qed
    have tr2: "trained (s2\<lparr>record_cache := r, block_cache := x, header_cache := y, hash_to_height_cache := z\<rparr>)" for r x y z
      using tr by (simp add: trained_def s2')
    have t': "t' = s2\<lparr>record_cache := (record_cache s2)(?h \<mapsto> record_of_header D (blk_header block)),
          block_cache := cache_insert (dp_block_lru D) (block_cache s2) ?h block,
          header_cache := cache_insert (dp_header_lru D) (header_cache s2) ?h (blk_header block),
          hash_to_height_cache := cache_insert (dp_height_lru D) (hash_to_height_cache s2) ?h ?n\<rparr>"
      using train unfolding trained_no_training [OF tr2] by simp
    let ?row = "row_of D (block, canonical, ack) c c'"
    have "content (db t') = apply_batch (staged_row_batch D ?row) (content (db t))"
      by (simp add: t' s2' cd row_of_def staged_row_batch_def block_rows_def)
    moreover have "extend_row D ?row t = (Ok (), t\<lparr>canonical_bin := canonical_bin t'\<rparr>)"
      using ext by (simp add: extend_row_def row_of_def t' s2' with_bin_def split: if_splits)
    moreover have "codec_settings t' = codec_settings t" "block_caches t' = block_caches (cache_row D t ?row)"
      by (simp_all add: codec_settings_def block_caches_def cache_row_def row_of_def t' s2')
    ultimately show ?thesis using None b ser by (auto simp: Let_def)
  qed
  then show "b \<longleftrightarrow> content (db t) CF_BLOCKS (hash_key ?h) = None" "\<not> b \<Longrightarrow> t' = t"
    "b \<Longrightarrow> \<exists>c c'. fst (serialize_block D block t) = Ok c \<and> serialize_header D (blk_header block) = Ok c' \<and>
      (let row = row_of D (block, canonical, ack) c c' in
       content (db t') = apply_batch (staged_row_batch D row) (content (db t)) \<and>
       extend_row D row t = (Ok (), t\<lparr>canonical_bin := canonical_bin t'\<rparr>) \<and>
       codec_settings t' = codec_settings t \<and> block_caches t' = block_caches (cache_row D t row))" by blast+
qed

text \<open>
  Staging against putting: \<open>s\<close> is the store the batch started on, \<open>t\<close> the one the puts have reached.
\<close>

definition in_step ::
  "('d, 'b, 'h, 'g) store \<Rightarrow> bytes32 set \<Rightarrow> StagedRow list \<Rightarrow> (nat \<times> bool) list \<Rightarrow> acks \<Rightarrow> ('d, 'b, 'h, 'g) store \<Rightarrow> bool" where
  "in_step s seen staged results refused t \<longleftrightarrow>
     codec_settings t = codec_settings s \<and>
     content (db t) = apply_batch (staged_batch D staged) (content (db s)) \<and>
     forM staged (extend_row D) s = (Ok (), s\<lparr>canonical_bin := canonical_bin t\<rparr>) \<and>
     block_caches t = block_caches (foldl (cache_row D) s staged) \<and>
     (\<forall>h\<in>seen. content (db t) CF_BLOCKS (hash_key h) \<noteq> None) \<and>
     (\<forall>h. h \<notin> seen \<longrightarrow> content (db t) CF_BLOCKS (hash_key h) = content (db s) CF_BLOCKS (hash_key h)) \<and>
     mset (map (\<lambda>(ack, b). (ack, Ok b)) results) = mset refused + mset (map (\<lambda>row. (sr_ack row, Ok True)) staged)"

lemma in_stepD:
  assumes "in_step s seen staged results refused t"
  shows "codec_settings t = codec_settings s"
    and "content (db t) = apply_batch (staged_batch D staged) (content (db s))"
    and "forM staged (extend_row D) s = (Ok (), s\<lparr>canonical_bin := canonical_bin t\<rparr>)"
    and "block_caches t = block_caches (foldl (cache_row D) s staged)"
    and "h \<in> seen \<Longrightarrow> content (db t) CF_BLOCKS (hash_key h) \<noteq> None"
    and "h \<notin> seen \<Longrightarrow> content (db t) CF_BLOCKS (hash_key h) = content (db s) CF_BLOCKS (hash_key h)"
    and "mset (map (\<lambda>(ack, b). (ack, Ok b)) results) = mset refused + mset (map (\<lambda>row. (sr_ack row, Ok True)) staged)"
  using assms unfolding in_step_def by blast+

lemma stage_present:
  assumes "dp_block_hash D (fst job) \<in> seen \<or> content (db s) CF_BLOCKS (hash_key (dp_block_hash D (fst job))) \<noteq> None"
  shows "stage_job D (seen, staged) job (s, acks) =
    (Ok (insert (dp_block_hash D (fst job)) seen, staged), (s, acks @ [(job_ack job, Ok False)]))"
  using assms
  by (auto simp: stage_job_def Let_def on_store_def catchM_def live_steps send_def insert_absorb tryM_run(1)
      split: prod.splits)

lemma stage_new:
  assumes "dp_block_hash D (fst job) \<notin> seen" and "content (db s) CF_BLOCKS (hash_key (dp_block_hash D (fst job))) = None"
    and "fst (serialize_block D (fst job) s) = Ok c" and "serialize_header D (blk_header (fst job)) = Ok c'"
  shows "stage_job D (seen, staged) job (s, acks) =
    (Ok (insert (dp_block_hash D (fst job)) seen, staged @ [row_of D job c c']), (s, acks))"
  using assms serialize_run [of "fst job" s, unfolded assms(3)]
  by (auto simp: stage_job_def Let_def on_store_def catchM_def live_steps tryM_run(1) row_of_def split: prod.splits)

lemma apply_rows_append: "staged_batch D (staged @ [row]) = staged_batch D staged @ staged_row_batch D row"
  by (simp add: staged_batch_def)

lemma forM_append: "forM (xs @ ys) f = tryM (forM xs f) (\<lambda>_. forM ys f)"
  by (simp add: forM_def foldM_append)

lemma extend_row_bin:
  assumes "extend_row D row t = (Ok (), t\<lparr>canonical_bin := bin'\<rparr>)"
  shows "extend_row D row (s\<lparr>canonical_bin := canonical_bin t\<rparr>) = (Ok (), s\<lparr>canonical_bin := bin'\<rparr>)"
proof (cases "sr_canonical row")
  case True
  obtain r b where ext: "extend_write (dp_io D) (dp_block_height D (sr_block row)) (sr_hash row) (canonical_bin t) = (r, b)"
    by force
  with assms True have "r = Ok ()" "t\<lparr>canonical_bin := b\<rparr> = t\<lparr>canonical_bin := bin'\<rparr>"
    by (simp_all add: extend_row_def with_bin_def)
  moreover from arg_cong [OF this(2), of canonical_bin] have "b = bin'" by simp
  ultimately show ?thesis using True ext by (simp add: extend_row_def with_bin_def)
next
  case False
  with assms have "t = t\<lparr>canonical_bin := bin'\<rparr>" by (simp add: extend_row_def)
  from arg_cong [OF this, of canonical_bin] have "canonical_bin t = bin'" by simp
  with False show ?thesis by (simp add: extend_row_def)
qed

lemma cache_row_caches:
  "block_caches s = block_caches t \<Longrightarrow> block_caches (cache_row D s row) = block_caches (cache_row D t row)"
  by (simp add: block_caches_def cache_row_def)

text \<open>One job.\<close>

lemma stage_follows_put:
  assumes step: "in_step s seen staged results refused t" and tr: "trained s"
    and put: "put_job D results job t = (Ok results', t')"
  obtains seen' staged' new where "stage_job D (seen, staged) job (s, acks) = (Ok (seen', staged'), (s, acks @ new))"
    and "in_step s seen' staged' results' (refused @ new) t'"
proof -
  obtain block canonical ack where job: "job = (block, canonical, ack)" by (cases job)
  let ?h = "dp_block_hash D block"
  obtain b where pb: "put_block D block canonical t = (Ok b, t')" and results': "results' = results @ [(ack, b)]"
    using put by (auto simp: put_job_def job run_simps)
  have set: "codec_settings t = codec_settings s" using step by (simp add: in_step_def)
  note steady = put_block_steady [OF pb, unfolded codec_settingsD(2) [OF set], OF tr]
  show ?thesis
  proof (cases b)
    case False
    then have t': "t' = t" and some: "content (db t) CF_BLOCKS (hash_key ?h) \<noteq> None"
      using steady(2,3) by auto
    have "?h \<in> seen \<or> content (db s) CF_BLOCKS (hash_key ?h) \<noteq> None"
      using some step unfolding in_step_def by metis
    then have run: "stage_job D (seen, staged) job (s, acks) = (Ok (insert ?h seen, staged), (s, acks @ [(ack, Ok False)]))"
      using stage_present [of job seen s staged acks] by (simp add: job)
    have "in_step s (insert ?h seen) staged results' (refused @ [(ack, Ok False)]) t'"
      unfolding in_step_def t' results'
    proof (intro conjI in_stepD [OF step])
      show "\<forall>h\<in>insert ?h seen. content (db t) CF_BLOCKS (hash_key h) \<noteq> None"
        using some in_stepD(5) [OF step] by blast
      show "\<forall>h. h \<notin> insert ?h seen \<longrightarrow> content (db t) CF_BLOCKS (hash_key h) = content (db s) CF_BLOCKS (hash_key h)"
        using in_stepD(6) [OF step] by blast
    qed (use in_stepD(7) [OF step] False in simp)
    with run show ?thesis by (rule that)
  next
    case True
    with steady(4) [where ack = ack] obtain c c' where c: "fst (serialize_block D block t) = Ok c"
      "serialize_header D (blk_header block) = Ok c'"
      and eff: "content (db t') = apply_batch (staged_row_batch D (row_of D job c c')) (content (db t))"
      "extend_row D (row_of D job c c') t = (Ok (), t\<lparr>canonical_bin := canonical_bin t'\<rparr>)"
      "codec_settings t' = codec_settings t" "block_caches t' = block_caches (cache_row D t (row_of D job c c'))"
      unfolding job Let_def by metis
    have none: "content (db t) CF_BLOCKS (hash_key ?h) = None" using True steady(2) by simp
    have unseen: "?h \<notin> seen" and none': "content (db s) CF_BLOCKS (hash_key ?h) = None"
      using none step unfolding in_step_def by metis+
    let ?row = "row_of D job c c'"
    have run: "stage_job D (seen, staged) job (s, acks) = (Ok (insert ?h seen, staged @ [?row]), (s, acks @ []))"
      using stage_new [of job seen s c c' staged acks] unseen none' c codec_settingsD(3) [OF set, of D block]
      by (simp add: job)
    have blocks: "content (db t') CF_BLOCKS = (content (db t) CF_BLOCKS)(hash_key ?h \<mapsto> c)"
      by (simp add: eff(1) staged_row_batch_def row_of_def job)
    have bins: "forM (staged @ [?row]) (extend_row D) s = (Ok (), s\<lparr>canonical_bin := canonical_bin t'\<rparr>)"
      using step extend_row_bin [OF eff(2), of s] by (simp add: forM_append tryM_run(1) in_step_def)
    have caches: "block_caches t' = block_caches (foldl (cache_row D) s (staged @ [?row]))"
      using step cache_row_caches [of t "foldl (cache_row D) s staged"] eff(4) by (simp add: in_step_def)
    have "in_step s (insert ?h seen) (staged @ [?row]) results' (refused @ []) t'"
      unfolding in_step_def apply_rows_append
    proof (intro conjI bins caches)
      show "codec_settings t' = codec_settings s" by (simp add: eff(3) set)
      show "content (db t') = apply_batch (staged_batch D staged @ staged_row_batch D ?row) (content (db s))"
        by (simp add: eff(1) in_stepD(2) [OF step])
      show "\<forall>h\<in>insert ?h seen. content (db t') CF_BLOCKS (hash_key h) \<noteq> None"
        using in_stepD(5) [OF step] by (auto simp: blocks)
      show "\<forall>h. h \<notin> insert ?h seen \<longrightarrow> content (db t') CF_BLOCKS (hash_key h) = content (db s) CF_BLOCKS (hash_key h)"
        using in_stepD(6) [OF step] by (auto simp: blocks)
      show "mset (map (\<lambda>(ack, b). (ack, Ok b)) results') =
          mset (refused @ []) + mset (map (\<lambda>row. (sr_ack row, Ok True)) (staged @ [?row]))"
        using True by (simp add: in_stepD(7) [OF step, unfolded mset_map] results' row_of_def job)
    qed
    with run show ?thesis by (rule that)
  qed
qed

lemma staging_follows_puts:
  assumes "in_step s seen staged results refused t" and tr: "trained s"
    and "foldM (put_job D) results jobs t = (Ok results', t')"
  shows "\<exists>seen' staged' new. foldM (stage_job D) (seen, staged) jobs (s, acks) = (Ok (seen', staged'), (s, acks @ new)) \<and>
    in_step s seen' staged' results' (refused @ new) t'"
  using assms(1,3)
proof (induction jobs arbitrary: seen staged results refused t acks)
  case Nil
  then show ?case by simp
next
  case (Cons job jobs)
  then obtain r1 t1 where put: "put_job D results job t = (Ok r1, t1)" and rest: "foldM (put_job D) r1 jobs t1 = (Ok results', t')"
    by (auto simp: run_simps)
  obtain seen1 staged1 new1 where one: "stage_job D (seen, staged) job (s, acks) = (Ok (seen1, staged1), (s, acks @ new1))"
    and step1: "in_step s seen1 staged1 r1 (refused @ new1) t1"
    using stage_follows_put [OF Cons.prems(1) tr put] .
  from Cons.IH [OF step1 rest, of "acks @ new1"] one show ?case
    by (force simp: tryM_run(1))
qed

text \<open>The tail of the batch, once everything is staged.\<close>

lemma finish_row_run:
  assumes "trained s"
  shows "finish_row D row (s, acks) = (Ok (), (cache_row D s row, acks @ [(sr_ack row, Ok True)]))"
proof -
  have "trained (cache_row D s row)" using assms by (simp add: trained_def cache_row_def)
  from trained_no_training [OF this] show ?thesis
    by (simp add: finish_row_def on_store_def record_cache_insert_def block_cache_insert_def header_cache_insert_def
        tryM_run(1) catchM_def send_def cache_row_def)
qed

lemma finish_rows_run:
  "trained s \<Longrightarrow> forM staged (finish_row D) (s, acks) =
    (Ok (), (foldl (cache_row D) s staged, acks @ map (\<lambda>row. (sr_ack row, Ok True)) staged))"
proof (induction staged arbitrary: s acks)
  case (Cons row staged)
  have "trained (cache_row D s row)" using Cons.prems by (simp add: trained_def cache_row_def)
  from Cons.IH [OF this] show ?case by (simp add: tryM_run(1) finish_row_run [OF Cons.prems])
qed simp

lemma cache_rows_local:
  "block_caches (foldl (cache_row D) (s\<lparr>db := d, canonical_bin := b, pipeline_write_batches := n\<rparr>) staged) =
     block_caches (foldl (cache_row D) s staged)"
  "db (foldl (cache_row D) s staged) = db s" "canonical_bin (foldl (cache_row D) s staged) = canonical_bin s"
  "codec_settings (foldl (cache_row D) s staged) = codec_settings s"
proof -
  have local: "block_caches (foldl (cache_row D) s' staged) = block_caches (foldl (cache_row D) s staged)"
    if "block_caches s' = block_caches s" for s' s
    using that
  proof (induction staged arbitrary: s s')
    case (Cons row staged)
    show ?case unfolding foldl.simps by (rule Cons.IH, rule cache_row_caches, rule Cons.prems)
  qed simp
  show "block_caches (foldl (cache_row D) (s\<lparr>db := d, canonical_bin := b, pipeline_write_batches := n\<rparr>) staged) =
     block_caches (foldl (cache_row D) s staged)" by (rule local) (simp add: block_caches_def)
  have row: "db (cache_row D s row) = db s" "canonical_bin (cache_row D s row) = canonical_bin s"
    "codec_settings (cache_row D s row) = codec_settings s" for s row
    by (simp_all add: cache_row_def codec_settings_def)
  show "db (foldl (cache_row D) s staged) = db s" by (induction staged arbitrary: s) (simp_all add: row)
  show "canonical_bin (foldl (cache_row D) s staged) = canonical_bin s"
    by (induction staged arbitrary: s) (simp_all add: row)
  show "codec_settings (foldl (cache_row D) s staged) = codec_settings s"
    by (induction staged arbitrary: s) (simp_all add: row)
qed

lemma extend_rows_local:
  assumes "forM staged (extend_row D) s = (Ok (), s\<lparr>canonical_bin := b\<rparr>)"
  shows "forM staged (extend_row D) (s\<lparr>db := d\<rparr>) = (Ok (), s\<lparr>db := d, canonical_bin := b\<rparr>)"
proof -
  have "extend_row D row (s\<lparr>db := d\<rparr>) = (fst (extend_row D row s), (snd (extend_row D row s))\<lparr>db := d\<rparr>)" for row s
    by (simp add: extend_row_def with_bin_def split: prod.splits)
  note one = this
  have "forM staged (extend_row D) (s\<lparr>db := d\<rparr>) =
      (fst (forM staged (extend_row D) s), (snd (forM staged (extend_row D) s))\<lparr>db := d\<rparr>)" for s
  proof (induction staged arbitrary: s)
    case (Cons row staged)
    obtain r s1 where run: "extend_row D row s = (r, s1)" by force
    with one [of row s] have "extend_row D row (s\<lparr>db := d\<rparr>) = (r, s1\<lparr>db := d\<rparr>)" by simp
    with run Cons.IH [of s1] show ?case by (cases r) (simp_all add: tryM_run)
  qed simp
  with assms show ?thesis by simp
qed

lemma commit_staged_run:
  assumes step: "in_step s seen staged results refused t" and tr: "trained s"
  shows "\<exists>s'. commit_staged D staged (s, acks) = (Ok (), (s', acks @ map (\<lambda>row. (sr_ack row, Ok True)) staged)) \<and>
    content (db s') = content (db t) \<and> canonical_bin s' = canonical_bin t \<and> block_caches s' = block_caches t"
proof (cases "staged_batch D staged = []")
  case True
  then have nil: "staged = []" by (cases staged) (auto simp: staged_batch_def staged_row_batch_def)
  have "commit_staged D staged (s, acks) = (Ok (), (s, acks))" by (simp add: commit_staged_def True)
  moreover have "content (db s) = content (db t)" "block_caches s = block_caches t"
    using in_stepD(2,4) [OF step] by (simp_all add: nil staged_batch_def)
  moreover have "s = s\<lparr>canonical_bin := canonical_bin t\<rparr>" using in_stepD(3) [OF step] by (simp add: nil)
  from arg_cong [OF this, of canonical_bin] have "canonical_bin s = canonical_bin t" by simp
  ultimately show ?thesis by (auto simp: nil)
next
  case False
  obtain d where wr: "rk_write (dp_rocks D) (db s) (staged_batch D staged) = Inr d"
    using live.write_live by blast
  have bins: "forM staged (extend_row D) (s\<lparr>db := d\<rparr>) = (Ok (), s\<lparr>db := d, canonical_bin := canonical_bin t\<rparr>)"
    using step by (intro extend_rows_local) (simp add: in_step_def)
  let ?s = "s\<lparr>db := d, canonical_bin := canonical_bin t, pipeline_write_batches := pipeline_write_batches s + 1\<rparr>"
  have "trained ?s" using tr by (simp add: trained_def)
  from finish_rows_run [OF this]
  have "commit_staged D staged (s, acks) =
      (Ok (), (foldl (cache_row D) ?s staged, acks @ map (\<lambda>row. (sr_ack row, Ok True)) staged))"
    by (simp add: commit_staged_def False on_store_def try_write_def wr catchM_def bins tryM_run(1))
  moreover have "content d = apply_batch (staged_batch D staged) (content (db s))" by (rule write_sound [OF wr])
  ultimately show ?thesis using step by (simp add: cache_rows_local in_step_def)
qed

lemma flush_follows_puts:
  assumes rw: "\<not> read_only s" and tr: "trained s" and puts: "put_all D jobs s = (Ok results, t)"
  shows "\<exists>new s'. flush_pipeline_batch D jobs (s, acks) = (Ok (), (s', acks @ new)) \<and>
    mset new = mset (map (\<lambda>(ack, b). (ack, Ok b)) results) \<and>
    content (db s') = content (db t) \<and> canonical_bin s' = canonical_bin t \<and> block_caches s' = block_caches t"
proof -
  have "in_step s {} [] [] [] s" by (simp add: in_step_def staged_batch_def)
  from staging_follows_puts [OF this tr puts [unfolded put_all_def], of acks]
  obtain seen staged new where stage: "foldM (stage_job D) ({}, []) jobs (s, acks) = (Ok (seen, staged), (s, acks @ new))"
    and step: "in_step s seen staged results new t" by auto
  obtain s' where commit: "commit_staged D staged (s, acks @ new) =
      (Ok (), (s', (acks @ new) @ map (\<lambda>row. (sr_ack row, Ok True)) staged))"
    and same: "content (db s') = content (db t)" "canonical_bin s' = canonical_bin t" "block_caches s' = block_caches t"
    using commit_staged_run [OF step tr] by blast
  have "flush_pipeline_batch D jobs (s, acks) = (Ok (), (s', acks @ new @ map (\<lambda>row. (sr_ack row, Ok True)) staged))"
    using rw by (simp add: flush_pipeline_batch_def pipeline_cf_def on_store_def catchM_def tryM_run(1) stage commit)
  moreover have "mset (new @ map (\<lambda>row. (sr_ack row, Ok True)) staged) = mset (map (\<lambda>(ack, b). (ack, Ok b)) results)"
    using step by (simp add: in_step_def)
  ultimately show ?thesis using same by blast
qed

end

end
