(* ===== verification/Pipeline_Properties.thy ===== *)
theory Pipeline_Properties
  imports Reference Pipeline_Worker Pipeline_Equivalence Pipeline_Acks
begin

text \<open>
  Properties of the write pipeline: where every acknowledgement is, the bounds of queue and buffer,
  the end of the worker's work, what one batch does compared with blocks put one by one, and what a
  positive answer promises. The witnesses run on the reference store.
\<close>

section \<open>The worker\<close>

text \<open>The pipeline after one caller has sent the genesis block.\<close>

definition ref_sent :: "(ref_db, L2Block ref_lru, L2BlockHeader ref_lru, u64 ref_lru) worker" where
  "ref_sent = \<lparr>wk_store = ref_empty, wk_tx = True, wk_open = True, wk_capacity = 4, wk_batch = 2,
     wk_phase = Waiting, wk_queue = [(ref_block 5 0 0, True, 0)], wk_buf = [], wk_acks = [], wk_next = 1\<rparr>"

lemma ref_sent_run: "put_pipelined True (ref_block 5 0 0) True (initial_worker ref_empty) = (Ok 0, ref_sent)"
  by (simp add: put_pipelined_def pipeline_sender_def initial_worker_def ref_sent_def ref_empty_def tryM_assoc)

lemma ref_sent_reachable: "pipeline_reachable ref_deps ref_empty ref_sent"
proof -
  have "pipeline_step ref_deps (initial_worker ref_empty) ref_sent"
    by (rule pipeline_step.sent [OF _ _ ref_sent_run]) (simp_all add: initial_worker_def can_send_def)
  then show ?thesis unfolding pipeline_reachable_def by blast
qed

text \<open>
  C17: No acknowledgement is lost or sent twice: in every reachable state of the pipeline, whatever
  callers, worker and other users of the store did, each channel handed out so far is answered
  exactly once or its job is exactly once in the buffer or in the queue, unless the worker panicked.
\<close>

theorem pipeline_conserves_jobs:
  assumes "pipeline_reachable D s w" and "wk_phase w \<noteq> Panicked"
  shows "answered w + pending w = mset [0..<wk_next w]"
  by (rule worker_invD(1) [OF reachable_worker_inv [OF assms(1)] assms(2)])

theorem pipeline_conserves_jobs_witness:
  "answered ref_sent + pending ref_sent = mset [0..<wk_next ref_sent] \<and> wk_next ref_sent = 1"
  using pipeline_conserves_jobs [OF ref_sent_reachable] by (simp add: ref_sent_def)

text \<open>
  C35: The memory of the pipeline is bounded: in every reachable state the queue holds at most the
  capacity of the channel, and the buffer is empty unless the worker is collecting a batch, when
  it holds at least one job and fewer than the batch size.
\<close>

theorem pipeline_stays_bounded:
  assumes "pipeline_reachable D s w"
  shows "length (wk_queue w) \<le> wk_capacity w \<and>
    (if wk_phase w = Collecting then 0 < length (wk_buf w) \<and> length (wk_buf w) < wk_batch w else wk_buf w = [])"
  using worker_invD(2,3) [OF reachable_worker_inv [OF assms]] by (cases "wk_phase w") auto

theorem pipeline_stays_bounded_witness:
  "length (wk_queue ref_sent) \<le> wk_capacity ref_sent \<and> wk_queue ref_sent \<noteq> []"
  using pipeline_stays_bounded [OF ref_sent_reachable] by (simp add: ref_sent_def)

text \<open>
  C36: The worker task cannot run forever on the jobs it has: its steps are well-founded, and it
  rests exactly when it waits on an empty open queue or has returned.
\<close>

theorem pipeline_worker_terminates:
  "wf {(w', w). run_write_pipeline D w w'} \<and> (worker_rests v \<longleftrightarrow> (\<nexists>v'. run_write_pipeline D v v'))"
  using run_write_pipeline_wf worker_rests_iff by blast

text \<open>
  C18: Every job is answered: from any reachable state the worker's own steps lead to a state in
  which it rests, and in every such state, unless it panicked, all channels handed out have been
  answered exactly once.
\<close>

theorem pipeline_answers_everyone:
  assumes "pipeline_reachable D s w" and "wk_tx w"
  shows "(\<exists>w'. (run_write_pipeline D)\<^sup>*\<^sup>* w w' \<and> worker_rests w') \<and>
    (\<forall>w'. (run_write_pipeline D)\<^sup>*\<^sup>* w w' \<longrightarrow> worker_rests w' \<longrightarrow> wk_phase w' \<noteq> Panicked \<longrightarrow>
       answered w' = mset [0..<wk_next w])"
proof (intro conjI allI impI)
  fix w' assume run: "(run_write_pipeline D)\<^sup>*\<^sup>* w w'" and rest: "worker_rests w'" "wk_phase w' \<noteq> Panicked"
  from worker_run_inv [OF run reachable_worker_inv [OF assms(1)] assms(2)]
  have "worker_inv w'" "wk_next w' = wk_next w" by auto
  with rest_answers_all rest show "answered w' = mset [0..<wk_next w]" by metis
qed (rule worker_comes_to_rest)

theorem pipeline_answers_everyone_witness:
  "\<exists>w'. (run_write_pipeline ref_deps)\<^sup>*\<^sup>* ref_sent w' \<and> worker_rests w' \<and>
     (wk_phase w' \<noteq> Panicked \<longrightarrow> answered w' = {#0#})"
proof -
  have "wk_tx ref_sent" by (simp add: ref_sent_def)
  moreover have "mset [0..<wk_next ref_sent] = {#0#}" by (simp add: ref_sent_def)
  ultimately show ?thesis using pipeline_answers_everyone [OF ref_sent_reachable] by auto
qed

section \<open>Batches\<close>

text \<open>Three jobs, the second a duplicate of the first, the third a fork block.\<close>

definition ref_jobs :: "PipelineJob list" where
  "ref_jobs = [(ref_block 6 1 5, True, 0), (ref_block 6 1 5, False, 1), (ref_block 8 1 5, False, 2)]"

lemma ref_jobs_put: "\<exists>t. put_all ref_deps ref_jobs ref_genesis = (Ok [(0, True), (1, False), (2, True)], t)"
  by (simp add: put_all_def put_job_def ref_jobs_def put_block_def block_rows_def ref_eval ref_states ref_folds)

lemma ref_genesis_settings: "\<not> read_only ref_genesis" "trained ref_genesis"
  by (simp_all add: ref_states trained_def)



text \<open>
  C20: A positive answer is sent only for a block that is in the database: after a batch, whatever
  failed in it, the body and header rows of a job answered \<open>Ok(true)\<close> hold its serialized bytes.
\<close>

theorem positive_answer_is_written:
  assumes "deps_laws D content" and "flush_pipeline_batch D jobs (s, acks) = (Ok u, (s', acks @ new))"
    and "(a, Ok True) \<in> set new"
  shows "\<exists>(block, canonical, ack) \<in> set jobs. ack = a \<and> (\<exists>c hb. fst (serialize_block D block s) = Ok c \<and>
    serialize_header D (blk_header block) = Ok hb \<and>
    content (db s') CF_BLOCKS (hash_key (dp_block_hash D block)) = Some c \<and>
    content (db s') CF_HEADERS (hash_key (dp_block_hash D block)) = Some hb)"
proof -
  from deps_laws.flush_outcome [OF assms(1,2)] assms(3) obtain job row where
    "job \<in> set jobs" "job_ack job = a" "row_for D s job row" "written content s' row" by auto
  then show ?thesis by (intro bexI [of _ job]) (auto simp: row_for_def written_def split: prod.splits)
qed

theorem positive_answer_is_written_witness:
  "\<exists>new s' c. flush_pipeline_batch ref_deps ref_jobs (ref_genesis, []) = (Ok (), (s', new)) \<and>
     (2, Ok True) \<in> set new \<and> ref_content (db s') CF_BLOCKS (hash_key 8) = Some c"
proof -
  obtain t where "put_all ref_deps ref_jobs ref_genesis = (Ok [(0, True), (1, False), (2, True)], t)"
    using ref_jobs_put by blast
  from live_deps.flush_follows_puts [OF ref_live.live_deps_axioms ref_genesis_settings this, of "[]"] obtain new s' where
    run: "flush_pipeline_batch ref_deps ref_jobs (ref_genesis, []) = (Ok (), (s', [] @ new))"
    and new: "mset new = {#(0, Ok True), (1, Ok False), (2, Ok True)#}" by auto
  have mem: "(2, Ok True) \<in> set new" using arg_cong [OF new, of set_mset] by simp
  from positive_answer_is_written [OF ref.deps_laws_axioms run mem] obtain c where
    "ref_content (db s') CF_BLOCKS (hash_key 8) = Some c" by (auto simp: ref_jobs_def)
  with run mem show ?thesis by auto
qed

end
