(* ===== verification/Handles.thy ===== *)
theory Handles
  imports Store_State "HOL-Library.Multiset"
begin

text \<open>
  The handle type \<open>BlockStore\<close> (\<open>src/store.rs\<close>) and who owns what through it. A handle is two
  reference-counted pointers: to the inner store and to the slot of the pipeline's sender. The worker
  task of \<open>src/pipeline.rs\<close> owns a pointer to the inner store, in a handle with a slot of its own, and
  the receiver. Of the channel only its number of senders matters here: it is closed when none is
  left (\<open>Pipeline\<close> models what is sent). The invariant says that the counts are the numbers of owners, so
  that nothing is freed while it is used and nothing is kept without an owner, and that the worker
  keeps the store but not its own channel alive.
\<close>

section \<open>Reference counts\<close>

text \<open>\<open>Arc\<close>: allocations with their strong count; the drop of the last pointer drops the content.\<close>

type_synonym 'a arcs = "nat \<Rightarrow> (nat \<times> 'a) option"

definition arc_new :: "nat \<Rightarrow> 'a \<Rightarrow> 'a arcs \<Rightarrow> 'a arcs" where
  "arc_new p x arcs = arcs(p \<mapsto> (1, x))"

definition arc_clone :: "nat \<Rightarrow> 'a arcs \<Rightarrow> 'a arcs" where
  "arc_clone p arcs = (case arcs p of None \<Rightarrow> arcs | Some (n, x) \<Rightarrow> arcs(p \<mapsto> (Suc n, x)))"

definition arc_drop :: "nat \<Rightarrow> 'a arcs \<Rightarrow> 'a arcs" where
  "arc_drop p arcs = (case arcs p of
     None \<Rightarrow> arcs
   | Some (n, x) \<Rightarrow> if n = 1 then arcs(p := None) else arcs(p \<mapsto> (n - 1, x)))"

text \<open>What the drop of this pointer drops with it.\<close>

definition arc_last :: "nat \<Rightarrow> 'a arcs \<Rightarrow> 'a option" where
  "arc_last p arcs = (case arcs p of Some (n, x) \<Rightarrow> if n = 1 then Some x else None | None \<Rightarrow> None)"

section \<open>The memory\<close>

record BlockStore =
  bs_inner :: nat
  bs_pipeline_tx :: nat

text \<open>The variables of \<open>run_write_pipeline\<close> that own something: \<open>store\<close> and \<open>rx\<close>.\<close>

record worker_task =
  tk_store :: BlockStore
  tk_rx :: nat

text \<open>
  Allocations (\<open>inners\<close>, \<open>slots\<close>), the number of senders of each channel, the next free address, and
  the owners: the handles callers hold, the worker tasks, and the senders of calls that are sending.
\<close>

record ('d, 'b, 'h, 'g) memory =
  inners :: "('d, 'b, 'h, 'g) store arcs"
  slots :: "nat option arcs"
  senders :: "nat \<Rightarrow> nat"
  fresh :: nat
  handles :: "BlockStore multiset"
  workers :: "worker_task multiset"
  in_flight :: "nat multiset"

type_synonym ('d, 'b, 'h, 'g, 'a) memory_op = "(('d, 'b, 'h, 'g) memory, BlockStoreError, 'a) operation"

section \<open>Operations\<close>

text \<open>The handle that \<open>open\<close> and \<open>open_readonly\<close> build around a new inner store.\<close>

definition new_handle ::
  "('d, 'b, 'h, 'g) store \<Rightarrow> ('d, 'b, 'h, 'g) memory \<Rightarrow> BlockStore \<times> ('d, 'b, 'h, 'g) memory" where
  "new_handle s m =
     (let h = \<lparr>bs_inner = fresh m, bs_pipeline_tx = fresh m + 1\<rparr>
      in (h, m\<lparr>inners := arc_new (bs_inner h) s (inners m), slots := arc_new (bs_pipeline_tx h) None (slots m),
           fresh := fresh m + 2, handles := add_mset h (handles m)\<rparr>))"

definition clone_handle ::
  "BlockStore \<Rightarrow> ('d, 'b, 'h, 'g) memory \<Rightarrow> BlockStore \<times> ('d, 'b, 'h, 'g) memory" where
  "clone_handle h m =
     (let h' = \<lparr>bs_inner = bs_inner h, bs_pipeline_tx = bs_pipeline_tx h\<rparr>
      in (h', m\<lparr>inners := arc_clone (bs_inner h) (inners m), slots := arc_clone (bs_pipeline_tx h) (slots m),
           handles := add_mset h' (handles m)\<rparr>))"

text \<open>\<open>Deref\<close>: every field access and method call through a handle reaches the inner store.\<close>

definition deref_handle :: "BlockStore \<Rightarrow> ('d, 'b, 'h, 'g) memory \<Rightarrow> ('d, 'b, 'h, 'g) store option" where
  "deref_handle h m = map_option snd (inners m (bs_inner h))"

definition through ::
  "BlockStore \<Rightarrow> ('d, 'b, 'h, 'g, 'a) store_op \<Rightarrow> ('d, 'b, 'h, 'g) memory \<Rightarrow>
    (BlockStoreError, 'a) outcome option \<times> ('d, 'b, 'h, 'g) memory" where
  "through h op m = (case inners m (bs_inner h) of
     None \<Rightarrow> (None, m)
   | Some (n, s) \<Rightarrow> (case op s of (r, s') \<Rightarrow> (Some r, m\<lparr>inners := (inners m)(bs_inner h \<mapsto> (n, s'))\<rparr>)))"

text \<open>The drop of the two fields of a handle, and of the sender when the slot goes.\<close>

definition drop_fields :: "BlockStore \<Rightarrow> ('d, 'b, 'h, 'g) memory \<Rightarrow> ('d, 'b, 'h, 'g) memory" where
  "drop_fields h m = m\<lparr>inners := arc_drop (bs_inner h) (inners m), slots := arc_drop (bs_pipeline_tx h) (slots m),
     senders := (case arc_last (bs_pipeline_tx h) (slots m) of
       Some (Some ch) \<Rightarrow> (senders m)(ch := senders m ch - 1) | _ \<Rightarrow> senders m)\<rparr>"

definition drop_handle :: "BlockStore \<Rightarrow> ('d, 'b, 'h, 'g) memory \<Rightarrow> ('d, 'b, 'h, 'g) memory" where
  "drop_handle h m = (drop_fields h m)\<lparr>handles := handles m - {#h#}\<rparr>"

text \<open>The worker task returns or dies: its variables are dropped.\<close>

definition drop_worker :: "worker_task \<Rightarrow> ('d, 'b, 'h, 'g) memory \<Rightarrow> ('d, 'b, 'h, 'g) memory" where
  "drop_worker t m = (drop_fields (tk_store t) m)\<lparr>workers := workers m - {#t#}\<rparr>"

text \<open>
  \<open>pipeline_sender\<close>: a clone of the sender in the slot, or a new channel, whose worker task gets a
  clone of the inner store and a slot of its own.
\<close>

definition slot_sender :: "bool \<Rightarrow> BlockStore \<Rightarrow> ('d, 'b, 'h, 'g, nat) memory_op" where
  "slot_sender has_runtime h =
     tryM (getM id) (\<lambda>m.
     case slots m (bs_pipeline_tx h) of
       None \<Rightarrow> panicM ''use after free''
     | Some (n, Some tx) \<Rightarrow>
         tryM (modifyM (\<lambda>m. m\<lparr>senders := (senders m)(tx := senders m tx + 1), in_flight := add_mset tx (in_flight m)\<rparr>)) (\<lambda>_.
         returnM tx)
     | Some (n, None) \<Rightarrow>
         if \<not> has_runtime
         then failM (Serialization ''put_pipelined requires an active Tokio runtime (use #[tokio::test] or Runtime::block_on)'')
         else (case deref_handle h m of
           None \<Rightarrow> panicM ''use after free''
         | Some s \<Rightarrow>
             if pipeline_channel_capacity s = 0 then panicM ''mpsc bounded channel requires buffer > 0''
             else
               let tx = fresh m;
                   store = \<lparr>bs_inner = bs_inner h, bs_pipeline_tx = fresh m + 1\<rparr>
               in tryM (modifyM (\<lambda>m. m\<lparr>inners := arc_clone (bs_inner h) (inners m),
                      slots := arc_new (bs_pipeline_tx store) None ((slots m)(bs_pipeline_tx h \<mapsto> (n, Some tx))),
                      senders := (senders m)(tx := 2), fresh := fresh m + 2,
                      workers := add_mset \<lparr>tk_store = store, tk_rx = tx\<rparr> (workers m),
                      in_flight := add_mset tx (in_flight m)\<rparr>)) (\<lambda>_.
                  returnM tx)))"

text \<open>The end of \<open>put_pipelined\<close>: its sender is dropped.\<close>

definition drop_sender :: "nat \<Rightarrow> ('d, 'b, 'h, 'g) memory \<Rightarrow> ('d, 'b, 'h, 'g) memory" where
  "drop_sender tx m = m\<lparr>senders := (senders m)(tx := senders m tx - 1), in_flight := in_flight m - {#tx#}\<rparr>"

section \<open>The program's use of its handles\<close>

inductive handle_step :: "('d, 'b, 'h, 'g) memory \<Rightarrow> ('d, 'b, 'h, 'g) memory \<Rightarrow> bool" where
  opened: "new_handle s m = (h, m') \<Longrightarrow> handle_step m m'"
| cloned: "h \<in># handles m \<Longrightarrow> clone_handle h m = (h', m') \<Longrightarrow> handle_step m m'"
| used: "h \<in># handles m + image_mset tk_store (workers m) \<Longrightarrow>
     through h (op :: ('d, 'b, 'h, 'g, unit) store_op) m = (r, m') \<Longrightarrow> handle_step m m'"
| dropped: "h \<in># handles m \<Longrightarrow> handle_step m (drop_handle h m)"
| sender: "h \<in># handles m \<Longrightarrow> slot_sender has_runtime h m = (r, m') \<Longrightarrow> handle_step m m'"
| sent: "tx \<in># in_flight m \<Longrightarrow> handle_step m (drop_sender tx m)"
| ended: "t \<in># workers m \<Longrightarrow> handle_step m (drop_worker t m)"

definition no_memory :: "('d, 'b, 'h, 'g) memory" where
  "no_memory = \<lparr>inners = Map.empty, slots = Map.empty, senders = (\<lambda>_. 0), fresh = 0,
     handles = {#}, workers = {#}, in_flight = {#}\<rparr>"

definition handles_reachable :: "('d, 'b, 'h, 'g) memory \<Rightarrow> bool" where
  "handles_reachable m \<longleftrightarrow> handle_step\<^sup>*\<^sup>* no_memory m"

section \<open>Counts are numbers of owners\<close>

definition strong :: "'a arcs \<Rightarrow> nat \<Rightarrow> nat option" where
  "strong arcs p = map_option fst (arcs p)"

definition owned :: "'a arcs \<Rightarrow> nat multiset \<Rightarrow> bool" where
  "owned arcs M \<longleftrightarrow> (\<forall>p. strong arcs p = (if p \<in># M then Some (count M p) else None))"

lemma strong_arcs:
  "strong (arc_new p x arcs) q = (if q = p then Some 1 else strong arcs q)"
  "strong (arc_clone p arcs) q = (if q = p then map_option Suc (strong arcs q) else strong arcs q)"
  "strong (arc_drop p arcs) q = (if q \<noteq> p then strong arcs q
     else if strong arcs q = Some 1 then None else map_option (\<lambda>n. n - 1) (strong arcs q))"
  "arcs p = Some (n, x) \<Longrightarrow> strong (arcs(p \<mapsto> (n, y))) q = strong arcs q"
  by (auto simp: strong_def arc_new_def arc_clone_def arc_drop_def split: option.splits)

lemma owned_iff: "owned arcs M \<Longrightarrow> arcs p = None \<longleftrightarrow> p \<notin># M"
  unfolding owned_def strong_def by (metis option.map_disc_iff option.distinct(1))

lemma owned_some: "owned arcs M \<Longrightarrow> p \<in># M \<Longrightarrow> \<exists>x. arcs p = Some (count M p, x)"
  unfolding owned_def strong_def by (drule spec [of _ p]) auto

lemma owned_new: "owned arcs M \<Longrightarrow> p \<notin># M \<Longrightarrow> owned (arc_new p x arcs) (add_mset p M)"
  by (auto simp: owned_def strong_arcs count_eq_zero_iff)

lemma owned_update: "owned arcs M \<Longrightarrow> arcs p = Some (n, x) \<Longrightarrow> owned (arcs(p \<mapsto> (n, y))) M"
  by (simp add: owned_def strong_arcs)

lemma owned_clone: "owned arcs M \<Longrightarrow> p \<in># M \<Longrightarrow> owned (arc_clone p arcs) (add_mset p M)"
  by (simp add: owned_def strong_arcs)

lemma owned_drop:
  assumes "owned arcs M" and "p \<in># M"
  shows "owned (arc_drop p arcs) (M - {#p#})"
proof -
  have "p \<in># M - {#p#} \<longleftrightarrow> count M p \<noteq> 1" using assms(2) by (simp add: in_diff_count count_greater_zero_iff [symmetric] del: count_greater_zero_iff) arith
  then show ?thesis using assms by (auto simp: owned_def strong_arcs in_diff_count)
qed

lemma arc_drop_other: "q \<noteq> p \<Longrightarrow> arc_drop p arcs q = arcs q"
  by (auto simp: arc_drop_def split: option.splits)

lemma arc_content:
  "map_option snd (arc_clone p arcs q) = map_option snd (arcs q)"
  "arc_drop p arcs q = Some (n, x) \<Longrightarrow> \<exists>k. arcs q = Some (k, x)"
  by (auto simp: arc_clone_def arc_drop_def split: option.splits if_splits)

section \<open>The invariant\<close>

definition all_handles :: "('d, 'b, 'h, 'g) memory \<Rightarrow> BlockStore multiset" where
  "all_handles m = handles m + image_mset tk_store (workers m)"

definition slot_content :: "('d, 'b, 'h, 'g) memory \<Rightarrow> nat \<Rightarrow> nat option" where
  "slot_content m p = (case slots m p of None \<Rightarrow> None | Some (n, x) \<Rightarrow> x)"

definition counts_ok :: "('d, 'b, 'h, 'g) memory \<Rightarrow> bool" where
  "counts_ok m \<longleftrightarrow>
     owned (inners m) (image_mset bs_inner (all_handles m)) \<and>
     owned (slots m) (image_mset bs_pipeline_tx (all_handles m))"

definition below_fresh :: "('d, 'b, 'h, 'g) memory \<Rightarrow> bool" where
  "below_fresh m \<longleftrightarrow>
     (\<forall>h \<in># all_handles m. bs_inner h < fresh m \<and> bs_pipeline_tx h < fresh m) \<and>
     (\<forall>t \<in># workers m. tk_rx t < fresh m) \<and>
     (\<forall>p ch. slot_content m p = Some ch \<longrightarrow> ch < fresh m) \<and>
     (\<forall>ch \<in># in_flight m. ch < fresh m)"

text \<open>A channel has the sender in the slot that holds it, and those of calls that are sending.\<close>

definition senders_ok :: "('d, 'b, 'h, 'g) memory \<Rightarrow> bool" where
  "senders_ok m \<longleftrightarrow>
     (\<forall>p q ch. slot_content m p = Some ch \<longrightarrow> slot_content m q = Some ch \<longrightarrow> p = q) \<and>
     (\<forall>ch. senders m ch = of_bool (\<exists>p. slot_content m p = Some ch) + count (in_flight m) ch)"

text \<open>
  Handles of one store share their slot; a worker's own slot is empty and no handle's; and the slot of
  a store with a worker holds the channel of that worker, and no other slot does.
\<close>

definition sharing_ok :: "('d, 'b, 'h, 'g) memory \<Rightarrow> bool" where
  "sharing_ok m \<longleftrightarrow>
     (\<forall>h \<in># handles m. \<forall>h' \<in># handles m. bs_inner h = bs_inner h' \<longleftrightarrow> bs_pipeline_tx h = bs_pipeline_tx h') \<and>
     (\<forall>t \<in># workers m. slot_content m (bs_pipeline_tx (tk_store t)) = None \<and>
        (\<forall>h \<in># handles m. bs_pipeline_tx h \<noteq> bs_pipeline_tx (tk_store t) \<and>
          (slot_content m (bs_pipeline_tx h) = Some (tk_rx t) \<longleftrightarrow> bs_inner h = bs_inner (tk_store t))))"

definition mem_inv :: "('d, 'b, 'h, 'g) memory \<Rightarrow> bool" where
  "mem_inv m \<longleftrightarrow> counts_ok m \<and> below_fresh m \<and> senders_ok m \<and> sharing_ok m"

lemma mem_inv_initial: "mem_inv no_memory"
  by (simp add: mem_inv_def counts_ok_def below_fresh_def senders_ok_def sharing_ok_def owned_def
      strong_def no_memory_def all_handles_def slot_content_def)

lemma mem_invD:
  assumes "mem_inv m"
  shows "owned (inners m) (image_mset bs_inner (all_handles m))"
    and "owned (slots m) (image_mset bs_pipeline_tx (all_handles m))"
    and "below_fresh m" and "senders_ok m" and "sharing_ok m"
  using assms by (simp_all add: mem_inv_def counts_ok_def)

lemma fresh_unused:
  assumes "mem_inv m" and "fresh m \<le> p"
  shows "p \<notin># image_mset bs_inner (all_handles m)" and "p \<notin># image_mset bs_pipeline_tx (all_handles m)"
    and "slots m p = None" and "slot_content m q \<noteq> Some p" and "p \<notin># in_flight m" and "senders m p = 0"
proof -
  note inv = mem_invD [OF assms(1)]
  show "p \<notin># image_mset bs_inner (all_handles m)" and 2: "p \<notin># image_mset bs_pipeline_tx (all_handles m)"
    using inv(3) assms(2) unfolding below_fresh_def by fastforce+
  with owned_iff [OF inv(2)] show "slots m p = None" by blast
  have content: "slot_content m q \<noteq> Some p" for q
    using inv(3) assms(2) unfolding below_fresh_def by fastforce
  then show "slot_content m q \<noteq> Some p" .
  show "p \<notin># in_flight m" using inv(3) assms(2) unfolding below_fresh_def by fastforce
  with content show "senders m p = 0" using inv(4) by (simp add: senders_ok_def not_in_iff)
qed

lemma live_handle:
  assumes "mem_inv m" and "h \<in># all_handles m"
  obtains n s k x where "inners m (bs_inner h) = Some (n, s)" "slots m (bs_pipeline_tx h) = Some (k, x)"
    "slot_content m (bs_pipeline_tx h) = x"
proof -
  note inv = mem_invD [OF assms(1)]
  have "bs_inner h \<in># image_mset bs_inner (all_handles m)"
    and "bs_pipeline_tx h \<in># image_mset bs_pipeline_tx (all_handles m)" using assms(2) by auto
  with owned_some [OF inv(1)] owned_some [OF inv(2)]
  obtain s x where "inners m (bs_inner h) = Some (count (image_mset bs_inner (all_handles m)) (bs_inner h), s)"
    and "slots m (bs_pipeline_tx h) = Some (count (image_mset bs_pipeline_tx (all_handles m)) (bs_pipeline_tx h), x)"
    by blast
  then show ?thesis by (intro that) (auto simp: slot_content_def)
qed

section \<open>Every step keeps the invariant\<close>

lemma new_handle_inv:
  assumes inv: "mem_inv m" and run: "new_handle s m = (h, m')"
  shows "mem_inv m'"
proof -
  note unused = fresh_unused [OF inv]
  have m': "handles m' = add_mset h (handles m)" "workers m' = workers m" "in_flight m' = in_flight m"
    "senders m' = senders m" "fresh m' = fresh m + 2"
    "inners m' = arc_new (bs_inner h) s (inners m)" "slots m' = arc_new (bs_pipeline_tx h) None (slots m)"
    and h: "bs_inner h = fresh m" "bs_pipeline_tx h = fresh m + 1"
    using run by (auto simp: new_handle_def Let_def)
  have all: "all_handles m' = add_mset h (all_handles m)" by (simp add: all_handles_def m')
  have content: "slot_content m' = slot_content m"
    by (rule ext) (simp add: slot_content_def m' h arc_new_def unused(3))
  have "counts_ok m'"
    unfolding counts_ok_def all m' image_mset_add_mset
    by (intro conjI owned_new mem_invD [OF inv] unused) (simp_all add: h)
  moreover have "below_fresh m'"
    using mem_invD(3) [OF inv] unfolding below_fresh_def all content m' by (fastforce simp: h)
  moreover have "senders_ok m'" using mem_invD(4) [OF inv] by (simp add: senders_ok_def content m')
  moreover have "sharing_ok m'"
  proof -
    have "bs_inner h \<noteq> bs_inner g" "bs_inner g \<noteq> bs_inner h"
      "bs_pipeline_tx h \<noteq> bs_pipeline_tx g" "bs_pipeline_tx g \<noteq> bs_pipeline_tx h" if "g \<in># all_handles m" for g
      using that mem_invD(3) [OF inv] unfolding below_fresh_def h by auto
    moreover have "slot_content m (bs_pipeline_tx h) = None"
      by (simp add: slot_content_def h unused(3))
    ultimately show ?thesis
      using mem_invD(5) [OF inv] unfolding sharing_ok_def content all_handles_def m' by auto
  qed
  ultimately show ?thesis by (simp add: mem_inv_def)
qed

lemma clone_handle_inv:
  assumes inv: "mem_inv m" and h: "h \<in># handles m" and run: "clone_handle h m = (h', m')"
  shows "mem_inv m'"
proof -
  have m': "handles m' = add_mset h (handles m)" "workers m' = workers m" "in_flight m' = in_flight m"
    "senders m' = senders m" "fresh m' = fresh m"
    "inners m' = arc_clone (bs_inner h) (inners m)" "slots m' = arc_clone (bs_pipeline_tx h) (slots m)"
    using run by (auto simp: clone_handle_def Let_def)
  have all: "all_handles m' = add_mset h (all_handles m)" by (simp add: all_handles_def m')
  have live: "h \<in># all_handles m" using h by (simp add: all_handles_def)
  have content: "slot_content m' = slot_content m"
    by (rule ext) (simp add: slot_content_def m' arc_clone_def split: option.splits)
  have "counts_ok m'"
    unfolding counts_ok_def all m' image_mset_add_mset
    by (intro conjI owned_clone mem_invD [OF inv]) (use live in simp_all)
  moreover have "below_fresh m'"
    using mem_invD(3) [OF inv] live unfolding below_fresh_def all content m' by simp
  moreover have "senders_ok m'" using mem_invD(4) [OF inv] by (simp add: senders_ok_def content m')
  moreover have "sharing_ok m'"
    using mem_invD(5) [OF inv] h unfolding sharing_ok_def content m' by simp
  ultimately show ?thesis by (simp add: mem_inv_def)
qed

lemma through_inv:
  assumes inv: "mem_inv m" and run: "through h op m = (r, m')"
  shows "mem_inv m'"
proof (cases "inners m (bs_inner h)")
  case None
  with run inv show ?thesis by (simp add: through_def)
next
  case (Some a)
  then obtain n s where a: "inners m (bs_inner h) = Some (n, s)" by (cases a) simp
  with run have m': "m' = m\<lparr>inners := (inners m)(bs_inner h \<mapsto> (n, snd (op s)))\<rparr>"
    by (auto simp: through_def split: prod.splits)
  have "all_handles m' = all_handles m" "slot_content m' = slot_content m"
    by (simp_all add: all_handles_def slot_content_def m' fun_eq_iff)
  with inv owned_update [OF mem_invD(1) [OF inv] a] show ?thesis
    by (simp add: mem_inv_def counts_ok_def below_fresh_def senders_ok_def sharing_ok_def m')
qed

text \<open>The drop of a handle, a caller's or a worker's.\<close>

lemma drop_fields_inv:
  assumes inv: "mem_inv m" and live: "h \<in># all_handles m"
    and drop: "m' = (drop_fields h m)\<lparr>handles := H, workers := W\<rparr>"
    and less: "H \<subseteq># handles m" "W \<subseteq># workers m" "H + image_mset tk_store W = all_handles m - {#h#}"
  shows "mem_inv m'"
proof -
  obtain k x where slot: "slots m (bs_pipeline_tx h) = Some (k, x)"
    and x: "slot_content m (bs_pipeline_tx h) = x" by (rule live_handle [OF inv live])
  have all: "all_handles m' = all_handles m - {#h#}" using less(3) by (simp add: all_handles_def drop)
  have m': "in_flight m' = in_flight m" "fresh m' = fresh m"
    "slots m' = arc_drop (bs_pipeline_tx h) (slots m)" "inners m' = arc_drop (bs_inner h) (inners m)"
    by (simp_all add: drop drop_fields_def)
  have content: "slot_content m' p = (if p = bs_pipeline_tx h \<and> k = 1 then None else slot_content m p)" for p
    using slot by (simp add: slot_content_def m' arc_drop_def)
  have counts: "counts_ok m'"
    unfolding counts_ok_def all m' using live
    by (simp add: image_mset_Diff) (intro conjI owned_drop mem_invD [OF inv]; simp)
  have kept: "slot_content m' (bs_pipeline_tx g) = slot_content m (bs_pipeline_tx g)"
    if "g \<in># all_handles m'" for g
  proof -
    have "bs_pipeline_tx g \<in># image_mset bs_pipeline_tx (all_handles m')" using that by simp
    with counts have "slots m' (bs_pipeline_tx g) \<noteq> None" unfolding counts_ok_def using owned_iff by blast
    then show ?thesis using slot unfolding content by (auto simp: m' arc_drop_def)
  qed
  have sub: "handles m' \<subseteq># handles m" "workers m' \<subseteq># workers m" using less by (simp_all add: drop)
  have "below_fresh m'"
    using mem_invD(3) [OF inv] mset_subset_eqD [OF sub(2)]
    unfolding below_fresh_def all content m' by (auto dest: in_diffD)
  moreover have "senders_ok m'"
  proof -
    have inj: "p = q" if "slot_content m p = Some ch" "slot_content m q = Some ch" for p q ch
      using mem_invD(4) [OF inv] that by (auto simp: senders_ok_def)
    have num: "senders m ch = of_bool (\<exists>p. slot_content m p = Some ch) + count (in_flight m) ch" for ch
      using mem_invD(4) [OF inv] by (auto simp: senders_ok_def)
    have "senders m' ch = of_bool (\<exists>p. slot_content m' p = Some ch) + count (in_flight m') ch" for ch
    proof (cases "k = 1 \<and> x = Some ch")
      case True
      then have "\<not> (\<exists>p. slot_content m' p = Some ch)" using inj x by (auto simp: content)
      moreover have "senders m' ch = senders m ch - 1"
        using True slot by (simp add: drop drop_fields_def arc_last_def)
      moreover have "\<exists>p. slot_content m p = Some ch" using True x by blast
      ultimately show ?thesis by (simp add: num m')
    next
      case False
      then have "(\<exists>p. slot_content m' p = Some ch) \<longleftrightarrow> (\<exists>p. slot_content m p = Some ch)"
        using x unfolding content by (metis (no_types, lifting) option.distinct(1))
      moreover have "senders m' ch = senders m ch"
        using False slot by (auto simp: drop drop_fields_def arc_last_def split: option.splits)
      ultimately show ?thesis by (simp add: num m')
    qed
    with inj show ?thesis unfolding senders_ok_def by (auto simp: content split: if_splits)
  qed
  moreover have "sharing_ok m'"
  proof -
    have H: "h' \<in># handles m \<and> slot_content m' (bs_pipeline_tx h') = slot_content m (bs_pipeline_tx h')"
      if "h' \<in># handles m'" for h'
      using kept that mset_subset_eqD [OF sub(1) that] by (simp add: all_handles_def)
    have W: "t \<in># workers m \<and> slot_content m' (bs_pipeline_tx (tk_store t)) = slot_content m (bs_pipeline_tx (tk_store t))"
      if "t \<in># workers m'" for t
      using kept that mset_subset_eqD [OF sub(2) that] by (simp add: all_handles_def)
    show ?thesis using mem_invD(5) [OF inv] unfolding sharing_ok_def
      by (simp only: H W cong: ball_cong) (use H W in blast)
  qed
  ultimately show ?thesis using counts by (simp add: mem_inv_def)
qed

lemma drop_handle_inv: "mem_inv m \<Longrightarrow> h \<in># handles m \<Longrightarrow> mem_inv (drop_handle h m)"
  by (rule drop_fields_inv [where h = h and H = "handles m - {#h#}" and W = "workers m"])
    (auto simp: drop_handle_def drop_fields_def all_handles_def)

lemma drop_worker_inv: "mem_inv m \<Longrightarrow> t \<in># workers m \<Longrightarrow> mem_inv (drop_worker t m)"
  by (rule drop_fields_inv [where h = "tk_store t" and H = "handles m" and W = "workers m - {#t#}"])
    (auto simp: drop_worker_def drop_fields_def all_handles_def image_mset_Diff)

lemma drop_sender_inv:
  assumes inv: "mem_inv m" and tx: "tx \<in># in_flight m"
  shows "mem_inv (drop_sender tx m)"
proof -
  have same: "all_handles (drop_sender tx m) = all_handles m" "slot_content (drop_sender tx m) = slot_content m"
    by (simp_all add: all_handles_def slot_content_def drop_sender_def fun_eq_iff)
  from tx have "0 < count (in_flight m) tx" by simp
  with inv show ?thesis
    unfolding mem_inv_def counts_ok_def below_fresh_def senders_ok_def sharing_ok_def same
    by (auto simp: drop_sender_def dest: in_diffD)
qed

lemma slot_sender_cases:
  assumes "slot_sender has_runtime h m = (r, m')" and "mem_inv m" and "h \<in># handles m"
  obtains (unchanged) "m' = m" "\<And>tx. r \<noteq> Ok tx"
    | (shared) tx where "slot_content m (bs_pipeline_tx h) = Some tx" "r = Ok tx"
        "m' = m\<lparr>senders := (senders m)(tx := senders m tx + 1), in_flight := add_mset tx (in_flight m)\<rparr>"
    | (spawned) n store where "slots m (bs_pipeline_tx h) = Some (n, None)" "r = Ok (fresh m)" "has_runtime"
        "store = \<lparr>bs_inner = bs_inner h, bs_pipeline_tx = fresh m + 1\<rparr>"
        "m' = m\<lparr>inners := arc_clone (bs_inner h) (inners m),
           slots := arc_new (fresh m + 1) None ((slots m)(bs_pipeline_tx h \<mapsto> (n, Some (fresh m)))),
           senders := (senders m)(fresh m := 2), fresh := fresh m + 2,
           workers := add_mset \<lparr>tk_store = store, tk_rx = fresh m\<rparr> (workers m),
           in_flight := add_mset (fresh m) (in_flight m)\<rparr>"
proof -
  have "h \<in># all_handles m" using assms(3) by (simp add: all_handles_def)
  from live_handle [OF assms(2) this] obtain n s k x where
    live: "inners m (bs_inner h) = Some (n, s)" "slots m (bs_pipeline_tx h) = Some (k, x)"
      "slot_content m (bs_pipeline_tx h) = x" by blast
  show ?thesis
  proof (cases x)
    case (Some tx)
    with assms(1) live show ?thesis by (intro shared) (auto simp: slot_sender_def)
  next
    case None
    with assms(1) live show ?thesis
      by (cases "has_runtime \<and> pipeline_channel_capacity s \<noteq> 0")
        (auto simp: slot_sender_def deref_handle_def Let_def split: if_splits
          intro: unchanged spawned)
  qed
qed

lemma slot_sender_inv:
  assumes run: "slot_sender has_runtime h m = (r, m')" and inv: "mem_inv m" and h: "h \<in># handles m"
  shows "mem_inv m'"
  using run inv h
proof (cases rule: slot_sender_cases)
  case unchanged
  with inv show ?thesis by simp
next
  case (shared tx)
  have same: "all_handles m' = all_handles m" "slot_content m' = slot_content m"
    by (simp_all add: all_handles_def slot_content_def shared(3) fun_eq_iff)
  from inv shared(1) have "tx < fresh m" by (auto simp: mem_inv_def below_fresh_def)
  with inv show ?thesis
    unfolding mem_inv_def counts_ok_def below_fresh_def senders_ok_def sharing_ok_def same
    by (auto simp: shared(3))
next
  case (spawned n store)
  note unused = fresh_unused [OF inv]
  let ?p = "bs_pipeline_tx h"
  have live: "h \<in># all_handles m" using h by (simp add: all_handles_def)
  have store: "bs_inner store = bs_inner h" "bs_pipeline_tx store = fresh m + 1" by (simp_all add: spawned(4))
  have all: "all_handles m' = add_mset store (all_handles m)" by (simp add: all_handles_def spawned(5))
  have below: "bs_inner g < fresh m" "bs_pipeline_tx g < fresh m" if "g \<in># all_handles m" for g
    using mem_invD(3) [OF inv] that by (auto simp: below_fresh_def)
  have empty: "slot_content m ?p = None" using spawned(1) by (simp add: slot_content_def)
  have content: "slot_content m' q = (if q = ?p then Some (fresh m) else slot_content m q)" for q
    using unused(3) below(2) [OF live] by (simp add: slot_content_def spawned(5) arc_new_def)
  have "counts_ok m'"
    unfolding counts_ok_def all image_mset_add_mset store
  proof (intro conjI)
    show "owned (inners m') (add_mset (bs_inner h) (image_mset bs_inner (all_handles m)))"
      using owned_clone [OF mem_invD(1) [OF inv], of "bs_inner h"] live by (simp add: spawned(5))
    show "owned (slots m') (add_mset (fresh m + 1) (image_mset bs_pipeline_tx (all_handles m)))"
      using owned_new [OF owned_update [OF mem_invD(2) [OF inv] spawned(1)] unused(2), of "fresh m + 1"]
      by (simp add: spawned(5))
  qed
  moreover have "below_fresh m'"
  proof -
    have "fresh m' = fresh m + 2" "in_flight m' = add_mset (fresh m) (in_flight m)"
      "workers m' = add_mset \<lparr>tk_store = store, tk_rx = fresh m\<rparr> (workers m)" by (simp_all add: spawned(5))
    then show ?thesis using mem_invD(3) [OF inv] below [OF live]
      unfolding below_fresh_def all content by (auto simp: store less_SucI)
  qed
  moreover have "senders_ok m'"
  proof -
    have num: "senders m ch = of_bool (\<exists>p. slot_content m p = Some ch) + count (in_flight m) ch" for ch
      using mem_invD(4) [OF inv] by (auto simp: senders_ok_def)
    have "senders m' ch = of_bool (\<exists>p. slot_content m' p = Some ch) + count (in_flight m') ch" for ch
    proof (cases "ch = fresh m")
      case True
      have "count (in_flight m) (fresh m) = 0" using unused(5) by (simp add: count_eq_zero_iff)
      moreover have "\<exists>p. slot_content m' p = Some ch" using True by (auto simp: content)
      ultimately show ?thesis using True by (simp add: spawned(5))
    next
      case False
      then have "(\<exists>p. slot_content m' p = Some ch) \<longleftrightarrow> (\<exists>p. slot_content m p = Some ch)"
        using empty unfolding content by (metis option.distinct(1) option.inject)
      with False show ?thesis by (simp add: num spawned(5))
    qed
    moreover have "p = q" if "slot_content m' p = Some ch" "slot_content m' q = Some ch" for p q ch
      using that mem_invD(4) [OF inv] unused(4) unfolding senders_ok_def content
      by (auto split: if_splits)
    ultimately show ?thesis by (auto simp: senders_ok_def)
  qed
  moreover have "sharing_ok m'"
  proof -
    have share: "bs_inner g = bs_inner g' \<longleftrightarrow> bs_pipeline_tx g = bs_pipeline_tx g'"
      if "g \<in># handles m" "g' \<in># handles m" for g g'
      using mem_invD(5) [OF inv] that by (auto simp: sharing_ok_def)
    have m': "handles m' = handles m" "workers m' = add_mset \<lparr>tk_store = store, tk_rx = fresh m\<rparr> (workers m)"
      by (simp_all add: spawned(5))
    have old: "tk_rx t < fresh m" "slot_content m (bs_pipeline_tx (tk_store t)) = None"
      "g \<in># handles m \<Longrightarrow> bs_pipeline_tx g \<noteq> bs_pipeline_tx (tk_store t)"
      "g \<in># handles m \<Longrightarrow> slot_content m (bs_pipeline_tx g) = Some (tk_rx t) \<longleftrightarrow> bs_inner g = bs_inner (tk_store t)"
      if "t \<in># workers m" for t g
      using mem_invD(3,5) [OF inv] that by (auto simp: sharing_ok_def below_fresh_def)
    have "slot_content m' (bs_pipeline_tx (tk_store t)) = None \<and>
        (\<forall>g \<in># handles m. bs_pipeline_tx g \<noteq> bs_pipeline_tx (tk_store t) \<and>
          (slot_content m' (bs_pipeline_tx g) = Some (tk_rx t) \<longleftrightarrow> bs_inner g = bs_inner (tk_store t)))"
      if "t \<in># workers m'" for t
    proof (cases "t \<in># workers m")
      case True
      have "bs_inner g \<noteq> bs_inner (tk_store t)" if "g \<in># handles m" "bs_pipeline_tx g = ?p" for g
        using old(4) [OF True that(1)] that(2) empty by simp
      then show ?thesis using old [OF True] old(3) [OF True h] unfolding content by auto
    next
      case False
      with that have t: "t = \<lparr>tk_store = store, tk_rx = fresh m\<rparr>" by (simp add: m')
      have "slot_content m (fresh m + 1) = None" using unused(3) by (simp add: slot_content_def)
      moreover have other: "bs_pipeline_tx g \<noteq> fresh m + 1" if "g \<in># handles m" for g
        using below(2) [of g] that by (simp add: all_handles_def)
      moreover have "Suc (fresh m) \<noteq> ?p" using other [OF h] by simp
      ultimately show ?thesis using share h unused(4) unfolding content by (auto simp: t store)
    qed
    with share show ?thesis unfolding sharing_ok_def by (simp add: m')
  qed
  ultimately show ?thesis by (simp add: mem_inv_def)
qed

lemma handle_step_inv: "handle_step m m' \<Longrightarrow> mem_inv m \<Longrightarrow> mem_inv m'"
  by (induction rule: handle_step.induct)
    (auto intro: new_handle_inv clone_handle_inv through_inv drop_handle_inv slot_sender_inv
      drop_sender_inv drop_worker_inv)

lemma handles_reachable_inv: "handles_reachable m \<Longrightarrow> mem_inv m"
  unfolding handles_reachable_def
  by (induction rule: rtranclp_induct) (auto intro: mem_inv_initial handle_step_inv)

section \<open>What the invariant gives\<close>

lemma inner_live_iff:
  "mem_inv m \<Longrightarrow> inners m p \<noteq> None \<longleftrightarrow> (\<exists>h \<in># all_handles m. bs_inner h = p)"
  using owned_iff [OF mem_invD(1), of m p] by auto

lemma channel_closed_iff:
  assumes inv: "mem_inv m" and t: "t \<in># workers m"
  shows "senders m (tk_rx t) = 0 \<longleftrightarrow>
    (\<forall>h \<in># handles m. bs_inner h \<noteq> bs_inner (tk_store t)) \<and> tk_rx t \<notin># in_flight m"
proof -
  have rx: "slot_content m (bs_pipeline_tx h) = Some (tk_rx t) \<longleftrightarrow> bs_inner h = bs_inner (tk_store t)"
    if "h \<in># handles m" for h
    using mem_invD(5) [OF inv] t that by (auto simp: sharing_ok_def)
  have holder: "\<exists>h \<in># handles m. bs_pipeline_tx h = p" if p: "slot_content m p = Some ch" for p ch
  proof -
    have "slots m p \<noteq> None" using p by (auto simp: slot_content_def split: option.splits)
    then obtain h where h: "h \<in># all_handles m" "bs_pipeline_tx h = p"
      using owned_iff [OF mem_invD(2) [OF inv], of p] by auto
    have "slot_content m (bs_pipeline_tx (tk_store t)) = None" if "t \<in># workers m" for t
      using mem_invD(5) [OF inv] that by (auto simp: sharing_ok_def)
    with h p show ?thesis by (auto simp: all_handles_def)
  qed
  have "(\<exists>p. slot_content m p = Some (tk_rx t)) \<longleftrightarrow> (\<exists>h \<in># handles m. bs_inner h = bs_inner (tk_store t))"
    using rx holder by metis
  moreover have "senders m (tk_rx t) =
      of_bool (\<exists>p. slot_content m p = Some (tk_rx t)) + count (in_flight m) (tk_rx t)"
    using mem_invD(4) [OF inv] by (auto simp: senders_ok_def)
  ultimately show ?thesis by (auto simp: count_eq_zero_iff)
qed

text \<open>A closed channel is never opened again.\<close>

lemma closed_stays:
  assumes step: "handle_step m m'" and inv: "mem_inv m" and closed: "ch < fresh m" "senders m ch = 0"
  shows "senders m' ch = 0"
  using step
proof cases
  case (opened s h)
  then show ?thesis using closed by (auto simp: new_handle_def Let_def)
next
  case (cloned h h')
  then show ?thesis using closed by (auto simp: clone_handle_def Let_def)
next
  case (used h op r)
  then show ?thesis using closed by (auto simp: through_def split: option.splits prod.splits)
next
  case (dropped h)
  then show ?thesis using closed
    by (auto simp: drop_handle_def drop_fields_def split: option.splits)
next
  case (sender h has_runtime r)
  have "slot_content m (bs_pipeline_tx h) \<noteq> Some ch"
    using mem_invD(4) [OF inv] closed(2) by (auto simp: senders_ok_def)
  with sender(2) inv sender(1) closed show ?thesis by (cases rule: slot_sender_cases) auto
next
  case (sent tx)
  then show ?thesis using closed by (auto simp: drop_sender_def)
next
  case (ended t)
  then show ?thesis using closed
    by (auto simp: drop_worker_def drop_fields_def split: option.splits)
qed

text \<open>
  The tasks of \<open>spawn_blocking\<close> take a clone of the handle with them, use it and drop it: the same
  as a use of the handle itself.
\<close>

definition spawned ::
  "BlockStore \<Rightarrow> ('d, 'b, 'h, 'g, 'a) store_op \<Rightarrow> ('d, 'b, 'h, 'g) memory \<Rightarrow>
    (BlockStoreError, 'a) outcome option \<times> ('d, 'b, 'h, 'g) memory" where
  "spawned h op m = (case clone_handle h m of (store, m1) \<Rightarrow> case through store op m1 of (r, m2) \<Rightarrow>
     (r, drop_handle store m2))"

lemma spawned_is_used:
  assumes inv: "mem_inv m" and h: "h \<in># handles m"
  shows "spawned h op m = through h op m"
proof -
  have live: "h \<in># all_handles m" using h by (simp add: all_handles_def)
  have mem: "bs_inner h \<in># image_mset bs_inner (all_handles m)"
    "bs_pipeline_tx h \<in># image_mset bs_pipeline_tx (all_handles m)" using live by auto
  obtain n k s x where "inners m (bs_inner h) = Some (Suc n, s)" "slots m (bs_pipeline_tx h) = Some (Suc k, x)"
    using owned_some [OF mem_invD(1) [OF inv] mem(1)] owned_some [OF mem_invD(2) [OF inv] mem(2)] mem
    by (metis count_greater_zero_iff gr0_implies_Suc)
  then show ?thesis
    by (simp add: spawned_def clone_handle_def through_def drop_handle_def drop_fields_def Let_def
        arc_clone_def arc_drop_def arc_last_def fun_upd_idem split: prod.splits)
qed

end
