(* ===== verification/Handle_Properties.thy ===== *)
theory Handle_Properties
  imports Reference Handles
begin

text \<open>
  The lifetime of a store behind its handles: when it is freed, and when the write pipeline is shut
  down. The witness opens, clones, sends and drops on the reference store.
\<close>

text \<open>
  C19: A store is kept exactly as long as it has an owner, and the worker task of the write pipeline
  does not keep its own channel open: in every state that opening, cloning, using, sending through and
  dropping handles leads to, the inner store of a handle or worker is allocated and every other one is
  freed; the channel of a worker has no sender left, so that the worker flushes its tail and returns,
  exactly when the last handle of its store is dropped and no send is in progress; and a channel that
  is closed stays closed.
\<close>

theorem handles_keep_store_alive:
  assumes "handles_reachable m"
  shows "(\<forall>p. inners m p \<noteq> None \<longleftrightarrow> (\<exists>h \<in># all_handles m. bs_inner h = p)) \<and>
    (\<forall>t \<in># workers m. senders m (tk_rx t) = 0 \<longleftrightarrow>
       (\<forall>h \<in># handles m. bs_inner h \<noteq> bs_inner (tk_store t)) \<and> tk_rx t \<notin># in_flight m) \<and>
    (\<forall>ch m'. ch < fresh m \<longrightarrow> senders m ch = 0 \<longrightarrow> handle_step m m' \<longrightarrow> senders m' ch = 0)"
proof -
  note inv = handles_reachable_inv [OF assms]
  show ?thesis
    using inner_live_iff [OF inv] channel_closed_iff [OF inv] closed_stays [OF _ inv] by simp
qed

text \<open>A store opened, a clone sending the first job, both handles dropped: the worker is left.\<close>

definition ref_handle :: BlockStore where
  "ref_handle = \<lparr>bs_inner = 0, bs_pipeline_tx = 1\<rparr>"

definition ref_task :: worker_task where
  "ref_task = \<lparr>tk_store = \<lparr>bs_inner = 0, bs_pipeline_tx = 3\<rparr>, tk_rx = 2\<rparr>"

definition ref_shared :: "(ref_db, L2Block ref_lru, L2BlockHeader ref_lru, u64 ref_lru) memory" where
  "ref_shared = snd (slot_sender True ref_handle (snd (clone_handle ref_handle (snd (new_handle ref_empty no_memory)))))"

definition ref_dropped_all :: "(ref_db, L2Block ref_lru, L2BlockHeader ref_lru, u64 ref_lru) memory" where
  "ref_dropped_all = drop_sender 2 (drop_handle ref_handle (drop_handle ref_handle ref_shared))"

lemmas ref_memory_defs = ref_shared_def ref_dropped_all_def ref_handle_def ref_task_def no_memory_def
  new_handle_def clone_handle_def slot_sender_def deref_handle_def drop_handle_def drop_fields_def
  drop_sender_def arc_new_def arc_clone_def arc_drop_def arc_last_def Let_def

lemma ref_shared_run:
  "handles ref_shared = {#ref_handle, ref_handle#}" "workers ref_shared = {#ref_task#}"
  "in_flight ref_shared = {#2#}"
  by (simp_all add: ref_memory_defs ref_empty_def)

lemma reachable_step: "handles_reachable m \<Longrightarrow> handle_step m m' \<Longrightarrow> handles_reachable m'"
  unfolding handles_reachable_def by (rule rtranclp.rtrancl_into_rtrancl)

lemma ref_shared_reachable: "handles_reachable ref_shared"
proof -
  let ?m1 = "snd (new_handle ref_empty no_memory)"
  let ?m2 = "snd (clone_handle ref_handle ?m1)"
  have "handles_reachable no_memory" by (simp add: handles_reachable_def)
  moreover have "handle_step no_memory ?m1" by (rule handle_step.opened [OF prod.collapse [symmetric]])
  ultimately have "handles_reachable ?m1" by (rule reachable_step)
  moreover have "handle_step ?m1 ?m2"
    by (rule handle_step.cloned [OF _ prod.collapse [symmetric]]) (simp add: ref_memory_defs)
  ultimately have "handles_reachable ?m2" by (rule reachable_step)
  moreover have "handle_step ?m2 ref_shared"
    unfolding ref_shared_def
    by (rule handle_step.sender [where h = ref_handle, OF _ prod.collapse [symmetric]]) (simp add: ref_memory_defs)
  ultimately show ?thesis by (rule reachable_step)
qed

lemma ref_dropped_reachable: "handles_reachable ref_dropped_all"
proof -
  let ?m1 = "drop_handle ref_handle ref_shared"
  let ?m2 = "drop_handle ref_handle ?m1"
  have "handle_step ref_shared ?m1"
    by (rule handle_step.dropped) (simp add: ref_shared_run)
  with ref_shared_reachable have "handles_reachable ?m1" by (rule reachable_step)
  moreover have "handle_step ?m1 ?m2"
    by (rule handle_step.dropped) (simp add: drop_handle_def ref_shared_run)
  ultimately have "handles_reachable ?m2" by (rule reachable_step)
  moreover have "handle_step ?m2 ref_dropped_all"
    unfolding ref_dropped_all_def
    by (rule handle_step.sent) (simp add: drop_handle_def drop_fields_def ref_shared_run)
  ultimately show ?thesis by (rule reachable_step)
qed

lemma ref_dropped_run:
  "handles ref_dropped_all = {#}" "workers ref_dropped_all = {#ref_task#}" "in_flight ref_dropped_all = {#}"
  by (simp_all add: ref_dropped_all_def drop_sender_def drop_handle_def drop_fields_def ref_shared_run)

theorem handles_keep_store_alive_witness:
  "handles ref_dropped_all = {#} \<and> senders ref_dropped_all (tk_rx ref_task) = 0 \<and>
   inners ref_dropped_all (bs_inner (tk_store ref_task)) \<noteq> None"
  using handles_keep_store_alive [OF ref_dropped_reachable]
  by (simp add: ref_dropped_run all_handles_def)

end
