(* ===== verification/Snapshot_Properties.thy ===== *)
theory Snapshot_Properties
  imports Reference Snapshot
begin

text \<open>
  Properties of snapshots: what an export writes imports again, and what an import that succeeds has
  checked. The witnesses run on the reference store.
\<close>

abbreviation ref_two_blocks :: "L2Block list" where
  "ref_two_blocks \<equiv> [ref_block 5 0 0, ref_block 6 1 5]"

lemma ref_export_run:
  "\<exists>m s' w. export_snapshot ref_deps 0 1 (ref_two, \<lparr>wr_written = [], wr_room = 10000, wr_error = ''full''\<rparr>) = (Ok m, (s', w))"
  by (simp add: export_snapshot_def export_block_def on_stream_def on_store_def write_all_def get_header_by_height_def
      get_header_def SNAPSHOT_VERSION_def plain_add_def range_incl_def ref_manifest_bytes_def
      ref_eval ref_states ref_folds block_rows_def ref_maintain)

lemma ref_import_puts: "\<exists>t'. put_blocks ref_deps ref_two_blocks ref_empty = (Ok (), t')"
  by (simp add: put_blocks_def put_block_def forM_def block_rows_def ref_eval ref_states ref_folds)

lemma ref_two_chain: "snapshot_chain ref_deps ref_content ref_two 0 1 ref_two_blocks"
  by (simp add: snapshot_chain_def range_incl_def upt_rec canonical_at_def block_frame_def frame_of_def
      hash_key_def ref_states ref_folds block_rows_def)



text \<open>
  C23: A successful import has checked what it reads: the stream is a manifest of the supported
  version, one frame for each height of its range and the checksum of all of it; each frame decodes
  to a block of its height whose parent is the block before it; the blocks are stored, blocks that
  were stored before still are, and the invariant holds.
\<close>

theorem import_checks_everything:
  assumes "deps_laws D content" and "store_inv D content s" and "import_snapshot D (s, r) = (Ok m, (s', r'))"
  shows "store_inv D content s' \<and> sm_version m = SNAPSHOT_VERSION \<and> (\<exists>mb body frames blocks.
    dp_de_manifest D (rd_bytes r) = Inr (m, body) \<and> dp_ser_manifest D m = Inr mb \<and>
    body = concat (map frame_bytes frames) @
      bytes32_octets (dp_sha256 D (mb @ concat (map frame_bytes frames))) @ rd_bytes r' \<and>
    map (dp_block_height D) blocks = range_incl (sm_start_height m) (sm_end_height m) \<and>
    linked D None blocks \<and> decoded D frames blocks s \<and>
    (\<forall>b \<in> set blocks. content (db s') CF_BLOCKS (hash_key (dp_block_hash D b)) \<noteq> None) \<and>
    (\<forall>h. content (db s) CF_BLOCKS (hash_key h) \<noteq> None \<longrightarrow>
       content (db s') CF_BLOCKS (hash_key h) = content (db s) CF_BLOCKS (hash_key h)))"
proof -
  from import_snapshot_Ok [OF assms(3)] obtain mb body frames blocks trailer where
    i: "dp_de_manifest D (rd_bytes r) = Inr (m, body)" "dp_ser_manifest D m = Inr mb"
      "body = concat (map frame_bytes frames) @ trailer @ rd_bytes r'" "length trailer = 32"
      "bytes32_new trailer = dp_sha256 D (mb @ concat (map frame_bytes frames))" "sm_version m = SNAPSHOT_VERSION"
      "map (dp_block_height D) blocks = range_incl (sm_start_height m) (sm_end_height m)"
      "linked D None blocks" "decoded D frames blocks s" and puts: "put_blocks D blocks s = (Ok (), s')" by blast
  have "trailer = bytes32_octets (dp_sha256 D (mb @ concat (map frame_bytes frames)))"
    using bytes32_octets_new [of trailer] i(4,5) by simp
  with i deps_laws.put_blocks_Ok [OF assms(1,2) puts] show ?thesis by blast
qed

theorem import_checks_everything_witness:
  "\<exists>r m s' r'. import_snapshot ref_deps (ref_empty, r) = (Ok m, (s', r')) \<and> store_inv ref_deps ref_content s' \<and>
     sm_version m = SNAPSHOT_VERSION \<and> sm_end_height m = 1"
proof -
  obtain m s' w where exp: "export_snapshot ref_deps 0 1
      (ref_two, \<lparr>wr_written = [], wr_room = 10000, wr_error = ''full''\<rparr>) = (Ok m, (s', w))"
    using ref_export_run by blast
  obtain t' where puts: "put_blocks ref_deps ref_two_blocks ref_empty = (Ok (), t')" using ref_import_puts by blast
  have "\<not> use_compression_dict ref_empty" by (simp add: ref_empty_def)
  note run = deps_laws.import_of_export [OF ref.deps_laws_axioms ref_two_inv ref_two_chain exp this puts,
      where rest = "[]" and re = "''eof''"]
  from import_checks_everything [OF ref.deps_laws_axioms ref_empty_inv run]
  have "store_inv ref_deps ref_content t'" "sm_version (m\<lparr>sm_checksum := 0\<rparr>) = SNAPSHOT_VERSION" by blast+
  moreover have "sm_end_height (m\<lparr>sm_checksum := 0\<rparr>) = 1"
    using deps_laws.export_snapshot_Ok [OF ref.deps_laws_axioms ref_two_inv exp] by auto
  ultimately show ?thesis using run by blast
qed

end
