(* ===== verification/Write_Totality.thy ===== *)
theory Write_Totality
  imports Totality Reorg
begin

text \<open>
  Writes that return. When the calls of the database and of the operating system succeed, the store
  is writable, blocks can be encoded and the heights leave room in \<open>canonical.bin\<close>, the operations
  that move the chain end with \<open>Ok\<close>.

  \<open>runs P m R\<close> is a total correctness triple with one assertion \<open>P\<close> for all states in between.
\<close>

section \<open>Runs with a result\<close>

definition runs :: "('s \<Rightarrow> bool) \<Rightarrow> ('s, 'e, 'a) operation \<Rightarrow> ('a \<Rightarrow> bool) \<Rightarrow> bool" where
  "runs P m R \<longleftrightarrow> (\<forall>s. P s \<longrightarrow> (\<exists>x s'. m s = (Ok x, s') \<and> P s' \<and> R x))"

lemma runsD: "runs P m R \<Longrightarrow> P s \<Longrightarrow> \<exists>x s'. m s = (Ok x, s') \<and> P s' \<and> R x"
  by (simp add: runs_def)

lemma runs_bind:
  assumes "runs P m R" and "\<And>x. R x \<Longrightarrow> runs P (f x) Q"
  shows "runs P (tryM m f) Q"
  unfolding runs_def
proof (intro allI impI)
  fix s assume "P s"
  with runsD [OF assms(1)] obtain x s' where m: "m s = (Ok x, s')" and x: "P s'" "R x" by blast
  with runsD [OF assms(2)] obtain y s'' where "f x s' = (Ok y, s'')" "P s''" "Q y" by blast
  with m show "\<exists>y s''. tryM m f s = (Ok y, s'') \<and> P s'' \<and> Q y" by (simp add: tryM_run(1))
qed

lemma runs_basic:
  "Q x \<Longrightarrow> runs P (returnM x) Q"
  "(\<And>s. P s \<Longrightarrow> Q' (g s)) \<Longrightarrow> runs P (getM g) Q'"
  "(\<And>s. P s \<Longrightarrow> P (h s)) \<Longrightarrow> runs P (modifyM h) (\<lambda>_. True)"
  "r = Ok y \<Longrightarrow> Q'' y \<Longrightarrow> runs P (liftM r) Q''"
  by (simp_all add: runs_def)

lemma runs_if:
  "(b \<Longrightarrow> runs P m Q) \<Longrightarrow> (\<not> b \<Longrightarrow> runs P m' Q) \<Longrightarrow> runs P (if b then m else m') Q"
  by simp

lemma runs_option:
  "(x = None \<Longrightarrow> runs P m Q) \<Longrightarrow> (\<And>a. x = Some a \<Longrightarrow> runs P (f a) Q) \<Longrightarrow>
    runs P (case x of None \<Rightarrow> m | Some a \<Rightarrow> f a) Q"
  by (cases x) auto

lemma runs_foldM:
  assumes "\<And>acc x. x \<in> set xs \<Longrightarrow> runs P (f acc x) (\<lambda>_. True)"
  shows "runs P (foldM f acc xs) (\<lambda>_. True)"
  using assms
proof (induction xs arbitrary: acc)
  case Nil
  show ?case unfolding foldM.simps by (rule runs_basic(1)) simp
next
  case (Cons x xs)
  show ?case unfolding foldM.simps
    by (rule runs_bind [where R = "\<lambda>_. True"]) (use Cons in auto)
qed

lemma runs_weaken: "runs P m R \<Longrightarrow> (\<And>x. R x \<Longrightarrow> Q x) \<Longrightarrow> runs P m Q"
  unfolding runs_def by blast

lemma runs_yields: "yields P m R \<Longrightarrow> succeeds P m \<Longrightarrow> runs P m R"
  unfolding runs_def by (blast dest: succeedsD yields_OkD)

section \<open>What must work\<close>

text \<open>A block that every codec call accepts.\<close>

definition encodable :: "('d, 'b, 'h, 'g) deps \<Rightarrow> L2Block \<Rightarrow> bool" where
  "encodable D b \<longleftrightarrow> (\<exists>raw hb. dp_ser_block D b = Inr raw \<and> dp_ser_header D (blk_header b) = Inr hb \<and>
     (\<forall>lvl. \<exists>c. dp_encode_all D raw lvl = Inr c) \<and>
     (\<forall>lvl dict. dp_compressor D lvl dict = Inr () \<and> (\<exists>c. dp_compress D lvl dict raw = Inr c)))"

text \<open>
  A writable store whose sidecar is mapped, whose canonical entries are hashes and which has no
  dictionary left to train.
\<close>

definition working :: "('d \<Rightarrow> db_content) \<Rightarrow> ('d, 'b, 'h, 'g) store \<Rightarrow> bool" where
  "working content s \<longleftrightarrow> \<not> read_only s \<and> bin_mapped (canonical_bin s) \<and>
     (\<forall>k v. content (db s) CF_CANONICAL k = Some v \<longrightarrow> length v = 32) \<and>
     (use_compression_dict s \<longrightarrow> zstd_dict s \<noteq> None)"

text \<open>In a store that satisfies the invariant canonical entries are hashes.\<close>

lemma working_of_inv:
  assumes "store_inv D content s" and "\<not> read_only s" and "bin_mapped (canonical_bin s)"
    and "use_compression_dict s \<longrightarrow> zstd_dict s \<noteq> None"
  shows "working content s"
  using assms unfolding working_def store_inv_def index_ok_def by blast

definition hashes_only :: "write_batch \<Rightarrow> bool" where
  "hashes_only ops \<longleftrightarrow> (\<forall>k v. PutCf CF_CANONICAL k v \<in> set ops \<longrightarrow> length v = 32)"

text \<open>The heights for which \<open>canonical.bin\<close> has an offset and a length.\<close>

definition has_slot :: "u64 \<Rightarrow> bool" where
  "has_slot n \<longleftrightarrow> unat n < 2 ^ 59 - 1"

lemma checked_len_slot:
  assumes "has_slot n"
  obtains len where "checked_len n = Some len"
proof -
  have a: "unat n + unat (1 :: u64) < 2 ^ 64" using assms by (simp add: has_slot_def)
  have "unat (n + 1) * unat (32 :: u64) < 2 ^ 64"
    using assms by (simp add: unat_add_below [OF a] has_slot_def)
  with a that show ?thesis by (auto simp: checked_len_def checked_add_def checked_mul_def)
qed

section \<open>The sidecar\<close>

lemma write_hash_returns:
  assumes "io_err io = (\<lambda>_. None)" and "df_mapped f" and "has_slot n"
  shows "\<exists>f'. write_hash io n h f = (Ok (), f') \<and> df_mapped f'"
proof -
  obtain len where "checked_len n = Some len" using checked_len_slot [OF assms(3)] .
  with assms(1,2) show ?thesis
    by (simp add: write_hash_def tryM_def mmap_active_def resize_remap_def io_try_def)
qed

lemma truncate_returns:
  assumes "io_err io = (\<lambda>_. None)" and "has_slot n"
  shows "\<exists>f'. Canonical_Bin.truncate io n f = (Ok (), f') \<and> df_mapped f'"
proof -
  obtain len where "checked_len n = Some len" using checked_len_slot [OF assms(2)] .
  with assms(1) show ?thesis
    by (simp add: Canonical_Bin.truncate_def tryM_def resize_remap_def io_try_def)
qed

lemma with_bin_runs:
  fixes content :: "'d \<Rightarrow> db_content"
  assumes "\<And>bin. bin_mapped bin \<Longrightarrow> \<exists>bin'. m bin = (Ok (), bin') \<and> bin_mapped bin'"
  shows "runs (working content) (with_bin m :: ('d, 'b, 'h, 'g, unit) store_op) (\<lambda>_. True)"
  unfolding runs_def
proof (intro allI impI)
  fix s :: "('d, 'b, 'h, 'g) store" assume s: "working content s"
  then have "bin_mapped (canonical_bin s)" by (simp add: working_def)
  from assms [OF this] obtain bin' where "m (canonical_bin s) = (Ok (), bin')" "bin_mapped bin'" by blast
  with s show "\<exists>x s'. with_bin m s = (Ok x, s') \<and> working content s' \<and> True"
    by (simp add: with_bin_def working_def)
qed

lemma bin_writes_run:
  assumes "io_err io = (\<lambda>_. None)" and "has_slot n"
  shows "runs (working content) (with_bin (extend_write io n h)) (\<lambda>_. True)"
    and "runs (working content) (with_bin (truncate_to_height io n)) (\<lambda>_. True)"
proof -
  show "runs (working content) (with_bin (extend_write io n h)) (\<lambda>_. True)"
  proof (rule with_bin_runs)
    fix bin assume bin: "bin_mapped bin"
    show "\<exists>bin'. extend_write io n h bin = (Ok (), bin') \<and> bin_mapped bin'"
    proof (cases bin)
      case (Rw f)
      with bin have "df_mapped f" by (simp add: bin_mapped_def)
      from write_hash_returns [OF assms(1) this assms(2), of h] Rw show ?thesis
        by (force simp: extend_write_def in_rw_def bin_mapped_def)
    qed (simp_all add: extend_write_def in_rw_def bin_mapped_def)
  qed
  show "runs (working content) (with_bin (truncate_to_height io n)) (\<lambda>_. True)"
  proof (rule with_bin_runs)
    fix bin assume bin: "bin_mapped bin"
    show "\<exists>bin'. truncate_to_height io n bin = (Ok (), bin') \<and> bin_mapped bin'"
    proof (cases bin)
      case (Rw f)
      from truncate_returns [OF assms, of f] Rw show ?thesis
        by (force simp: truncate_to_height_def in_rw_def bin_mapped_def)
    qed (simp_all add: truncate_to_height_def in_rw_def bin_mapped_def)
  qed
qed

section \<open>Steps\<close>

context live_deps
begin

lemma apply_batch_hashes:
  assumes "hashes_only ops" and "\<And>k v. m CF_CANONICAL k = Some v \<Longrightarrow> length v = 32"
    and "apply_batch ops m CF_CANONICAL k = Some v"
  shows "length v = 32"
  using assms
proof (induction ops arbitrary: m)
  case (Cons op ops)
  have "length v = 32" if "apply_op op m CF_CANONICAL k = Some v" for k v
    using that Cons.prems(1,2) by (cases op) (auto simp: hashes_only_def split: if_splits)
  from Cons.IH [OF _ this] Cons.prems(1,3) show ?case by (simp add: hashes_only_def)
qed simp

lemma step_runs:
  "runs (working content) require_writable (\<lambda>_. True)"
  "cf \<in> set ALL_COLUMN_FAMILIES \<Longrightarrow> runs (working content) (cf_handle D cf) (\<lambda>_. True)"
  "runs (working content) (db_get D cf k) (\<lambda>_. True)"
  "runs (working content) (insert_canonical_height_cache n h) (\<lambda>_. True)"
  "runs (working content) (record_cache_insert h rc) (\<lambda>_. True)"
  "runs (working content) (block_cache_insert D h b) (\<lambda>_. True)"
  "runs (working content) (header_cache_insert D h hdr) (\<lambda>_. True)"
  "runs (working content) (hash_to_height_insert D h n) (\<lambda>_. True)"
  "runs (working content) (flag_records ic hashes) (\<lambda>_. True)"
  "runs (working content) (mark_canonical h rc) (\<lambda>_. True)"
  "runs (working content) (maybe_train_dictionary D) (\<lambda>_. True)"
  "runs (working content) min_retained_height (\<lambda>_. True)"
  by (auto simp: runs_def working_def require_writable_def live_steps insert_canonical_height_cache_def record_cache_insert_def
      block_cache_insert_def header_cache_insert_def hash_to_height_insert_def flag_records_def mark_canonical_def
      maybe_train_dictionary_def min_retained_height_def tryM_def split_beta)

lemma write_runs:
  "hashes_only ops \<Longrightarrow> runs (working content) (db_write D ops) (\<lambda>_. True)"
  "cf \<noteq> CF_CANONICAL \<or> length v = 32 \<Longrightarrow> runs (working content) (db_put D cf k v) (\<lambda>_. True)"
proof -
  assume ops: "hashes_only ops"
  show "runs (working content) (db_write D ops) (\<lambda>_. True)"
    unfolding runs_def
  proof (intro allI impI)
  fix s :: "('d, 'b, 'h, 'g) store" assume s: "working content s"
  obtain d where "db_write D ops s = (Ok (), s\<lparr>db := d\<rparr>)" and d: "content d = apply_batch ops (content (db s))"
    using live_write .
  moreover have "working content (s\<lparr>db := d\<rparr>)"
    using s apply_batch_hashes [OF ops, of "content (db s)"] by (auto simp: working_def d)
  ultimately show "\<exists>x s'. db_write D ops s = (Ok x, s') \<and> working content s' \<and> True" by blast
  qed
next
  assume v: "cf \<noteq> CF_CANONICAL \<or> length v = 32"
  show "runs (working content) (db_put D cf k v) (\<lambda>_. True)"
    unfolding runs_def
  proof (intro allI impI)
    fix s :: "('d, 'b, 'h, 'g) store" assume s: "working content s"
    obtain d where "db_put D cf k v s = (Ok (), s\<lparr>db := d\<rparr>)"
      and d: "content d = (content (db s))(cf := (content (db s) cf)(k \<mapsto> v))"
      using live_put .
    moreover have "working content (s\<lparr>db := d\<rparr>)" using s v by (auto simp: working_def d split: if_splits)
    ultimately show "\<exists>x s'. db_put D cf k v s = (Ok x, s') \<and> working content s' \<and> True" by blast
  qed
qed

lemma serialize_runs:
  assumes "encodable D b"
  shows "runs (working content) (serialize_block D b) (\<lambda>_. True)"
    and "runs (working content) (liftM (serialize_header D (blk_header b))) (\<lambda>_. True)"
proof -
  obtain raw hb where ser: "dp_ser_block D b = Inr raw" "dp_ser_header D (blk_header b) = Inr hb"
    and ok: "\<And>lvl. \<exists>c. dp_encode_all D raw lvl = Inr c" "\<And>lvl dict. dp_compressor D lvl dict = Inr ()"
      "\<And>lvl dict. \<exists>c. dp_compress D lvl dict raw = Inr c"
    using assms by (auto simp: encodable_def)
  have "\<exists>c. serialize_block D b s = (Ok c, s)" for s
  proof -
    obtain c where "dp_encode_all D raw (compression_level s) = Inr c" using ok(1) by blast
    moreover obtain c' where "dp_compress D (compression_level s) (the (zstd_dict s)) raw = Inr c'" using ok(3) by blast
    ultimately show ?thesis
      by (cases "zstd_dict s"; cases "use_compression_dict s")
        (simp_all add: serialize_block_def ser ok(2) tryM_run Let_def)
  qed
  then show "runs (working content) (serialize_block D b) (\<lambda>_. True)" unfolding runs_def by blast
  show "runs (working content) (liftM (serialize_header D (blk_header b))) (\<lambda>_. True)"
    by (simp add: runs_def serialize_header_def ser)
qed

lemma lookup_runs:
  assumes "has_slot n"
  shows "runs (working content) (get_hash_by_height D n) (\<lambda>_. True)"
  unfolding runs_def
proof (intro allI impI)
  fix s :: "('d, 'b, 'h, 'g) store" assume s: "working content s"
  then have "bin_mapped (canonical_bin s)" by (simp add: working_def)
  moreover have "unat n \<noteq> 2 ^ 59 - 1" using assms by (simp add: has_slot_def)
  ultimately obtain slot where "read_hash_bytes (dp_oc D) (canonical_bin s) n = Ok slot"
    using read_hash_bytes_returns [of "canonical_bin s" n] by blast
  with s show "\<exists>x s'. get_hash_by_height D n s = (Ok x, s') \<and> working content s' \<and> True"
    by (auto simp: get_hash_by_height_def insert_canonical_height_cache_def tryM_def live_steps working_def split: option.splits)
qed

lemma collect_runs:
  assumes "\<And>n. n \<in> set ns \<Longrightarrow> has_slot n"
  shows "runs (working content) (collect_heights (get_hash_by_height D) ns) (\<lambda>_. True)"
  unfolding collect_heights_def
  by (intro runs_foldM runs_bind [OF lookup_runs] runs_basic(1) TrueI) (rule assms)

section \<open>Operations\<close>

lemma set_tip_runs: "runs (working content) (set_tip D t) (\<lambda>_. True)"
  unfolding set_tip_def
  by (intro runs_bind [OF step_runs(1)] runs_bind [OF step_runs(2)] runs_bind [OF write_runs(2)] runs_basic)
    (auto simp: ALL_COLUMN_FAMILIES_def working_def)

lemma block_rows_hashes:
  "hashes_only (block_rows D b c c' @ (if canonical then [PutCf CF_CANONICAL k (hash_key h)] else []))"
  by (auto simp: hashes_only_def block_rows_def)

lemma put_block_runs:
  assumes "encodable D b" and "io_err (dp_io D) = (\<lambda>_. None)" and "canonical \<Longrightarrow> has_slot (dp_block_height D b)"
  shows "runs (working content) (put_block D b canonical) (\<lambda>_. True)"
proof -
  have bin: "runs (working content) (if canonical
      then tryM (with_bin (extend_write (dp_io D) (dp_block_height D b) (dp_block_hash D b)))
        (\<lambda>_. insert_canonical_height_cache (dp_block_height D b) (dp_block_hash D b))
      else returnM ()) (\<lambda>_. True)"
    by (intro runs_if runs_bind [OF bin_writes_run(1) [OF assms(2)]] step_runs(4) runs_basic(1) assms(3) TrueI)
  show ?thesis unfolding put_block_def Let_def
    by (intro runs_bind [OF step_runs(1)] runs_bind [OF step_runs(2)] runs_bind [OF step_runs(3)] runs_if
        runs_basic(1) runs_bind [OF serialize_runs(1) [OF assms(1)]] runs_bind [OF serialize_runs(2) [OF assms(1)]]
        runs_bind [where m = "if c then cf_handle D cf else returnM ()" and R = "\<lambda>_. True" for c cf]
        runs_bind [OF write_runs(1) [OF block_rows_hashes]] runs_bind [OF bin] runs_bind [OF step_runs(5)]
        runs_bind [OF step_runs(6)] runs_bind [OF step_runs(7)] runs_bind [OF step_runs(8)] runs_bind [OF step_runs(11)]
        step_runs(2))
      (simp_all add: ALL_COLUMN_FAMILIES_def)
qed

lemma has_block_runs: "runs (working content) (has_block D h) (\<lambda>_. True)"
  unfolding has_block_def
  by (intro runs_bind [where m = "getM id" and R = "\<lambda>_. True"] runs_bind [OF step_runs(2)] runs_bind [OF step_runs(3)]
      runs_if runs_basic) (simp_all add: ALL_COLUMN_FAMILIES_def)

lemma extend_chain_runs:
  assumes "encodable D b" and "io_err (dp_io D) = (\<lambda>_. None)" and "has_slot (dp_block_height D b)"
  shows "runs (working content) (extend_chain D b) (\<lambda>_. True)"
  unfolding extend_chain_def Let_def put_def
  by (intro runs_bind [OF has_block_runs] runs_if runs_bind [OF put_block_runs [OF assms]] runs_bind [OF set_tip_runs]
      runs_basic(1) TrueI)

lemma rollback_returns:
  assumes work: "working content s" and io: "io_err (dp_io D) = (\<lambda>_. None)"
    and t: "tip s = Some t" "min_retained_height_cached s \<le> target" "target \<le> tip_height t" "has_slot (tip_height t)"
  shows "\<exists>reverted s'. rollback_to_height D target s = (Ok reverted, s') \<and> working content s'"
proof -
  have slot: "has_slot n" if "n \<le> tip_height t" for n
    using t(4) that unfolding has_slot_def word_le_nat_alt by linarith
  have add: "plain_add (dp_oc D) target 1 = Ok (target + 1)"
    using slot [OF t(3)] by (simp add: plain_add_def has_slot_def)
  have dels: "hashes_only (map (\<lambda>n. DeleteCf CF_CANONICAL (height_key n)) ns)" for ns
    by (auto simp: hashes_only_def)
  have tail: "runs (working content)
    (tryM (collect_heights (get_hash_by_height D) (rev (range_incl (target + 1) (tip_height t)))) (\<lambda>reverted.
         tryM (cf_handle D CF_CANONICAL) (\<lambda>_.
         tryM (db_write D (map (\<lambda>n. DeleteCf CF_CANONICAL (height_key n)) (range_incl (target + 1) (tip_height t)))) (\<lambda>_.
         tryM (with_bin (truncate_to_height (dp_io D) target)) (\<lambda>_.
         tryM (get_hash_by_height D target) (\<lambda>found.
         tryM (case found of
                 Some target_hash \<Rightarrow> set_tip D \<lparr>tip_hash = target_hash, tip_height = target\<rparr>
               | None \<Rightarrow> returnM ()) (\<lambda>_.
         tryM (flag_records False reverted) (\<lambda>_.
         tryM (modifyM (\<lambda>s. s\<lparr>canonical_height_cache :=
                 fold bt_remove (range_incl (target + 1) (tip_height t)) (canonical_height_cache s)\<rparr>)) (\<lambda>_.
         returnM reverted)))))))))  (\<lambda>_. True)"
    by (intro runs_bind [OF collect_runs] runs_bind [OF step_runs(2)] runs_bind [OF write_runs(1) [OF dels]]
        runs_bind [OF bin_writes_run(2) [OF io slot [OF t(3)]]] runs_bind [OF lookup_runs [OF slot [OF t(3)]]]
        runs_bind [where m = "case found of None \<Rightarrow> returnM () | Some x \<Rightarrow> g x" and R = "\<lambda>_. True" for found g]
        runs_option runs_basic(1) set_tip_runs runs_bind [OF step_runs(9)] runs_bind [OF runs_basic(3)] slot)
      (auto simp: ALL_COLUMN_FAMILIES_def working_def)
  from runsD [OF tail work] show ?thesis
    using work t by (auto simp: rollback_to_height_def tryM_run require_writable_def working_def min_retained_height_def
        add Let_def)
qed

lemma working_core: "core s' = core s \<Longrightarrow> working content s \<Longrightarrow> working content s'"
  by (simp add: core_def working_def)

lemma validate_hashes_returns:
  assumes inv: "store_inv D content s" and known: "\<And>h. h \<in> set hashes \<Longrightarrow> content (db s) CF_HEADERS (hash_key h) \<noteq> None"
  shows "\<exists>vs s'. validate_hashes D hashes s = (Ok vs, s')"
proof -
  have one: "runs (reading D content s) (tryM (get_record D h) (\<lambda>r. case r of
      None \<Rightarrow> failM (BlockNotInStore h) | Some record \<Rightarrow> returnM (acc @ [(h, record)]))) (\<lambda>_. True)"
    if "h \<in> set hashes" for h and acc :: "(bytes32 \<times> BlockRecord) list"
    by (rule runs_bind [OF runs_yields [OF get_record_yields [OF inv] get_record_succeeds [OF inv]]])
      (use known [OF that] in \<open>auto split: option.splits intro: runs_basic(1)\<close>)
  have "runs (reading D content s) (validate_hashes D hashes) (\<lambda>_. True)"
    unfolding validate_hashes_def by (rule runs_foldM) (rule one)
  from runsD [OF this reading_refl [OF inv]] show ?thesis by blast
qed

lemma set_canonical_returns:
  assumes inv: "store_inv D content s" and work: "working content s" and io: "io_err (dp_io D) = (\<lambda>_. None)"
    and known: "content (db s) CF_HEADERS (hash_key h) \<noteq> None"
    and slot: "\<And>hdr. known_header D content s h hdr \<Longrightarrow> has_slot (hd_height hdr)"
  shows "\<exists>s'. set_canonical D h s = (Ok (), s')"
proof -
  obtain rc s1 where get: "get_record D h s = (Ok (Some rc), s1)" and s1: "reading D content s s1"
    and rc: "known_record D content s h rc"
    using runsD [OF runs_yields [OF get_record_yields [OF inv] get_record_succeeds [OF inv]] reading_refl [OF inv], of h] known
    by (auto split: option.splits)
  have n: "has_slot (br_height rc)"
    using rc slot by (auto simp: known_record_def dest: record_matches_fields)
  have s1: "working content s1" using working_core [of s1 s] work s1 by (simp add: reading_def)
  have "runs (working content) (tryM (cf_handle D CF_CANONICAL) (\<lambda>_.
         tryM (db_put D CF_CANONICAL (height_key (br_height rc)) (hash_key h)) (\<lambda>_.
         tryM (with_bin (extend_write (dp_io D) (br_height rc) h)) (\<lambda>_.
         tryM (insert_canonical_height_cache (br_height rc) h) (\<lambda>_.
         tryM (hash_to_height_insert D h (br_height rc)) (\<lambda>_.
         mark_canonical h rc)))))) (\<lambda>_. True)"
    by (intro runs_bind [OF step_runs(2)] runs_bind [OF write_runs(2)] runs_bind [OF bin_writes_run(1) [OF io n]]
        runs_bind [OF step_runs(4)] runs_bind [OF step_runs(8)] step_runs(10)) (simp_all add: ALL_COLUMN_FAMILIES_def)
  from runsD [OF this s1] get work show ?thesis
    by (auto simp: set_canonical_def tryM_run require_writable_def working_def)
qed

lemma apply_reorg_returns:
  assumes inv: "store_inv D content s" and work: "working content s" and io: "io_err (dp_io D) = (\<lambda>_. None)"
    and t: "tip s = Some t" "has_slot (tip_height t)" "has_slot ancestor" and hashes: "hashes \<noteq> []"
    and known: "\<And>h. h \<in> set hashes \<Longrightarrow> content (db s) CF_HEADERS (hash_key h) \<noteq> None"
    and slots: "\<And>h hdr. h \<in> set hashes \<Longrightarrow> known_header D content s h hdr \<Longrightarrow> has_slot (hd_height hdr)"
  shows "\<exists>rr s'. apply_reorg D ancestor hashes s = (Ok rr, s')"
proof -
  obtain vs s1 where v: "validate_hashes D hashes s = (Ok vs, s1)"
    using validate_hashes_returns [OF inv known] by blast
  note v' = validate_hashes_Ok [OF inv v]
  have s1: "working content s1" "\<not> read_only s" using working_core [OF v'(2) work] work by (auto simp: working_def)
  have n: "has_slot (br_height rc)" if vs: "(h, rc) \<in> set vs" for h rc
  proof -
    have "h \<in> set hashes" using vs v'(3) by force
    moreover obtain hdr where "known_header D content s h hdr" "record_matches D hdr rc"
      using v'(4) vs by (auto simp: known_record_def)
    ultimately show ?thesis using slots by (auto dest: record_matches_fields)
  qed
  have up: "has_slot m" if "m \<le> tip_height t" for m
    using t(2) that unfolding has_slot_def word_le_nat_alt by linarith
  have add: "plain_add (dp_oc D) ancestor 1 = Ok (ancestor + 1)"
    using t(3) by (simp add: plain_add_def has_slot_def)
  let ?heights = "range_incl (ancestor + 1) (tip_height t)"
  let ?tip = "\<lparr>tip_hash = last hashes, tip_height = br_height (snd (last vs))\<rparr>"
  have batch: "hashes_only (map (\<lambda>n. DeleteCf CF_CANONICAL (height_key n)) ns @
      map (\<lambda>(hash, record). PutCf CF_CANONICAL (height_key (br_height record)) (hash_key hash)) vs @
      [PutCf CF_METADATA k x])" for ns k x
    by (auto simp: hashes_only_def)
  have slots: "runs (working content) (forM vs (\<lambda>(hash, record).
      with_bin (extend_write (dp_io D) (br_height record) hash))) (\<lambda>_. True)"
    unfolding forM_def
    by (rule runs_foldM) (use n in \<open>auto intro!: bin_writes_run(1) [OF io]\<close>)
  have "runs (working content)
      (tryM (collect_heights (get_hash_by_height D) (rev ?heights)) (\<lambda>reverted.
       tryM (db_write D
              (map (\<lambda>n. DeleteCf CF_CANONICAL (height_key n)) (rev ?heights) @
               map (\<lambda>(hash, record). PutCf CF_CANONICAL (height_key (br_height record)) (hash_key hash)) vs @
               [PutCf CF_METADATA (as_bytes META_TIP) (tip_to_bytes ?tip)])) (\<lambda>_.
       tryM (with_bin (truncate_to_height (dp_io D) ancestor)) (\<lambda>_.
       tryM (forM vs (\<lambda>(hash, record). with_bin (extend_write (dp_io D) (br_height record) hash))) (\<lambda>_.
       tryM (flag_records False reverted) (\<lambda>_.
       tryM (flag_records True (map fst vs)) (\<lambda>_.
       tryM (modifyM (\<lambda>s. s\<lparr>canonical_height_cache :=
               fold (\<lambda>(hash, record). bt_insert (br_height record) hash) vs
                 (fold bt_remove ?heights (canonical_height_cache s))\<rparr>)) (\<lambda>_.
       tryM (modifyM (\<lambda>s. s\<lparr>tip := Some ?tip\<rparr>)) (\<lambda>_.
       returnM \<lparr>rr_reverted = reverted, rr_applied = hashes, rr_new_tip = ?tip\<rparr>)))))))))
      (\<lambda>_. True)"
    by (intro runs_bind [OF collect_runs] runs_bind [OF write_runs(1) [OF batch]]
        runs_bind [OF bin_writes_run(2) [OF io t(3)]] runs_bind [OF slots] runs_bind [OF step_runs(9)]
        runs_bind [OF runs_basic(3)] runs_basic(1) up)
      (auto simp: working_def)
  from runsD [OF this s1(1)] v show ?thesis
    using t(1) hashes s1(2) v'(2) by (auto simp: apply_reorg_def tryM_run require_writable_def add Let_def)
qed

end

end
