(* ===== verification/Liveness_Properties.thy ===== *)
theory Liveness_Properties
  imports Reference Write_Totality Chain_Spec
begin

text \<open>
  The properties of calls that return: reads of a sound store, the two ways to store a block, and
  the three ways to move the chain.
\<close>

lemma run_yields:
  assumes "yields P m R" and "succeeds P m" and "P s"
  shows "\<exists>r s'. m s = (Ok r, s') \<and> R r"
  using runsD [OF runs_yields [OF assms(1,2)] assms(3)] by blast

lemma ref_chain_working:
  "working ref_content ref_chain" "io_err (dp_io ref_deps) = (\<lambda>_. None)"
proof -
  show "working ref_content ref_chain"
    by (rule working_of_inv [OF ref_chain_inv]) (simp_all add: bin_mapped_def ref_states)
qed (simp add: ref_deps_def)





text \<open>
  C9: Chain moves return: on a working store \<open>rollback_to_height\<close> to any height between the minimum
  and the tip does the abstract rollback, and \<open>set_canonical\<close> and \<open>apply_reorg\<close> of known blocks
  succeed.
\<close>

theorem chain_moves_return:
  assumes "live_deps D content" and "store_inv D content s" and "working content s"
    and "io_err (dp_io D) = (\<lambda>_. None)" and "tip s = Some t" and "has_slot (tip_height t)"
    and "min_retained_height_cached s \<le> target" and "target \<le> tip_height t" and "hashes \<noteq> []"
    and "canonical_height_cache_capacity s \<noteq> 0"
    and "\<forall>h \<in> set hashes. content (db s) CF_HEADERS (hash_key h) \<noteq> None \<and>
      (\<forall>hdr. known_header D content s h hdr \<longrightarrow> has_slot (hd_height hdr))"
  shows "(\<exists>s'. rollback_to_height D target s = (Ok (spec_above target (abs_chain content s)), s') \<and>
      abs_chain content s' = spec_rollback target (abs_chain content s)) \<and>
    (\<exists>s'. set_canonical D (hd hashes) s = (Ok (), s')) \<and>
    (\<exists>blocks rr s'. apply_reorg D target hashes s = (Ok rr, s') \<and> map snd blocks = hashes \<and>
      abs_chain content s' = spec_reorg target blocks (abs_chain content s))"
proof (intro conjI)
  have laws: "deps_laws D content" using assms(1) by (simp add: live_deps_def)
  have target: "has_slot target"
    using assms(6,8) unfolding has_slot_def word_le_nat_alt by linarith
  obtain reverted s' where run: "rollback_to_height D target s = (Ok reverted, s')"
    using live_deps.rollback_returns [OF assms(1,3,4,5,7,8,6)] by blast
  with deps_laws.refines_rollback [OF laws assms(2) run]
  show "\<exists>s'. rollback_to_height D target s = (Ok (spec_above target (abs_chain content s)), s') \<and>
      abs_chain content s' = spec_rollback target (abs_chain content s)" by simp
  have hd: "hd hashes \<in> set hashes" using assms(9) by simp
  show "\<exists>s'. set_canonical D (hd hashes) s = (Ok (), s')"
    by (rule live_deps.set_canonical_returns [OF assms(1,2,3,4)]) (use assms(11) hd in blast)+
  have "\<exists>rr s'. apply_reorg D target hashes s = (Ok rr, s')"
    by (rule live_deps.apply_reorg_returns [OF assms(1,2,3,4,5,6) target assms(9)]) (use assms(11) in blast)+
  then obtain rr s' where run: "apply_reorg D target hashes s = (Ok rr, s')" by blast
  have "unat target + unat (1 :: u64) < 2 ^ 64" using target by (simp add: has_slot_def)
  from unat_add_below [OF this] have "unat (target + 1) \<noteq> 0" by simp
  then have "target + 1 \<noteq> 0" by auto
  from deps_laws.refines_reorg [OF laws assms(2) run \<open>target + 1 \<noteq> 0\<close> assms(10)] run
  show "\<exists>blocks rr s'. apply_reorg D target hashes s = (Ok rr, s') \<and> map snd blocks = hashes \<and>
      abs_chain content s' = spec_reorg target blocks (abs_chain content s)" by blast
qed

theorem chain_moves_return_witness:
  "(\<exists>s'. rollback_to_height ref_deps 0 ref_chain = (Ok (spec_above 0 (abs_chain ref_content ref_chain)), s')) \<and>
   (\<exists>rr s'. apply_reorg ref_deps 0 [8] ref_chain = (Ok rr, s'))"
proof -
  have row: "ref_content (db ref_chain) CF_HEADERS (hash_key 8) = Some (ref_header_bytes (blk_header (ref_block 8 1 5)))"
    by (simp add: ref_eval ref_states ref_folds block_rows_def)
  have t: "tip ref_chain = Some \<lparr>tip_hash = 7, tip_height = 2\<rparr>" "has_slot (tip_height \<lparr>tip_hash = 7, tip_height = 2\<rparr>)"
    "min_retained_height_cached ref_chain \<le> 0" "0 \<le> tip_height \<lparr>tip_hash = 7, tip_height = 2\<rparr>"
    by (simp_all add: ref_states has_slot_def)
  have slot: "has_slot (hd_height hdr)" if k: "known_header ref_deps ref_content ref_chain 8 hdr" for hdr
  proof -
    have "min_retained_height_cached ref_chain = 0" by (simp add: ref_states)
    with k row have "ref_header_bytes hdr = ref_header_bytes (blk_header (ref_block 8 1 5))"
      by (simp add: known_header_def stored_header_def ref_deps_def)
    from arg_cong [OF this, of ref_de_header] have "hdr = blk_header (ref_block 8 1 5)"
      unfolding ref_header_roundtrip by (rule sum.inject(2) [THEN iffD1])
    then show ?thesis by (simp add: has_slot_def ref_block_def)
  qed
  have rows: "\<forall>h \<in> set [8]. ref_content (db ref_chain) CF_HEADERS (hash_key h) \<noteq> None \<and>
      (\<forall>hdr. known_header ref_deps ref_content ref_chain h hdr \<longrightarrow> has_slot (hd_height hdr))"
    using row slot by simp
  have cap: "canonical_height_cache_capacity ref_chain \<noteq> 0" by (simp add: ref_states)
  have ne: "[8 :: bytes32] \<noteq> []" by simp
  note moves = chain_moves_return [OF ref_live.live_deps_axioms ref_chain_inv ref_chain_working t ne cap rows]
  from moves [THEN conjunct1] moves [THEN conjunct2, THEN conjunct2]
  show ?thesis by (elim exE conjE) (intro conjI exI)
qed

end
