(* ===== verification/Spec2Isabelle.thy ===== *)
theory Spec2Isabelle
  imports Recovery_Properties Pipeline_Properties Handle_Properties Snapshot_Properties Liveness_Properties
begin

text \<open>
  A verification of \<open>dig-blockstore\<close>, the persistent block and header store of the DIG network L2
  (Rust, \<open>src/src/\<close>).

  \<^bold>\<open>The program.\<close> A store keeps blocks, headers, attested blocks, the canonical chain, checkpoints and
  metadata in six RocksDB column families. In front of them stand sharded LRU caches of blocks,
  headers and hash-to-height entries, a map of records, a height cache, and the memory-mapped file
  \<open>canonical.bin\<close>, a dense copy of the canonical family. The chain moves by genesis, extension,
  single and batch promotion, rollback and reorganization; old heights are pruned, compaction
  filters drop what is below the minimum height; blocks enter one by one, through a batching worker
  task, or from a snapshot stream.

  \<^bold>\<open>The model.\<close> An operation maps a state to an outcome (\<open>Ok\<close>, \<open>Err\<close> with an error of the crate, or
  \<open>Panic\<close>) and the next state (\<open>Prelude\<close>); a \<open>?\<close> of the source is \<open>tryM\<close>, a loop \<open>foldM\<close> or \<open>loopM\<close>. Integers
  are words of their width; plain additions panic on overflow when the flag \<open>dp_oc\<close> says that the
  program was built with overflow checks, and wrap otherwise (\<open>Rust_Arith\<close>). Code that is not part
  of the crate is the record \<open>deps\<close>: RocksDB, the LRU cache, bincode, zstd, SHA-256, the epoch
  arithmetic of \<open>dig-block\<close>, file operations. What is assumed of it are the locales \<open>rocksdb_laws\<close>,
  \<open>lru_laws\<close> and \<open>codec_laws\<close>, collected in \<open>deps_laws\<close>: a write batch is all or nothing, reads see
  the last write, iterators list rows in key order, a cache returns only what was put, decoding
  undoes encoding. Any call may still fail; \<open>live_deps\<close> adds that database calls succeed, and only
  properties that state that a call returns need it. \<open>Reference\<close> interprets the locales on an
  executable implementation, on which all witnesses run.

  \<^bold>\<open>Theories and sources.\<close>
  \<^item> \<open>Prelude\<close> (operations, frames, invariants of runs), \<open>Rust_Arith\<close>, \<open>Ordered_Map\<close> (\<open>BTreeMap\<close>), \<open>Rocks\<close>.
  \<^item> \<open>Errors\<close>: \<open>error.rs\<close>. \<open>Encoding\<close>: \<open>constants.rs\<close>, \<open>encoding.rs\<close>. \<open>Types\<close>: \<open>types/*.rs\<close>, \<open>config.rs\<close>.
  \<^item> \<open>Sharded_Cache\<close>: \<open>cache/sharded.rs\<close>. \<open>Canonical_Bin\<close>: \<open>canonical/mmap.rs\<close>.
  \<^item> \<open>Store_State\<close>: the struct of \<open>store.rs\<close> and its small steps. \<open>Compression\<close>: \<open>compression.rs\<close>.
  \<^item> \<open>Store_Inv\<close>: the invariant. It says that every body row is a frame of a block, that header rows
    and all caches agree with the rows, that height cache and \<open>canonical.bin\<close> hold no height that
    \<open>CF_CANONICAL\<close> contradicts, and that stored tip and minimum height are those in memory.
  \<^item> \<open>Reads\<close>, \<open>Writes\<close>, \<open>Reorg\<close>: \<open>store.rs\<close>, \<open>canonical/index.rs\<close>, \<open>cache/warming.rs\<close>. \<open>Scans\<close>: iterator loops.
  \<^item> \<open>Column_Families\<close>: \<open>cf_options.rs\<close>. \<open>Compaction\<close>, \<open>Statistics\<close>, \<open>Pruning\<close>, \<open>Checkpoints\<close>, \<open>Startup\<close>:
    the rest of \<open>store.rs\<close> with \<open>types/stored_checkpoint.rs\<close>.
  \<^item> \<open>Streaming\<close>, \<open>Pipeline\<close>: \<open>pipeline.rs\<close>. \<open>Pipeline_Worker\<close> is the worker among its callers as a
    step relation, \<open>Pipeline_Equivalence\<close> compares a batch with single puts, \<open>Pipeline_Acks\<close> says what
    an answer promises. \<open>Handles\<close>: the handle type of \<open>store.rs\<close> with \<open>pipeline_sender\<close>, as reference counts
    of the inner stores and of the slots with the sender of the pipeline.
  \<^item> \<open>Snapshot\<close>: \<open>snapshot.rs\<close>, \<open>wire.rs\<close>. \<open>Lifecycle\<close>: the public operations as requests.
  \<^item> \<open>Durable\<close>: the abstract chain that can be read out of a database alone. \<open>Interrupted\<close> and \<open>Crash\<close>: what
    each request leaves there when it ends anywhere, \<open>Bulk\<close> the same of imports and batches. \<open>Histories\<close>:
    recovery, and requests, imports, batches, restarts and crashes in any order.
  \<^item> \<open>Chain_Spec\<close>: the abstract chain, a map from heights to hashes with tip and minimum, and each
    move of the chain as a function on it. \<open>Atomicity\<close>: runs that write one batch. \<open>Totality\<close> and
    \<open>Write_Totality\<close>: reads and writes that end with \<open>Ok\<close>.
  \<^item> \<open>Block_Properties\<close>, \<open>Chain_Properties\<close>, \<open>Maintenance_Properties\<close>, \<open>Recovery_Properties\<close>,
    \<open>Pipeline_Properties\<close>, \<open>Handle_Properties\<close>, \<open>Snapshot_Properties\<close>, \<open>Liveness_Properties\<close>: the properties,
    with witnesses.

  \<^bold>\<open>What is shown.\<close> Reads return what is stored and change caches only. A block that \<open>put\<close> accepted is
  what \<open>get_block\<close> returns, also after evictions and dictionary training; a put and a
  reorganization are all or nothing in the database. Every move of the chain refines its function
  on abstract chains, pruning included, and the invariant holds along every history of operations,
  compactions, imports, batches, restarts and crashes: whatever call of the database or the file system fails
  first, a store opened on what is left is in its invariant, with the old chain, the new one, or for
  the two operations that write twice the one between the writes; after an import that dies, with a
  linked prefix of its blocks, and after a batch, with all of its canonical jobs or none. Checkpoints
  refine a finite map. No acknowledgement of the write pipeline is lost or sent twice, its buffers are
  bounded, its worker comes to rest with everyone answered, a batch equals single puts, and a positive
  answer means written rows. A store lives as long as a handle or its worker, and the worker's channel
  closes with the last handle. A snapshot round-trips, and an import that succeeds has checked the
  whole stream. Where the calls below succeed (\<open>live_deps\<close>, decodable frames, a mapped sidecar, nothing to train), reads, puts and
  moves of the chain do return, at every height that has a slot in \<open>canonical.bin\<close>.

  \<^bold>\<open>Loops.\<close> All loops of the source are bounded by a list or a counter and are structural recursions
  here (\<open>walk_ancestors\<close> counts down from \<open>max_depth\<close>); no fuel is used. The eviction loop of the height
  cache has a termination proof. The worker task is a step relation with a well-founded measure.

  \<^bold>\<open>Not modelled.\<close> Locks and threads: each call of the store runs alone, interleaving is considered
  between calls and, for the pipeline, between its steps. Durations: the flush timer may fire
  whenever nothing else is pending. A crash is a request, an import or a batch whose next call fails
  and whose memory is lost; single writes to RocksDB are taken to survive it in order,
  which holds for the death of the process but, without a synced log, not for a loss of power.
  \<open>open\<close> itself writes nothing to the database, so that its crash is a restart. RocksDB's internal options
  (buffer sizes, open files). \<open>lib.rs\<close> and the \<open>mod.rs\<close> files: re-exports, compile-time assertions and
  a dependency smoke test. Outside \<open>Handles\<close> a store is one state, and the pipeline's step \<open>dropped\<close>
  stands for the drop of its last handle. The texts of errors of third-party code are arbitrary strings.
\<close>

end
